(* ===== verification/Prelude.thy ===== *)
theory Prelude
  imports Main "HOL-Library.Sublist" "HOL-Library.List_Lexorder" "HOL-Library.Char_ord"
    "HOL-Library.Multiset"
begin

text \<open>
  What every component of the model shares: Python exceptions as values, actions that thread a
  state and may raise, the effects the program performs on the outside (log lines, Prometheus
  samples) as an ordered trace, and the generic lemmas on lists the component theories use.
\<close>

section \<open>Exceptions and results\<close>

text \<open>
  The exceptions the modelled code raises, catches or lets through. \<open>CancelledError\<close> and
  \<open>SystemExit\<close> derive from Python's \<open>BaseException\<close> only, so an \<open>except Exception\<close> does not
  catch them.
\<close>

datatype exn =
    HTTPException nat string
  | DatabaseError string
  | IntegrityError
  | ValueError string
  | KeyError string
  | TypeError string
  | RuntimeError string
  | HTTPError string
  | OtherException string
  | CancelledError
  | SystemExit int

fun is_Exception :: "exn \<Rightarrow> bool" where
  "is_Exception CancelledError = False"
| "is_Exception (SystemExit _) = False"
| "is_Exception _ = True"

datatype 'a res = Ok 'a | Raise exn

fun is_ok :: "'a res \<Rightarrow> bool" where
  "is_ok (Ok _) = True"
| "is_ok (Raise _) = False"

section \<open>Actions: state passing with exceptions\<close>

text \<open>
  An action takes the state and returns its result with the new state. As in Python, what was
  changed before an exception stays changed.
\<close>

type_synonym ('w, 'a) act = "'w \<Rightarrow> 'a res \<times> 'w"

named_theorems act_simps "evaluation of actions"

definition ret :: "'a \<Rightarrow> ('w, 'a) act" where
  "ret a w = (Ok a, w)"

definition throw :: "exn \<Rightarrow> ('w, 'a) act" where
  "throw e w = (Raise e, w)"

definition bnd :: "('w, 'a) act \<Rightarrow> ('a \<Rightarrow> ('w, 'b) act) \<Rightarrow> ('w, 'b) act" where
  "bnd m f w = (case m w of (Ok a, w') \<Rightarrow> f a w' | (Raise e, w') \<Rightarrow> (Raise e, w'))"

definition seqn :: "('w, 'a) act \<Rightarrow> ('w, 'b) act \<Rightarrow> ('w, 'b) act" where
  "seqn m n = bnd m (\<lambda>_. n)"

text \<open>\<open>try: m except Exception: h; raise\<close>, where \<open>h\<close> may itself raise.\<close>

definition on_exception :: "('w, 'a) act \<Rightarrow> ('w, unit) act \<Rightarrow> ('w, 'a) act" where
  "on_exception m h w =
     (case m w of
        (Ok a, w') \<Rightarrow> (Ok a, w')
      | (Raise e, w') \<Rightarrow> if is_Exception e then seqn h (throw e) w' else (Raise e, w'))"

text \<open>\<open>try: m finally: h\<close>, for a clean-up \<open>h\<close> that only changes the state.\<close>

definition finally_do :: "('w, 'a) act \<Rightarrow> ('w \<Rightarrow> 'w) \<Rightarrow> ('w, 'a) act" where
  "finally_do m h w = (case m w of (r, w') \<Rightarrow> (r, h w'))"

lemma ret_eq [act_simps]: "ret a w = (Ok a, w)"
  by (simp add: ret_def)

lemma throw_eq [act_simps]: "throw e w = (Raise e, w)"
  by (simp add: throw_def)

lemma bnd_Ok [act_simps]: "m w = (Ok a, w') \<Longrightarrow> bnd m f w = f a w'"
  by (simp add: bnd_def)

lemma bnd_Raise [act_simps]: "m w = (Raise e, w') \<Longrightarrow> bnd m f w = (Raise e, w')"
  by (simp add: bnd_def)

lemma seqn_Ok [act_simps]: "m w = (Ok a, w') \<Longrightarrow> seqn m n w = n w'"
  by (simp add: seqn_def bnd_def)

lemma seqn_Raise [act_simps]: "m w = (Raise e, w') \<Longrightarrow> seqn m n w = (Raise e, w')"
  by (simp add: seqn_def bnd_def)

lemma bnd_ret: "bnd (ret a) f = f a"
  by (rule ext) (simp add: bnd_def ret_def)

lemma bnd_assoc: "bnd (bnd m f) g = bnd m (\<lambda>a. bnd (f a) g)"
  by (rule ext) (simp add: bnd_def split: prod.splits res.splits)

lemma bnd_cases:
  assumes "bnd m f w = (r, w')"
  obtains (raise) e where "m w = (Raise e, w')" and "r = Raise e"
  | (ok) a w1 where "m w = (Ok a, w1)" and "f a w1 = (r, w')"
  using assms by (auto simp: bnd_def split: prod.splits res.splits)

lemma seqn_cases:
  assumes "seqn m n w = (r, w')"
  obtains (raise) e where "m w = (Raise e, w')" and "r = Raise e"
  | (ok) a w1 where "m w = (Ok a, w1)" and "n w1 = (r, w')"
  using assms unfolding seqn_def by (elim bnd_cases) auto

section \<open>Values in logs and audit details, effects\<close>

datatype pyval = PNone | PBool bool | PInt int | PStr string | PList "pyval list"
  | PDict "(string \<times> pyval) list"

fun py_opt_str :: "string option \<Rightarrow> pyval" where
  "py_opt_str None = PNone"
| "py_opt_str (Some s) = PStr s"

text \<open>The structlog methods the code calls; \<open>log.exception\<close> logs at error level with the traceback.\<close>

datatype log_method = Info | Warning | Error | Exception_Trace

text \<open>
  Every call that only leaves the process: a structlog line (logger, method, event, fields), an
  increment of a Prometheus counter, a write of a gauge.
\<close>

datatype effect =
    Log string log_method string "(string \<times> pyval) list"
  | Mtls_Auth_Inc string
  | Audit_Events_Inc string string
  | Nodes_Total_Clear
  | Nodes_Total_Set string string nat
  | Heartbeat_Age_Set string int

section \<open>Lists\<close>

text \<open>Descending order of a key, for \<open>order_by(... .desc())\<close>.\<close>

definition sorted_desc_by :: "('a \<Rightarrow> 'b::linorder) \<Rightarrow> 'a list \<Rightarrow> bool" where
  "sorted_desc_by f xs \<longleftrightarrow> sorted_wrt (\<lambda>x y. f y \<le> f x) xs"

lemma sorted_desc_by_rev_sort: "sorted_desc_by f (rev (sort_key f xs))"
  unfolding sorted_desc_by_def sorted_wrt_rev
  using sorted_sort_key[of f xs] by (simp add: sorted_map)

lemma sorted_desc_by_take_drop:
  "sorted_desc_by f xs \<Longrightarrow> sorted_desc_by f (take n (drop k xs))"
  by (simp add: sorted_desc_by_def sorted_wrt_take sorted_wrt_drop)

text \<open>The next integer primary key of a table whose keys are \<open>ks\<close>.\<close>

fun next_key :: "int list \<Rightarrow> int" where
  "next_key [] = 1"
| "next_key (k # ks) = max (k + 1) (next_key ks)"

lemma next_key_fresh: "k \<in> set ks \<Longrightarrow> k < next_key ks"
  by (induction ks) auto

lemma next_key_notin [simp]: "next_key ks \<notin> set ks"
  using next_key_fresh by blast

lemma map_eq_distinct_unique:
  "distinct (map f xs) \<Longrightarrow> x \<in> set xs \<Longrightarrow> y \<in> set xs \<Longrightarrow> f x = f y \<Longrightarrow> x = y"
  by (auto simp: distinct_map inj_on_def)

lemma list_all2_mem1: "list_all2 P xs ys \<Longrightarrow> x \<in> set xs \<Longrightarrow> \<exists>y \<in> set ys. P x y"
  by (induction rule: list_all2_induct) auto

lemma list_all2_mem2: "list_all2 P xs ys \<Longrightarrow> y \<in> set ys \<Longrightarrow> \<exists>x \<in> set xs. P x y"
  by (induction rule: list_all2_induct) auto

lemma find_unique:
  assumes "distinct (map f xs)" and "x \<in> set xs"
  shows "find (\<lambda>y. f y = f x) xs = Some x"
  using assms by (induction xs) force+

lemma find_SomeD: "find P xs = Some x \<Longrightarrow> x \<in> set xs \<and> P x"
  by (auto simp: find_Some_iff)

lemma find_NoneD: "find P xs = None \<Longrightarrow> x \<in> set xs \<Longrightarrow> \<not> P x"
  by (auto simp: find_None_iff)

end
