(* ===== verification/Py_Str.thy ===== *)
theory Py_Str
  imports Prelude
begin

text \<open>
  The Python string operations the program uses: \<open>strip\<close>, \<open>rstrip(c)\<close>, \<open>split(c)\<close>, \<open>startswith\<close>,
  \<open>int(s, 16)\<close> and the format \<open>{:x}\<close>. Strings are \<^typ>\<open>string\<close>, one \<^typ>\<open>char\<close> per code point:
  header values are Latin-1, so every code point the server sees there is below 256.
\<close>

section \<open>White space, strip and split\<close>

text \<open>\<open>str.isspace\<close> below 256.\<close>

definition is_space :: "char \<Rightarrow> bool" where
  "is_space c \<longleftrightarrow> (let n = of_char c :: nat in
     (9 \<le> n \<and> n \<le> 13) \<or> (28 \<le> n \<and> n \<le> 32) \<or> n = 133 \<or> n = 160)"

definition py_strip :: "string \<Rightarrow> string" where
  "py_strip s = rev (dropWhile is_space (rev (dropWhile is_space s)))"

definition py_rstrip_char :: "char \<Rightarrow> string \<Rightarrow> string" where
  "py_rstrip_char c s = rev (dropWhile (\<lambda>x. x = c) (rev s))"

fun py_split :: "char \<Rightarrow> string \<Rightarrow> string list" where
  "py_split d [] = [[]]"
| "py_split d (c # cs) =
     (if c = d then [] # py_split d cs
      else (case py_split d cs of [] \<Rightarrow> [[c]] | p # ps \<Rightarrow> (c # p) # ps))"

fun py_join :: "char \<Rightarrow> string list \<Rightarrow> string" where
  "py_join d [] = []"
| "py_join d [p] = p"
| "py_join d (p # q # ps) = p @ d # py_join d (q # ps)"

lemma py_split_not_Nil [simp]: "py_split d s \<noteq> []"
  by (induction s) (auto split: list.splits)

lemma py_join_split: "py_join d (py_split d s) = s"
proof (induction s)
  case (Cons c s)
  obtain p ps where "py_split d s = p # ps"
    by (cases "py_split d s") auto
  with Cons show ?case by (cases ps) auto
qed simp

lemma py_split_no_sep: "p \<in> set (py_split d s) \<Longrightarrow> d \<notin> set p"
  by (induction s arbitrary: p) (auto split: if_splits list.splits)

lemma py_split_hd: "hd (py_split d s) = takeWhile (\<lambda>c. c \<noteq> d) s"
  by (induction s) (auto split: list.splits)

lemma py_strip_empty_iff: "py_strip s = [] \<longleftrightarrow> (\<forall>c \<in> set s. is_space c)"
proof -
  have "py_strip s = [] \<longleftrightarrow> (\<forall>c \<in> set (dropWhile is_space s). is_space c)"
    by (simp add: py_strip_def)
  also have "\<dots> \<longleftrightarrow> (\<forall>c \<in> set s. is_space c)"
  proof -
    have "s = takeWhile is_space s @ dropWhile is_space s" by simp
    then have "set s = set (takeWhile is_space s) \<union> set (dropWhile is_space s)"
      by (metis set_append)
    then show ?thesis by (auto dest: set_takeWhileD)
  qed
  finally show ?thesis .
qed

lemma dropWhile_id: "s = [] \<or> \<not> P (hd s) \<Longrightarrow> dropWhile P s = s"
  by (cases s) auto

text \<open>A string with no white space at either end is its own strip.\<close>

lemma py_strip_id:
  assumes "s = [] \<or> (\<not> is_space (hd s) \<and> \<not> is_space (last s))"
  shows "py_strip s = s"
  using assms by (auto simp: py_strip_def dropWhile_id hd_rev)

lemma py_rstrip_char_last: "py_rstrip_char c s = [] \<or> last (py_rstrip_char c s) \<noteq> c"
proof -
  have "dropWhile (\<lambda>x. x = c) (rev s) = [] \<or> hd (dropWhile (\<lambda>x. x = c) (rev s)) \<noteq> c"
    using hd_dropWhile[of "\<lambda>x. x = c" "rev s"] by blast
  then show ?thesis by (auto simp: py_rstrip_char_def last_rev)
qed

lemma py_rstrip_char_prefix: "\<exists>n. s = py_rstrip_char c s @ replicate n c"
proof -
  have "rev s = takeWhile (\<lambda>x. x = c) (rev s) @ dropWhile (\<lambda>x. x = c) (rev s)" by simp
  then have "s = rev (dropWhile (\<lambda>x. x = c) (rev s)) @ rev (takeWhile (\<lambda>x. x = c) (rev s))"
    by (metis rev_append rev_rev_ident)
  moreover have "takeWhile (\<lambda>x. x = c) (rev s) = replicate (length (takeWhile (\<lambda>x. x = c) (rev s))) c"
    by (rule replicate_length_same [symmetric]) (auto dest: set_takeWhileD)
  ultimately show ?thesis
    unfolding py_rstrip_char_def by (metis rev_replicate)
qed

section \<open>int(s, 16)\<close>

text \<open>
  \<open>int\<close> of a string: an ASCII string is scanned as it is; in any other string the code points
  from 127 on become a blank when they are white space and an invalid character otherwise
  (below 256 there is no decimal digit outside ASCII). Then come C white space, a sign, the
  prefix \<open>0x\<close> with one underscore allowed after it, digits with single underscores between
  them, and C white space to the end.
\<close>

definition is_c_space :: "char \<Rightarrow> bool" where
  "is_c_space c \<longleftrightarrow> (let n = of_char c :: nat in (9 \<le> n \<and> n \<le> 13) \<or> n = 32)"

definition int_ascii :: "string \<Rightarrow> string" where
  "int_ascii s =
     (if list_all (\<lambda>c. (of_char c :: nat) < 128) s then s
      else map (\<lambda>c. if (of_char c :: nat) < 127 then c
                    else if is_space c then CHR '' '' else CHR ''?'') s)"

definition hex_val :: "char \<Rightarrow> nat option" where
  "hex_val c = (let n = of_char c :: nat in
     if 48 \<le> n \<and> n \<le> 57 then Some (n - 48)
     else if 97 \<le> n \<and> n \<le> 102 then Some (n - 87)
     else if 65 \<le> n \<and> n \<le> 70 then Some (n - 55)
     else None)"

text \<open>The digits after the first one, with the value so far; the rest starts at a non-digit.\<close>

fun hex_digits :: "nat \<Rightarrow> string \<Rightarrow> (nat \<times> string) option" where
  "hex_digits acc [] = Some (acc, [])"
| "hex_digits acc (c # cs) =
     (case hex_val c of
        Some d \<Rightarrow> hex_digits (16 * acc + d) cs
      | None \<Rightarrow>
          if c = CHR ''_'' then
            (case cs of
               [] \<Rightarrow> None
             | d # ds \<Rightarrow> (case hex_val d of
                            Some v \<Rightarrow> hex_digits (16 * acc + v) ds
                          | None \<Rightarrow> None))
          else Some (acc, c # cs))"

definition hex_number :: "string \<Rightarrow> (nat \<times> string) option" where
  "hex_number s =
     (case s of
        [] \<Rightarrow> None
      | c # cs \<Rightarrow> (case hex_val c of None \<Rightarrow> None | Some d \<Rightarrow> hex_digits d cs))"

definition hex_sign :: "string \<Rightarrow> bool \<times> string" where
  "hex_sign s =
     (case s of
        [] \<Rightarrow> (False, [])
      | c # cs \<Rightarrow> if c = CHR ''-'' then (True, cs)
                  else if c = CHR ''+'' then (False, cs)
                  else (False, s))"

definition hex_prefix :: "string \<Rightarrow> string" where
  "hex_prefix s =
     (case s of
        z # x # r \<Rightarrow>
          if z = CHR ''0'' \<and> (x = CHR ''x'' \<or> x = CHR ''X'')
          then (case r of u # r' \<Rightarrow> if u = CHR ''_'' then r' else r | [] \<Rightarrow> [])
          else s
      | _ \<Rightarrow> s)"

definition py_int16 :: "string \<Rightarrow> int option" where
  "py_int16 s =
     (let (neg, s2) = hex_sign (dropWhile is_c_space (int_ascii s)) in
      case hex_number (hex_prefix s2) of
        None \<Rightarrow> None
      | Some (n, rest) \<Rightarrow>
          if list_all is_c_space rest then Some (if neg then - int n else int n) else None)"

section \<open>The format {:x}\<close>

definition hex_char :: "nat \<Rightarrow> char" where
  "hex_char d = (if d < 10 then char_of (48 + d) else char_of (87 + d))"

definition HEX_char :: "nat \<Rightarrow> char" where
  "HEX_char d = (if d < 10 then char_of (48 + d) else char_of (55 + d))"

text \<open>The hexadecimal digits of a number, most significant first.\<close>

fun base16 :: "nat \<Rightarrow> nat list" where
  "base16 n = (if n < 16 then [n] else base16 (n div 16) @ [n mod 16])"

declare base16.simps [simp del]

definition py_hex :: "int \<Rightarrow> string" where
  "py_hex i = (if i < 0 then CHR ''-'' # map hex_char (base16 (nat (- i)))
               else map hex_char (base16 (nat i)))"

text \<open>The same in capitals, the form of nginx's \<open>$ssl_client_serial\<close>.\<close>

definition HEX_serial :: "nat \<Rightarrow> string" where
  "HEX_serial n = map HEX_char (base16 n)"

lemma base16_not_Nil [simp]: "base16 n \<noteq> []"
  by (subst base16.simps) simp

lemma base16_digits: "d \<in> set (base16 n) \<Longrightarrow> d < 16"
proof (induction n arbitrary: d rule: base16.induct)
  case (1 n)
  then show ?case by (cases "n < 16") (auto simp: base16.simps [of n])
qed

lemma base16_value: "foldl (\<lambda>a d. 16 * a + d) 0 (base16 n) = n"
proof (induction n rule: base16.induct)
  case (1 n)
  then show ?case by (cases "n < 16") (simp_all add: base16.simps [of n])
qed

section \<open>Reading back what was printed\<close>

text \<open>What a hexadecimal digit is not: a blank, a sign, a prefix letter, an underscore.\<close>

lemma hex_val_SomeD:
  assumes "hex_val c = Some d"
  shows "(of_char c :: nat) < 128" and "\<not> is_c_space c"
    and "c \<noteq> CHR ''-''" and "c \<noteq> CHR ''+''" and "c \<noteq> CHR ''x''" and "c \<noteq> CHR ''X''"
  using assms by (auto simp: hex_val_def is_c_space_def Let_def split: if_splits)

lemma hex_val_hex_char: "d < 16 \<Longrightarrow> hex_val (hex_char d) = Some d"
  by (simp add: hex_val_def hex_char_def Let_def)

lemma hex_val_HEX_char: "d < 16 \<Longrightarrow> hex_val (HEX_char d) = Some d"
  by (simp add: hex_val_def HEX_char_def Let_def)

lemma hex_digits_rendered:
  assumes f: "\<And>d. d < 16 \<Longrightarrow> hex_val (f d) = Some d"
  shows "\<forall>d \<in> set ds. d < 16 \<Longrightarrow>
    hex_digits acc (map f ds) = Some (foldl (\<lambda>a d. 16 * a + d) acc ds, [])"
  by (induction ds arbitrary: acc) (auto simp: f)

lemma hex_number_rendered:
  assumes f: "\<And>d. d < 16 \<Longrightarrow> hex_val (f d) = Some d"
  shows "hex_number (map f (base16 n)) = Some (n, [])"
proof -
  obtain d ds where n: "base16 n = d # ds" by (cases "base16 n") auto
  have lt: "\<forall>x \<in> set ds. x < 16" "d < 16"
    using base16_digits[of _ n] by (auto simp: n)
  have "hex_digits d (map f ds) = Some (foldl (\<lambda>a d. 16 * a + d) d ds, [])"
    by (rule hex_digits_rendered [OF f lt(1)])
  moreover have "foldl (\<lambda>a d. 16 * a + d) d ds = n"
    using base16_value[of n] by (simp add: n)
  ultimately show ?thesis by (simp add: hex_number_def n f lt(2))
qed

lemma int_ascii_rendered:
  assumes f: "\<And>d. d < 16 \<Longrightarrow> hex_val (f d) = Some d" and "\<forall>d \<in> set ds. d < 16"
  shows "int_ascii (map f ds) = map f ds"
proof -
  have "list_all (\<lambda>c. (of_char c :: nat) < 128) (map f ds)"
    using assms(2) by (auto simp: list_all_iff dest: hex_val_SomeD(1) [OF f])
  then show ?thesis by (simp add: int_ascii_def)
qed

lemma hex_prefix_rendered:
  assumes f: "\<And>d. d < 16 \<Longrightarrow> hex_val (f d) = Some d" and "\<forall>d \<in> set ds. d < 16"
  shows "hex_prefix (map f ds) = map f ds"
  using assms(2)
  by (auto simp: hex_prefix_def split: list.splits dest: hex_val_SomeD(5,6) [OF f])

lemma hex_sign_rendered:
  assumes f: "\<And>d. d < 16 \<Longrightarrow> hex_val (f d) = Some d" and "\<forall>d \<in> set ds. d < 16"
  shows "hex_sign (map f ds) = (False, map f ds)"
  using assms(2)
  by (auto simp: hex_sign_def split: list.splits dest: hex_val_SomeD(3,4) [OF f])

lemma py_int16_rendered:
  assumes f: "\<And>d. d < 16 \<Longrightarrow> hex_val (f d) = Some d"
  shows "py_int16 (map f (base16 n)) = Some (int n)"
proof -
  have lt: "\<forall>d \<in> set (base16 n). d < 16" by (auto dest: base16_digits)
  then have "hd (base16 n) < 16" by simp
  then have "\<not> is_c_space (f (hd (base16 n)))" by (rule hex_val_SomeD(2) [OF f])
  then have "dropWhile is_c_space (map f (base16 n)) = map f (base16 n)"
    by (intro dropWhile_id) (simp add: hd_map)
  then show ?thesis
    by (simp add: py_int16_def int_ascii_rendered [OF f lt] hex_sign_rendered [OF f lt]
        hex_prefix_rendered [OF f lt] hex_number_rendered [OF f])
qed

lemma py_int16_HEX_serial: "py_int16 (HEX_serial n) = Some (int n)"
  unfolding HEX_serial_def by (rule py_int16_rendered) (rule hex_val_HEX_char)

lemma py_int16_py_hex_nat: "py_int16 (py_hex (int n)) = Some (int n)"
proof -
  have "py_int16 (map hex_char (base16 n)) = Some (int n)"
    by (rule py_int16_rendered) (rule hex_val_hex_char)
  then show ?thesis by (simp only: py_hex_def nat_int of_nat_less_0_iff if_False simp_thms)
qed

lemma HEX_serial_inject: "HEX_serial m = HEX_serial n \<Longrightarrow> m = n"
  by (metis py_int16_HEX_serial of_nat_eq_iff option.inject)

end
