(* ===== verification/Models.thy ===== *)
theory Models
  imports Py_Str
begin

text \<open>
  The data model of the controller: \<open>app/models/node.py\<close> and \<open>app/models/audit.py\<close>. A class
  hierarchy is a record and its extension: the fields of \<open>NodeBase\<close> are those of the registration
  payload \<open>NodeCreate\<close>, and \<open>Node\<close> extends them with the columns of the table. The primary keys
  \<open>id\<close> are named \<open>node_pk\<close> and \<open>event_pk\<close>.
\<close>

section \<open>Time\<close>

text \<open>
  A Python datetime, in microseconds: naive, or aware (always UTC in the controller). Adding or
  subtracting the two kinds raises.
\<close>

datatype datetime = Naive int | Aware int

fun dt_micros :: "datetime \<Rightarrow> int" where
  "dt_micros (Naive t) = t"
| "dt_micros (Aware t) = t"

text \<open>\<open>a - b\<close> in microseconds.\<close>

fun dt_sub :: "datetime \<Rightarrow> datetime \<Rightarrow> int res" where
  "dt_sub (Naive a) (Naive b) = Ok (a - b)"
| "dt_sub (Aware a) (Aware b) = Ok (a - b)"
| "dt_sub _ _ = Raise (TypeError ''can't subtract offset-naive and offset-aware datetimes'')"

section \<open>Nodes\<close>

datatype node_state = ONBOARDING | ACTIVE | STALE | REVOKED | DECOMMISSIONED

fun node_state_value :: "node_state \<Rightarrow> string" where
  "node_state_value ONBOARDING = ''onboarding''"
| "node_state_value ACTIVE = ''active''"
| "node_state_value STALE = ''stale''"
| "node_state_value REVOKED = ''revoked''"
| "node_state_value DECOMMISSIONED = ''decommissioned''"

record node_base =
  node_id :: string
  common_name :: string
  role :: string
  state :: node_state
  ip_address :: "string option"
  node_notes :: "string option"

text \<open>\<open>NodeCreate\<close> adds nothing to \<open>NodeBase\<close>.\<close>

type_synonym node_create = node_base

text \<open>The lengths the \<open>Field\<close> declarations of \<open>NodeBase\<close> allow.\<close>

definition valid_node_create :: "node_create \<Rightarrow> bool" where
  "valid_node_create p \<longleftrightarrow>
     length (node_id p) \<le> 64 \<and> length (common_name p) \<le> 255 \<and> length (role p) \<le> 32 \<and>
     (case ip_address p of None \<Rightarrow> True | Some a \<Rightarrow> length a \<le> 45) \<and>
     (case node_notes p of None \<Rightarrow> True | Some n \<Rightarrow> length n \<le> 512)"

record node = node_base +
  node_pk :: "int option"
  created_at :: datetime
  updated_at :: datetime
  last_heartbeat_at :: "datetime option"

text \<open>
  \<open>Node(**payload.model_dump())\<close>: the payload's fields, no primary key yet, no heartbeat, and the
  two timestamps from their default factories, one clock reading each.
\<close>

definition Node_of :: "node_create \<Rightarrow> int \<Rightarrow> int \<Rightarrow> node" where
  "Node_of p t1 t2 =
     node_base.extend (node_base.truncate p)
       (node.fields None (Aware t1) (Aware t2) None)"

record heartbeat_payload =
  status_note :: "string option"

lemma Node_of_fields [simp]:
  "node_id (Node_of p t1 t2) = node_id p" "common_name (Node_of p t1 t2) = common_name p"
  "role (Node_of p t1 t2) = role p" "state (Node_of p t1 t2) = state p"
  "ip_address (Node_of p t1 t2) = ip_address p" "node_notes (Node_of p t1 t2) = node_notes p"
  "node_pk (Node_of p t1 t2) = None" "created_at (Node_of p t1 t2) = Aware t1"
  "updated_at (Node_of p t1 t2) = Aware t2" "last_heartbeat_at (Node_of p t1 t2) = None"
  by (simp_all add: Node_of_def node_base.defs node.defs)

section \<open>Audit events\<close>

datatype audit_action = NODE_REGISTER | NODE_HEARTBEAT | NODE_STATE_CHANGE | NODE_UPDATE
  | NODE_DELETE | AUTH_FAILURE | AUTH_SUCCESS | ADMIN_ACTION

fun audit_action_value :: "audit_action \<Rightarrow> string" where
  "audit_action_value NODE_REGISTER = ''node.register''"
| "audit_action_value NODE_HEARTBEAT = ''node.heartbeat''"
| "audit_action_value NODE_STATE_CHANGE = ''node.state_change''"
| "audit_action_value NODE_UPDATE = ''node.update''"
| "audit_action_value NODE_DELETE = ''node.delete''"
| "audit_action_value AUTH_FAILURE = ''auth.failure''"
| "audit_action_value AUTH_SUCCESS = ''auth.success''"
| "audit_action_value ADMIN_ACTION = ''admin.action''"

text \<open>The members' names, the form in which the column stores them.\<close>

fun audit_action_name :: "audit_action \<Rightarrow> string" where
  "audit_action_name NODE_REGISTER = ''NODE_REGISTER''"
| "audit_action_name NODE_HEARTBEAT = ''NODE_HEARTBEAT''"
| "audit_action_name NODE_STATE_CHANGE = ''NODE_STATE_CHANGE''"
| "audit_action_name NODE_UPDATE = ''NODE_UPDATE''"
| "audit_action_name NODE_DELETE = ''NODE_DELETE''"
| "audit_action_name AUTH_FAILURE = ''AUTH_FAILURE''"
| "audit_action_name AUTH_SUCCESS = ''AUTH_SUCCESS''"
| "audit_action_name ADMIN_ACTION = ''ADMIN_ACTION''"

datatype audit_result = SUCCESS | REJECTED | ERROR

fun audit_result_value :: "audit_result \<Rightarrow> string" where
  "audit_result_value SUCCESS = ''success''"
| "audit_result_value REJECTED = ''rejected''"
| "audit_result_value ERROR = ''error''"

fun audit_result_name :: "audit_result \<Rightarrow> string" where
  "audit_result_name SUCCESS = ''SUCCESS''"
| "audit_result_name REJECTED = ''REJECTED''"
| "audit_result_name ERROR = ''ERROR''"

type_synonym details = "(string \<times> pyval) list option"

record audit_base =
  actor_cn :: string
  action :: audit_action
  target :: "string option"
  result :: audit_result

record audit_event = audit_base +
  event_pk :: "int option"
  timestamp :: datetime
  details :: details

lemma node_state_value_inject [simp]: "node_state_value a = node_state_value b \<longleftrightarrow> a = b"
  by (cases a; cases b) simp_all

lemma audit_action_value_inject [simp]:
  "audit_action_value a = audit_action_value b \<longleftrightarrow> a = b"
  by (cases a; cases b) simp_all

lemma audit_result_value_inject [simp]:
  "audit_result_value a = audit_result_value b \<longleftrightarrow> a = b"
  by (cases a; cases b) simp_all

text \<open>No stored name is a value: a filter string selects one action at most.\<close>

lemma audit_action_name_value [simp]:
  "audit_action_name a \<noteq> audit_action_value b"
  by (cases a; cases b) simp_all

end
