(* ===== verification/Store.thy ===== *)
theory Store
  imports Models
begin

text \<open>
  The database and the interface through which the program uses it. SQLAlchemy and SQLite are
  not part of the repository, so the session's operations are a parameter: the record \<open>orm\<close>, one
  field per call the code makes. The locale \<open>orm_session\<close> states the laws the code relies on, as
  a simulation of the tables that \<open>app/models\<close> declares (record \<open>store\<close>: what is committed, what
  the session's transaction sees, what is added but not flushed); every operation may also
  raise, in which case nothing committed changes. \<open>orm_live\<close> adds that a database in order does
  not raise. Both are interpreted on a complete in-memory session, and \<open>orm_session\<close> also on one
  whose writes fail by plan.
\<close>

section \<open>The tables\<close>

record store =
  db_nodes :: "node list"
  db_events :: "audit_event list"
  tx_nodes :: "node list"
  tx_events :: "audit_event list"
  new_nodes :: "node list"
  new_events :: "audit_event list"

definition durable :: "store \<Rightarrow> node list \<times> audit_event list" where
  "durable s = (db_nodes s, db_events s)"

text \<open>A session that has just begun: it sees what is committed and holds nothing of its own.\<close>

definition clean :: "store \<Rightarrow> bool" where
  "clean s \<longleftrightarrow> tx_nodes s = db_nodes s \<and> tx_events s = db_events s \<and>
     new_nodes s = [] \<and> new_events s = []"

text \<open>The columns drop the time zone: a value read back is naive.\<close>

definition naive :: "datetime \<Rightarrow> datetime" where
  "naive d = Naive (dt_micros d)"

definition node_row :: "node \<Rightarrow> node" where
  "node_row n = n\<lparr>created_at := naive (created_at n), updated_at := naive (updated_at n),
     last_heartbeat_at := map_option naive (last_heartbeat_at n)\<rparr>"

fun keys_of :: "('a \<Rightarrow> int option) \<Rightarrow> 'a list \<Rightarrow> int list" where
  "keys_of f [] = []"
| "keys_of f (x # xs) = (case f x of None \<Rightarrow> keys_of f xs | Some k \<Rightarrow> k # keys_of f xs)"

text \<open>An object without a primary key is inserted under the next one, others replace their row.\<close>

definition write_node :: "node list \<Rightarrow> node \<Rightarrow> node list" where
  "write_node rows n =
     (case node_pk n of
        None \<Rightarrow> rows @ [(node_row n)\<lparr>node_pk := Some (next_key (keys_of node_pk rows))\<rparr>]
      | Some k \<Rightarrow> map (\<lambda>r. if node_pk r = Some k then node_row n else r) rows)"

definition write_event :: "audit_event list \<Rightarrow> audit_event \<Rightarrow> audit_event list" where
  "write_event rows e =
     rows @ [e\<lparr>event_pk := Some (next_key (keys_of event_pk rows)), timestamp := naive (timestamp e)\<rparr>]"

text \<open>\<open>node_id\<close> is declared unique: a flush that would break it does not happen.\<close>

definition flushable :: "store \<Rightarrow> bool" where
  "flushable s \<longleftrightarrow> distinct (map node_id (foldl write_node (tx_nodes s) (new_nodes s)))"

definition st_flush :: "store \<Rightarrow> store option" where
  "st_flush s =
     (if flushable s
      then Some (s\<lparr>tx_nodes := foldl write_node (tx_nodes s) (new_nodes s), new_nodes := [],
                   tx_events := foldl write_event (tx_events s) (new_events s), new_events := []\<rparr>)
      else None)"

definition st_commit :: "store \<Rightarrow> store option" where
  "st_commit s = map_option (\<lambda>t. t\<lparr>db_nodes := tx_nodes t, db_events := tx_events t\<rparr>) (st_flush s)"

definition st_rollback :: "store \<Rightarrow> store" where
  "st_rollback s = s\<lparr>tx_nodes := db_nodes s, tx_events := db_events s, new_nodes := [], new_events := []\<rparr>"

definition st_add_node :: "node \<Rightarrow> store \<Rightarrow> store" where
  "st_add_node n s = s\<lparr>new_nodes := new_nodes s @ [n]\<rparr>"

definition st_add_event :: "audit_event \<Rightarrow> store \<Rightarrow> store" where
  "st_add_event e s = s\<lparr>new_events := new_events s @ [e]\<rparr>"

text \<open>
  The statement \<open>list_audit_events\<close> builds: optional equality filters, descending time stamps, a
  window. A filter on an enum column accepts the member's value or its stored name.
\<close>

record audit_query =
  q_actor_cn :: "string option"
  q_action :: "string option"
  q_result :: "string option"
  q_offset :: nat
  q_limit :: nat

fun opt_holds :: "('a \<Rightarrow> bool) \<Rightarrow> 'a option \<Rightarrow> bool" where
  "opt_holds P None = True"
| "opt_holds P (Some x) = P x"

definition query_matches :: "audit_query \<Rightarrow> audit_event \<Rightarrow> bool" where
  "query_matches q e \<longleftrightarrow>
     opt_holds (\<lambda>a. actor_cn e = a) (q_actor_cn q) \<and>
     opt_holds (\<lambda>a. a = audit_action_value (action e) \<or> a = audit_action_name (action e)) (q_action q) \<and>
     opt_holds (\<lambda>r. r = audit_result_value (result e) \<or> r = audit_result_name (result e)) (q_result q)"

definition event_time :: "audit_event \<Rightarrow> int" where
  "event_time e = dt_micros (timestamp e)"

section \<open>The invariant of the tables\<close>

definition node_table_ok :: "node list \<Rightarrow> bool" where
  "node_table_ok ns \<longleftrightarrow> distinct (map node_id ns) \<and> distinct (map node_pk ns) \<and>
     (\<forall>n \<in> set ns. node_pk n \<noteq> None)"

definition event_table_ok :: "audit_event list \<Rightarrow> bool" where
  "event_table_ok es \<longleftrightarrow> distinct (map event_pk es) \<and> (\<forall>e \<in> set es. event_pk e \<noteq> None)"

definition store_ok :: "node list \<times> audit_event list \<Rightarrow> bool" where
  "store_ok d \<longleftrightarrow> node_table_ok (fst d) \<and> event_table_ok (snd d)"

lemma keys_of_mem: "f x = Some k \<Longrightarrow> x \<in> set xs \<Longrightarrow> k \<in> set (keys_of f xs)"
  by (induction xs) (auto split: option.splits)

lemma next_key_keys_of [simp]: "f x = Some (next_key (keys_of f xs)) \<Longrightarrow> x \<notin> set xs"
  using keys_of_mem next_key_notin by metis

lemma node_row_fields [simp]:
  "node_id (node_row n) = node_id n" "common_name (node_row n) = common_name n"
  "role (node_row n) = role n" "state (node_row n) = state n"
  "ip_address (node_row n) = ip_address n" "node_notes (node_row n) = node_notes n"
  "node_pk (node_row n) = node_pk n"
  by (simp_all add: node_row_def)

lemma write_event_append: "\<exists>r. write_event rows e = rows @ [r]"
  by (simp add: write_event_def)

lemma event_table_ok_write: "event_table_ok es \<Longrightarrow> event_table_ok (write_event es e)"
  by (auto simp: event_table_ok_def write_event_def dest!: sym [of "Some _"])

lemma write_node_update_ids:
  assumes "node_table_ok ns" and "m \<in> set ns" and "node_pk n = node_pk m"
    and "node_id n = node_id m"
  shows "map node_id (write_node ns n) = map node_id ns"
proof -
  obtain k where k: "node_pk m = Some k" using assms(1,2) by (auto simp: node_table_ok_def)
  have "r = m" if "r \<in> set ns" "node_pk r = Some k" for r
    using assms(1,2) k that map_eq_distinct_unique[of node_pk ns r m]
    by (simp add: node_table_ok_def)
  then show ?thesis using k assms(3,4) by (auto simp: write_node_def)
qed

lemma write_node_pks:
  assumes "node_pk n = Some k"
  shows "map node_pk (write_node ns n) = map node_pk ns"
  using assms by (auto simp: write_node_def)

lemma node_table_ok_write:
  assumes "node_table_ok ns" and "distinct (map node_id (write_node ns n))"
  shows "node_table_ok (write_node ns n)"
proof (cases "node_pk n")
  case None
  with assms show ?thesis
    by (auto simp: node_table_ok_def write_node_def dest!: sym [of "Some _"])
next
  case (Some k)
  have pks: "map node_pk (write_node ns n) = map node_pk ns"
    by (rule write_node_pks [OF Some])
  then have "node_pk ` set (write_node ns n) = node_pk ` set ns"
    by (metis set_map)
  then have "\<forall>r \<in> set (write_node ns n). node_pk r \<noteq> None"
    using assms(1) unfolding node_table_ok_def by (metis imageE imageI)
  with assms pks show ?thesis by (simp add: node_table_ok_def)
qed

section \<open>Flush and commit\<close>

text \<open>Without pending objects a flush changes nothing; a commit leaves a clean session.\<close>

lemma st_flush_SomeD:
  assumes "st_flush s = Some t"
  shows "tx_nodes t = foldl write_node (tx_nodes s) (new_nodes s)"
    and "tx_events t = foldl write_event (tx_events s) (new_events s)"
    and "new_nodes t = []" and "new_events t = []"
    and "db_nodes t = db_nodes s" and "db_events t = db_events s"
    and "distinct (map node_id (tx_nodes t))"
  using assms by (auto simp: st_flush_def flushable_def split: if_splits)

lemma st_commit_SomeD:
  assumes "st_commit s = Some t"
  shows "clean t"
    and "durable t = (foldl write_node (tx_nodes s) (new_nodes s), foldl write_event (tx_events s) (new_events s))"
    and "distinct (map node_id (db_nodes t))"
  using assms by (auto simp: st_commit_def clean_def durable_def dest: st_flush_SomeD)

lemma clean_rollback [simp]: "clean (st_rollback s)"
  by (simp add: clean_def st_rollback_def)

lemma durable_add [simp]:
  "durable (st_add_node n s) = durable s" "durable (st_add_event e s) = durable s"
  by (simp_all add: durable_def st_add_node_def st_add_event_def)

lemma durable_flush: "st_flush s = Some t \<Longrightarrow> durable t = durable s"
  by (simp add: durable_def st_flush_SomeD(5,6))

lemma st_flush_add_event:
  assumes "st_flush (st_add_event e s) = Some t"
  shows "durable t = durable s" and "tx_nodes t = foldl write_node (tx_nodes s) (new_nodes s)"
    and "tx_events t = write_event (foldl write_event (tx_events s) (new_events s)) e"
    and "new_nodes t = []" and "new_events t = []"
  using st_flush_SomeD [OF assms] durable_flush [OF assms] by (simp_all add: st_add_event_def durable_def)

lemma st_flush_add_node:
  assumes "st_flush (st_add_node n s) = Some t"
  shows "durable t = durable s" and "tx_nodes t = write_node (foldl write_node (tx_nodes s) (new_nodes s)) n"
    and "tx_events t = foldl write_event (tx_events s) (new_events s)"
    and "new_nodes t = []" and "new_events t = []"
  using st_flush_SomeD [OF assms] durable_flush [OF assms] by (simp_all add: st_add_node_def durable_def)

section \<open>The session's interface\<close>

text \<open>
  One field per call of the code on the session:
  \<open>AsyncSessionFactory()\<close>, \<open>execute(select(Node).where(Node.node_id == x)).scalar_one_or_none()\<close>,
  \<open>execute(select(Node).order_by(Node.node_id))\<close>, \<open>execute(select(Node))\<close>, the audit statement,
  \<open>add\<close> of a node and of an event, \<open>flush\<close>, \<open>commit\<close>, \<open>rollback\<close>, \<open>refresh(node)\<close>, the
  attributes of an event object after a flush, \<open>close\<close>.
\<close>

record 's orm =
  orm_open :: "'s \<Rightarrow> 's"
  orm_node_by_id :: "string \<Rightarrow> 's \<Rightarrow> node option res"
  orm_nodes_ordered :: "'s \<Rightarrow> node list res"
  orm_nodes :: "'s \<Rightarrow> node list res"
  orm_events :: "audit_query \<Rightarrow> 's \<Rightarrow> audit_event list res"
  orm_add_node :: "node \<Rightarrow> 's \<Rightarrow> 's"
  orm_add_event :: "audit_event \<Rightarrow> 's \<Rightarrow> 's"
  orm_flush :: "'s \<Rightarrow> unit res \<times> 's"
  orm_commit :: "'s \<Rightarrow> unit res \<times> 's"
  orm_rollback :: "'s \<Rightarrow> unit res \<times> 's"
  orm_refresh :: "node \<Rightarrow> 's \<Rightarrow> node res"
  orm_event :: "audit_event \<Rightarrow> 's \<Rightarrow> audit_event"
  orm_close :: "'s \<Rightarrow> 's"

locale orm_session =
  fixes S :: "'s orm" and abs :: "'s \<Rightarrow> store"
  assumes open_law: "abs (orm_open S s) = st_rollback (abs s)"
    and node_by_id_law: "orm_node_by_id S x s = Ok r \<Longrightarrow>
      filter (\<lambda>n. node_id n = x) (tx_nodes (abs s)) = (case r of None \<Rightarrow> [] | Some n \<Rightarrow> [n])"
    and nodes_ordered_law: "orm_nodes_ordered S s = Ok ns \<Longrightarrow>
      mset ns = mset (tx_nodes (abs s)) \<and> sorted (map node_id ns)"
    and nodes_law: "orm_nodes S s = Ok ns \<Longrightarrow> mset ns = mset (tx_nodes (abs s))"
    and events_law: "orm_events S q s = Ok es \<Longrightarrow>
      (\<exists>all. mset all = mset (filter (query_matches q) (tx_events (abs s))) \<and>
         sorted_desc_by event_time all \<and> es = take (q_limit q) (drop (q_offset q) all))"
    and add_node_law: "abs (orm_add_node S n s) = st_add_node n (abs s)"
    and add_event_law: "abs (orm_add_event S e s) = st_add_event e (abs s)"
    and flush_law: "orm_flush S s = (Ok u, s') \<Longrightarrow> st_flush (abs s) = Some (abs s')"
    and flush_fails: "orm_flush S s = (Raise ex, s') \<Longrightarrow> durable (abs s') = durable (abs s)"
    and commit_law: "orm_commit S s = (Ok u, s') \<Longrightarrow> st_commit (abs s) = Some (abs s')"
    and commit_fails: "orm_commit S s = (Raise ex, s') \<Longrightarrow> durable (abs s') = durable (abs s)"
    and rollback_law: "orm_rollback S s = (out, s') \<Longrightarrow> durable (abs s') = durable (abs s)"
    and refresh_law: "orm_refresh S n s = Ok m \<Longrightarrow>
      m \<in> set (tx_nodes (abs s)) \<and> node_id m = node_id n"
    and event_law: "orm_flush S s = (Ok u, s') \<Longrightarrow> new_events (abs s) = es @ [e] \<Longrightarrow>
      orm_event S e s' = last (tx_events (abs s'))"
    and close_law: "durable (abs (orm_close S s)) = durable (abs s)"

text \<open>A database in order: nothing raises but a write that would break the unique index.\<close>

locale orm_live = orm_session +
  assumes node_by_id_live: "distinct (map node_id (tx_nodes (abs s))) \<Longrightarrow>
      is_ok (orm_node_by_id S x s)"
    and nodes_ordered_live: "is_ok (orm_nodes_ordered S s)"
    and nodes_live: "is_ok (orm_nodes S s)"
    and events_live: "is_ok (orm_events S q s)"
    and flush_live: "flushable (abs s) \<Longrightarrow> is_ok (fst (orm_flush S s))"
    and commit_live: "flushable (abs s) \<Longrightarrow> is_ok (fst (orm_commit S s))"
    and rollback_live: "is_ok (fst (orm_rollback S s))"
    and refresh_live: "node_id n \<in> node_id ` set (tx_nodes (abs s)) \<Longrightarrow> is_ok (orm_refresh S n s)"

section \<open>An in-memory session\<close>

definition mem_by_id :: "string \<Rightarrow> store \<Rightarrow> node option res" where
  "mem_by_id x s =
     (case filter (\<lambda>n. node_id n = x) (tx_nodes s) of
        [] \<Rightarrow> Ok None
      | [n] \<Rightarrow> Ok (Some n)
      | _ \<Rightarrow> Raise (DatabaseError ''Multiple rows were found when one or none was required''))"

definition mem_write :: "(store \<Rightarrow> store option) \<Rightarrow> store \<Rightarrow> unit res \<times> store" where
  "mem_write f s = (case f s of None \<Rightarrow> (Raise IntegrityError, s) | Some t \<Rightarrow> (Ok (), t))"

definition mem_refresh :: "node \<Rightarrow> store \<Rightarrow> node res" where
  "mem_refresh n s =
     (case find (\<lambda>m. node_id m = node_id n) (tx_nodes s) of
        None \<Rightarrow> Raise (DatabaseError ''Could not refresh instance'')
      | Some m \<Rightarrow> Ok m)"

definition mem_events :: "audit_query \<Rightarrow> store \<Rightarrow> audit_event list" where
  "mem_events q s =
     take (q_limit q) (drop (q_offset q)
       (rev (sort_key event_time (filter (query_matches q) (tx_events s)))))"

definition mem_orm :: "store orm" where
  "mem_orm =
     \<lparr>orm_open = st_rollback, orm_node_by_id = mem_by_id,
      orm_nodes_ordered = (\<lambda>s. Ok (sort_key node_id (tx_nodes s))),
      orm_nodes = (\<lambda>s. Ok (tx_nodes s)),
      orm_events = (\<lambda>q s. Ok (mem_events q s)),
      orm_add_node = st_add_node, orm_add_event = st_add_event,
      orm_flush = mem_write st_flush, orm_commit = mem_write st_commit,
      orm_rollback = (\<lambda>s. (Ok (), st_rollback s)),
      orm_refresh = mem_refresh, orm_event = (\<lambda>e s. last (tx_events s)),
      orm_close = st_rollback\<rparr>"

lemma durable_rollback [simp]: "durable (st_rollback s) = durable s"
  by (simp add: durable_def st_rollback_def)

lemma mem_by_id_Ok:
  "mem_by_id x s = Ok r \<Longrightarrow>
     filter (\<lambda>n. node_id n = x) (tx_nodes s) = (case r of None \<Rightarrow> [] | Some n \<Rightarrow> [n])"
  by (auto simp: mem_by_id_def split: list.splits)

lemma mem_events_law:
  "\<exists>all. mset all = mset (filter (query_matches q) (tx_events s)) \<and>
     sorted_desc_by event_time all \<and> mem_events q s = take (q_limit q) (drop (q_offset q) all)"
  by (rule exI [of _ "rev (sort_key event_time (filter (query_matches q) (tx_events s)))"])
     (simp add: mem_events_def sorted_desc_by_rev_sort)

lemma mem_refresh_Ok:
  "mem_refresh n s = Ok m \<Longrightarrow> m \<in> set (tx_nodes s) \<and> node_id m = node_id n"
  by (auto simp: mem_refresh_def dest: find_SomeD split: option.splits)

lemma distinct_filter_key:
  "distinct (map f xs) \<Longrightarrow> filter (\<lambda>y. f y = k) xs = (case find (\<lambda>y. f y = k) xs of None \<Rightarrow> [] | Some y \<Rightarrow> [y])"
proof (induction xs)
  case (Cons a xs)
  then have "f y \<noteq> f a" if "y \<in> set xs" for y
    using that by (auto simp: image_def)
  then have "filter (\<lambda>y. f y = f a) xs = []"
    by (simp add: filter_empty_conv)
  with Cons show ?case by auto
qed simp

lemma mem_by_id_live:
  "distinct (map node_id (tx_nodes s)) \<Longrightarrow> is_ok (mem_by_id x s)"
  by (simp add: mem_by_id_def distinct_filter_key split: option.splits)

interpretation mem: orm_live mem_orm "\<lambda>s. s"
proof (unfold_locales, goal_cases)
  case (2 x s r) then show ?case by (simp add: mem_orm_def mem_by_id_Ok)
next
  case (5 q s es) then show ?case using mem_events_law [of q s] by (simp add: mem_orm_def)
next
  case (13 n s m) then show ?case by (auto simp: mem_orm_def dest: mem_refresh_Ok)
next
  case (16 s x) then show ?case by (simp add: mem_orm_def mem_by_id_live)
next
  case (23 n s) then show ?case
    using find_None_iff [of "\<lambda>m. node_id m = node_id n" "tx_nodes s"]
    by (auto simp: mem_orm_def mem_refresh_def split: option.splits)
qed (auto simp: mem_orm_def mem_write_def st_commit_def st_flush_def split: option.splits if_splits)

section \<open>An in-memory session whose writes fail by plan\<close>

text \<open>The plan says for each flush and commit in turn whether it fails.\<close>

definition flaky_write :: "(store \<Rightarrow> store option) \<Rightarrow> bool list \<times> store \<Rightarrow> unit res \<times> (bool list \<times> store)" where
  "flaky_write f ps =
     (case ps of
        (True # p, s) \<Rightarrow> (Raise (DatabaseError ''database is locked''), (p, s))
      | (p, s) \<Rightarrow> (case mem_write f s of (r, t) \<Rightarrow> (r, (tl p, t))))"

definition flaky_orm :: "(bool list \<times> store) orm" where
  "flaky_orm =
     \<lparr>orm_open = map_prod id st_rollback, orm_node_by_id = (\<lambda>x (_, s). mem_by_id x s),
      orm_nodes_ordered = (\<lambda>(_, s). Ok (sort_key node_id (tx_nodes s))),
      orm_nodes = (\<lambda>(_, s). Ok (tx_nodes s)),
      orm_events = (\<lambda>q (_, s). Ok (mem_events q s)),
      orm_add_node = (\<lambda>n. map_prod id (st_add_node n)),
      orm_add_event = (\<lambda>e. map_prod id (st_add_event e)),
      orm_flush = flaky_write st_flush, orm_commit = flaky_write st_commit,
      orm_rollback = (\<lambda>(p, s). (Ok (), (p, st_rollback s))),
      orm_refresh = (\<lambda>n (_, s). mem_refresh n s), orm_event = (\<lambda>e (_, s). last (tx_events s)),
      orm_close = map_prod id st_rollback\<rparr>"

lemma flaky_write_Ok:
  "flaky_write f ps = (Ok u, ps') \<Longrightarrow> f (snd ps) = Some (snd ps')"
  by (auto simp: flaky_write_def mem_write_def split: prod.splits list.splits bool.splits option.splits)

lemma flaky_write_Raise:
  "flaky_write f ps = (Raise x, ps') \<Longrightarrow> snd ps' = snd ps"
  by (auto simp: flaky_write_def mem_write_def split: prod.splits list.splits bool.splits option.splits)

interpretation flaky: orm_session flaky_orm snd
proof (unfold_locales, goal_cases)
  case (2 x s r) then show ?case by (cases s) (simp add: flaky_orm_def mem_by_id_Ok)
next
  case (5 q s es) then show ?case
    using mem_events_law [of q "snd s"] by (cases s) (simp add: flaky_orm_def)
next
  case (13 n s m) then show ?case by (cases s) (auto simp: flaky_orm_def dest: mem_refresh_Ok)
next
  case (12 s out s') then show ?case by (cases s) (auto simp: flaky_orm_def)
qed (auto simp: flaky_orm_def dest: flaky_write_Ok flaky_write_Raise)

end
