(* ===== verification/Runtime.thy ===== *)
theory Runtime
  imports Store
begin

text \<open>
  The state a controller process works on: the database session, the revoked-serial cache of
  \<open>app/core/revocation.py\<close>, the trace of log lines and metric writes, and the clock, whose readings
  are numbered. Actions on the session lift the operations of the record \<open>orm\<close>.
\<close>

record 's world =
  sess :: 's
  revoked_serials :: "int set"
  trace :: "effect list"
  clock :: "nat \<Rightarrow> int"
  reads :: nat

definition emit :: "effect \<Rightarrow> ('s world, unit) act" where
  "emit e w = (Ok (), w\<lparr>trace := trace w @ [e]\<rparr>)"

text \<open>\<open>datetime.now(timezone.utc)\<close>, in microseconds.\<close>

definition now :: "('s world, int) act" where
  "now w = (Ok (clock w (reads w)), w\<lparr>reads := Suc (reads w)\<rparr>)"

text \<open>A read of the session, a call that only changes it, and a call that may fail.\<close>

definition db_read :: "('s \<Rightarrow> 'a res) \<Rightarrow> ('s world, 'a) act" where
  "db_read f w = (f (sess w), w)"

definition db_do :: "('s \<Rightarrow> 's) \<Rightarrow> ('s world, unit) act" where
  "db_do f w = (Ok (), w\<lparr>sess := f (sess w)\<rparr>)"

definition db_run :: "('s \<Rightarrow> unit res \<times> 's) \<Rightarrow> ('s world, unit) act" where
  "db_run f w = (case f (sess w) of (r, s) \<Rightarrow> (r, w\<lparr>sess := s\<rparr>))"

lemma emit_eq [act_simps]: "emit e w = (Ok (), w\<lparr>trace := trace w @ [e]\<rparr>)"
  by (simp add: emit_def)

lemma now_eq [act_simps]: "now w = (Ok (clock w (reads w)), w\<lparr>reads := Suc (reads w)\<rparr>)"
  by (simp add: now_def)

lemma db_do_eq [act_simps]: "db_do f w = (Ok (), w\<lparr>sess := f (sess w)\<rparr>)"
  by (simp add: db_do_def)

lemma seqn_emit [act_simps]: "seqn (emit e) m w = m (w\<lparr>trace := trace w @ [e]\<rparr>)"
  by (simp add: seqn_Ok [OF emit_eq])

lemma bnd_now [act_simps]: "bnd now f w = f (clock w (reads w)) (w\<lparr>reads := Suc (reads w)\<rparr>)"
  by (simp add: bnd_Ok [OF now_eq])

lemma seqn_db_do [act_simps]: "seqn (db_do f) m w = m (w\<lparr>sess := f (sess w)\<rparr>)"
  by (simp add: seqn_Ok [OF db_do_eq])

lemma bnd_db_read [act_simps]:
  "bnd (db_read f) g w = (case f (sess w) of Ok a \<Rightarrow> g a w | Raise e \<Rightarrow> (Raise e, w))"
  by (simp add: bnd_def db_read_def split: res.splits)

lemma seqn_db_run [act_simps]:
  "seqn (db_run f) m w =
     (case f (sess w) of (Ok _, s) \<Rightarrow> m (w\<lparr>sess := s\<rparr>) | (Raise e, s) \<Rightarrow> (Raise e, w\<lparr>sess := s\<rparr>))"
  by (simp add: seqn_def bnd_def db_run_def split: prod.splits res.splits)

text \<open>Updates in one order: session, readings of the clock, trace.\<close>

lemma world_update_order [simp]:
  "w\<lparr>trace := t, sess := s\<rparr> = w\<lparr>sess := s, trace := t\<rparr>"
  "w\<lparr>reads := n, sess := s\<rparr> = w\<lparr>sess := s, reads := n\<rparr>"
  "w\<lparr>trace := t, reads := n\<rparr> = w\<lparr>reads := n, trace := t\<rparr>"
  by (cases w; simp)+

text \<open>The number of times an effect was performed.\<close>

definition times :: "effect \<Rightarrow> 's world \<Rightarrow> nat" where
  "times e w = count_list (trace w) e"

text \<open>What no handler touches: the clock and the revoked serials. The trace only grows.\<close>

definition env_kept :: "'s world \<Rightarrow> 's world \<Rightarrow> bool" where
  "env_kept w w' \<longleftrightarrow> clock w' = clock w \<and> revoked_serials w' = revoked_serials w \<and>
     prefix (trace w) (trace w')"

lemma env_kept_refl [simp]: "env_kept w w"
  by (simp add: env_kept_def)

lemma env_kept_trans [trans]: "env_kept u v \<Longrightarrow> env_kept v w \<Longrightarrow> env_kept u w"
  unfolding env_kept_def by (metis prefix_order.trans)

lemma env_kept_updates [simp]:
  "env_kept w (v\<lparr>sess := s\<rparr>) \<longleftrightarrow> env_kept w v"
  "env_kept w (v\<lparr>reads := n\<rparr>) \<longleftrightarrow> env_kept w v"
  by (simp_all add: env_kept_def)

lemma env_kept_trace: "env_kept w v \<Longrightarrow> env_kept w (v\<lparr>trace := trace v @ t\<rparr>)"
  unfolding env_kept_def by (auto intro: prefix_order.trans)

lemma env_kept_trace_self [simp]: "env_kept w (w\<lparr>trace := trace w @ t\<rparr>)"
  by (simp add: env_kept_def)

end
