(* ===== verification/Audit_Log.thy ===== *)
theory Audit_Log
  imports Runtime
begin

text \<open>
  \<open>app/core/audit.py\<close>: \<open>record_event\<close>, which writes one audit row (without committing it), one log
  line and one counter increment; and \<open>app/api/audit.py\<close>: the query of the audit table.
\<close>

section \<open>record\_event\<close>

definition AuditEvent_of :: "string \<Rightarrow> audit_action \<Rightarrow> string option \<Rightarrow> audit_result \<Rightarrow> details \<Rightarrow> int \<Rightarrow> audit_event" where
  "AuditEvent_of actor act tgt res det t =
     \<lparr>actor_cn = actor, action = act, target = tgt, result = res,
      event_pk = None, timestamp = Aware t, details = det\<rparr>"

fun py_opt_int :: "int option \<Rightarrow> pyval" where
  "py_opt_int None = PNone"
| "py_opt_int (Some i) = PInt i"

fun py_details :: "details \<Rightarrow> pyval" where
  "py_details None = PNone"
| "py_details (Some d) = PDict d"

definition audit_log_line :: "int option \<Rightarrow> string \<Rightarrow> audit_action \<Rightarrow> string option \<Rightarrow> audit_result \<Rightarrow> details \<Rightarrow> effect" where
  "audit_log_line k actor act tgt res det =
     Log ''audit'' Info ''audit_event''
       [(''event_id'', py_opt_int k), (''actor_cn'', PStr actor),
        (''action'', PStr (audit_action_value act)), (''target'', py_opt_str tgt),
        (''result'', PStr (audit_result_value res)), (''details'', py_details det)]"

definition audit_counter :: "audit_action \<Rightarrow> audit_result \<Rightarrow> effect" where
  "audit_counter act res = Audit_Events_Inc (audit_action_value act) (audit_result_value res)"

definition record_event :: "'s orm \<Rightarrow> string \<Rightarrow> audit_action \<Rightarrow> string option \<Rightarrow> audit_result \<Rightarrow> details
    \<Rightarrow> ('s world, audit_event) act" where
  "record_event S actor act tgt res det =
     bnd now (\<lambda>t.
       let event = AuditEvent_of actor act tgt res det t in
       seqn (db_do (orm_add_event S event))
      (seqn (db_run (orm_flush S))
      (bnd (db_read (\<lambda>s. Ok (orm_event S event s))) (\<lambda>event.
       seqn (emit (audit_log_line (event_pk event) actor act tgt res det))
      (seqn (emit (audit_counter act res))
      (ret event))))))"

lemma AuditEvent_of_fields [simp]:
  "actor_cn (AuditEvent_of a c t r d i) = a" "action (AuditEvent_of a c t r d i) = c"
  "target (AuditEvent_of a c t r d i) = t" "result (AuditEvent_of a c t r d i) = r"
  "details (AuditEvent_of a c t r d i) = d" "event_pk (AuditEvent_of a c t r d i) = None"
  "timestamp (AuditEvent_of a c t r d i) = Aware i"
  by (simp_all add: AuditEvent_of_def)

context orm_session begin

text \<open>
  The two ways \<open>record_event\<close> ends: the row is flushed, logged and counted, or the flush raised,
  nothing is logged and nothing committed has changed.
\<close>

lemma record_event_cases:
  assumes "record_event S a c t r d w = (out, w')"
  obtains (ok) event s where
      "out = Ok event"
      "st_flush (st_add_event (AuditEvent_of a c t r d (clock w (reads w))) (abs (sess w))) = Some (abs s)"
      "w' = w\<lparr>sess := s, reads := Suc (reads w),
             trace := trace w @ [audit_log_line (event_pk event) a c t r d, audit_counter c r]\<rparr>"
      "event_pk event = event_pk (last (tx_events (abs s)))"
  | (fail) e s where
      "out = Raise e" "durable (abs s) = durable (abs (sess w))"
      "w' = w\<lparr>sess := s, reads := Suc (reads w)\<rparr>"
proof -
  let ?e = "AuditEvent_of a c t r d (clock w (reads w))"
  let ?s = "orm_add_event S ?e (sess w)"
  obtain x s where f: "orm_flush S ?s = (x, s)" by (cases "orm_flush S ?s")
  show thesis
  proof (cases x)
    case (Ok u)
    have "st_flush (st_add_event ?e (abs (sess w))) = Some (abs s)"
      using flush_law [of ?s u s] f Ok by (simp add: add_event_law)
    moreover have "orm_event S ?e s = last (tx_events (abs s))"
      using event_law [of ?s u s "new_events (abs (sess w))" ?e] f Ok
      by (simp add: add_event_law st_add_event_def)
    ultimately show thesis
      using assms f Ok by (intro ok [of "orm_event S ?e s" s]) (auto simp: record_event_def Let_def act_simps)
  next
    case (Raise e)
    have "durable (abs s) = durable (abs ?s)"
      using flush_fails f Raise by blast
    then have "durable (abs s) = durable (abs (sess w))"
      by (simp add: add_event_law st_add_event_def durable_def)
    then show thesis
      using assms f Raise by (intro fail [of e s]) (auto simp: record_event_def Let_def act_simps)
  qed
qed

end

section \<open>An audit row that is committed at once\<close>

text \<open>
  The shape of every rejection: record, commit, raise. From a clean session either something
  raised and nothing committed has changed, or the row is durable before the rest runs.
\<close>

context orm_session begin

lemma commit_cases:
  assumes "seqn (db_run (orm_commit S)) m w = (out, w')"
  obtains (fail) e s where "out = Raise e" "durable (abs s) = durable (abs (sess w))"
      "w' = w\<lparr>sess := s\<rparr>"
  | (ok) s where "st_commit (abs (sess w)) = Some (abs s)" "m (w\<lparr>sess := s\<rparr>) = (out, w')"
proof (cases "orm_commit S (sess w)")
  case (Pair x s)
  then show thesis
    using assms commit_law [of "sess w" _ s] commit_fails [of "sess w" _ s]
    by (cases x) (auto simp: act_simps intro: ok fail)
qed

lemma record_commit_cases:
  assumes "seqn (record_event S a c t r d) (seqn (db_run (orm_commit S)) m) w = (out, w')"
    and "clean (abs (sess w))"
  obtains (fail) e where "out = Raise e" "durable (abs (sess w')) = durable (abs (sess w))"
      "env_kept w w'"
  | (ok) s k where
      "durable (abs s) = (db_nodes (abs (sess w)),
         write_event (db_events (abs (sess w))) (AuditEvent_of a c t r d (clock w (reads w))))"
      "clean (abs s)"
      "m (w\<lparr>sess := s, reads := Suc (reads w),
            trace := trace w @ [audit_log_line k a c t r d, audit_counter c r]\<rparr>) = (out, w')"
  using assms(1)
proof (cases rule: seqn_cases)
  case (raise e)
  from raise(1) show thesis
  proof (cases rule: record_event_cases)
    case (fail e' s)
    then show thesis using raise(2) that(1) by simp
  qed simp
next
  case (ok ev w0)
  let ?e = "AuditEvent_of a c t r d (clock w (reads w))"
  note rest = ok(2)
  from ok(1) show thesis
  proof (cases rule: record_event_cases)
    case (ok event s0)
    note rec = ok
    note [simp] = st_flush_add_event [OF rec(2)]
    have k0: "env_kept w w0" by (simp add: rec(3) env_kept_def)
    from rest show thesis
    proof (cases rule: commit_cases)
      case (fail e s)
      have "durable (abs s) = durable (abs (sess w))"
        using fail(2) rec(3) by simp
      with fail k0 show thesis by (intro that(1)) simp_all
    next
      case (ok s)
      have "st_commit (abs s0) = Some (abs s)" using ok(1) rec(3) by simp
      then have "durable (abs s) = (db_nodes (abs (sess w)), write_event (db_events (abs (sess w))) ?e)"
        and "clean (abs s)"
        using st_commit_SomeD(1,2) [of "abs s0" "abs s"] assms(2) by (simp_all add: clean_def)
      then show thesis
        using ok(2) rec(3) by (intro that(2) [of s "event_pk event"]) simp_all
    qed
  qed simp
qed

end

section \<open>GET /audit\<close>

record audit_params =
  p_limit :: int
  p_offset :: int
  p_actor_cn :: "string option"
  p_action :: "string option"
  p_result :: "string option"

text \<open>The defaults and the bounds of the \<open>Query\<close> declarations.\<close>

definition default_audit_params :: audit_params where
  "default_audit_params = \<lparr>p_limit = 100, p_offset = 0, p_actor_cn = None, p_action = None, p_result = None\<rparr>"

definition valid_audit_params :: "audit_params \<Rightarrow> bool" where
  "valid_audit_params p \<longleftrightarrow> 1 \<le> p_limit p \<and> p_limit p \<le> 1000 \<and> 0 \<le> p_offset p"

text \<open>\<open>if x: ...\<close> for an optional string: an empty one sets no filter.\<close>

fun truthy :: "string option \<Rightarrow> string option" where
  "truthy None = None"
| "truthy (Some s) = (if s = [] then None else Some s)"

definition audit_stmt :: "audit_params \<Rightarrow> audit_query" where
  "audit_stmt p =
     \<lparr>q_actor_cn = truthy (p_actor_cn p), q_action = truthy (p_action p), q_result = truthy (p_result p),
      q_offset = nat (p_offset p), q_limit = nat (p_limit p)\<rparr>"

definition list_audit_events :: "'s orm \<Rightarrow> audit_params \<Rightarrow> ('s world, audit_event list) act" where
  "list_audit_events S p = db_read (orm_events S (audit_stmt p))"

context orm_session begin

lemma list_audit_events_Ok:
  assumes "list_audit_events S p w = (Ok es, w')"
  obtains all where "mset all = mset (filter (query_matches (audit_stmt p)) (tx_events (abs (sess w))))"
    and "sorted_desc_by event_time all"
    and "es = take (nat (p_limit p)) (drop (nat (p_offset p)) all)"
    and "w' = w"
proof -
  have "orm_events S (audit_stmt p) (sess w) = Ok es" and w: "w' = w"
    using assms by (auto simp: list_audit_events_def db_read_def)
  from events_law [OF this(1)] obtain all
    where "mset all = mset (filter (query_matches (audit_stmt p)) (tx_events (abs (sess w))))"
      and "sorted_desc_by event_time all"
      and "es = take (q_limit (audit_stmt p)) (drop (q_offset (audit_stmt p)) all)"
    by blast
  then show thesis using w by (intro that) (simp_all add: audit_stmt_def)
qed

end

end
