(* ===== verification/Background.thy ===== *)
theory Background
  imports Runtime
begin

text \<open>
  The endless loops of the program, \<open>while True: try: ... except Exception: log; sleep\<close>. A run is
  given by what its passes met, in order; it ends before the list does when a pass raises, as the
  cancellation at shutdown does. The locale states when a loop goes on and what all its passes
  keep.
\<close>

fun every :: "('i \<Rightarrow> ('w, unit) act) \<Rightarrow> 'i list \<Rightarrow> ('w, unit) act" where
  "every pass [] = ret ()"
| "every pass (i # is) = seqn (pass i) (every pass is)"

text \<open>One pass: the body, its exceptions logged, then the sleep with its outcome.\<close>

definition guarded_pass :: "string \<Rightarrow> string \<Rightarrow> ('s world, unit) act \<Rightarrow> unit res \<Rightarrow> ('s world, unit) act" where
  "guarded_pass logger event body sleep w =
     (case body w of
        (Ok _, w') \<Rightarrow> (sleep, w')
      | (Raise e, w') \<Rightarrow>
          if is_Exception e
          then seqn (emit (Log logger Exception_Trace event [])) (\<lambda>w. (sleep, w)) w'
          else (Raise e, w'))"

lemma guarded_pass_survives:
  assumes "\<forall>e. fst (body w) = Raise e \<longrightarrow> is_Exception e"
  shows "fst (guarded_pass logger event body sleep w) = sleep"
  using assms by (auto simp: guarded_pass_def act_simps split: prod.splits res.splits)

lemma guarded_pass_state:
  obtains t where "snd (guarded_pass logger event body sleep w) = (snd (body w))\<lparr>trace := trace (snd (body w)) @ t\<rparr>"
proof (cases "body w")
  case (Pair r w')
  show thesis
  proof (cases "\<exists>e. r = Raise e \<and> is_Exception e")
    case True
    with Pair show thesis
      by (intro that [of "[Log logger Exception_Trace event []]"]) (auto simp: guarded_pass_def act_simps)
  next
    case False
    with Pair show thesis
      by (intro that [of "[]"]) (auto simp: guarded_pass_def split: res.splits)
  qed
qed

locale background_pass =
  fixes pass :: "'i \<Rightarrow> ('w, unit) act" and harmless :: "'i \<Rightarrow> bool" and kept :: "'w \<Rightarrow> 'w \<Rightarrow> bool"
  assumes kept_refl: "kept w w"
    and kept_trans: "kept u v \<Longrightarrow> kept v w \<Longrightarrow> kept u w"
    and pass_kept: "kept w (snd (pass i w))"
    and pass_survives: "harmless i \<Longrightarrow> fst (pass i w) = Ok ()"
begin

lemma every_Cons:
  "harmless i \<Longrightarrow> every pass (i # is) w = every pass is (snd (pass i w))"
  using pass_survives [of i w] by (cases "pass i w") (simp add: seqn_def bnd_def)

lemma every_kept: "kept w (snd (every pass is w))"
proof (induction "is" arbitrary: w)
  case Nil
  then show ?case by (simp add: ret_def kept_refl)
next
  case (Cons i "is")
  obtain r w1 where p: "pass i w = (r, w1)" by (cases "pass i w")
  have "kept w w1" using pass_kept [of w i] p by simp
  with p Cons.IH [of w1] show ?case
    by (cases r) (auto simp: seqn_def bnd_def intro: kept_trans)
qed

lemma every_survives: "\<forall>i \<in> set is. harmless i \<Longrightarrow> fst (every pass is w) = Ok ()"
proof (induction "is" arbitrary: w)
  case Nil
  then show ?case by (simp add: ret_def)
next
  case (Cons i "is")
  then show ?case by (simp only: every_Cons [of i] list.set_intros) auto
qed

text \<open>A loop that stopped met a pass that was not harmless.\<close>

lemma every_stopped: "fst (every pass is w) \<noteq> Ok () \<Longrightarrow> \<exists>i \<in> set is. \<not> harmless i"
  using every_survives by blast

end

end
