(* ===== verification/Controller_Config.thy ===== *)
theory Controller_Config
  imports Models
begin

text \<open>
  \<open>app/core/config.py\<close>: the controller's settings and their defaults. The environment and the
  \<open>.env\<close> file, which \<open>pydantic_settings\<close> reads, may replace any of them: operations take the
  settings as an argument.
\<close>

record controller_settings =
  service_name :: string
  service_version :: string
  environment :: string
  database_url :: string
  database_echo :: bool
  host :: string
  port :: int
  trusted_proxy_header_verify :: string
  trusted_proxy_header_dn :: string
  allow_unauthenticated :: bool
  crl_url :: string
  ca_trust_file :: string
  crl_refresh_seconds :: int

definition default_settings :: controller_settings where
  "default_settings =
     \<lparr>service_name = ''thesis-controller'', service_version = ''0.1.0'', environment = ''lab'',
      database_url = ''sqlite+aiosqlite:///data/thesis.db'', database_echo = False,
      host = ''0.0.0.0'', port = 8000,
      trusted_proxy_header_verify = ''x-client-verify'', trusted_proxy_header_dn = ''x-client-dn'',
      allow_unauthenticated = False,
      crl_url = ''https://ca.thesis.local:9000/crl'', ca_trust_file = ''/etc/thesis-certs/ca-trust.crt'',
      crl_refresh_seconds = 60\<rparr>"

end
