(* ===== verification/Revocation.thy ===== *)
theory Revocation
  imports Background Controller_Config
begin

text \<open>
  \<open>app/core/revocation.py\<close>: the cache of revoked serials and the loop that refreshes it from the
  CA's revocation list. The HTTP client and the parser of the list are parameters: what they
  returned or raised is an argument. An iteration of the endless loop is an action; a run is given
  by the list of what its iterations met, up to the cancellation that ends it.
\<close>

definition is_revoked :: "'s world \<Rightarrow> int \<Rightarrow> bool" where
  "is_revoked w serial \<longleftrightarrow> serial \<in> revoked_serials w"

text \<open>
  \<open>get\<close> is the outcome of \<open>client.get(settings.crl_url)\<close>, \<open>raise_for_status\<close> the client's check of
  a response, \<open>load_crl\<close> the parser, which yields the entries' serial numbers.
\<close>

definition fetch_revoked_serials :: "'r res \<Rightarrow> ('r \<Rightarrow> unit res) \<Rightarrow> ('r \<Rightarrow> int list res) \<Rightarrow> int set res" where
  "fetch_revoked_serials get raise_for_status load_crl =
     (case get of
        Raise e \<Rightarrow> Raise e
      | Ok resp \<Rightarrow>
          (case raise_for_status resp of
             Raise e \<Rightarrow> Raise e
           | Ok _ \<Rightarrow> (case load_crl resp of Raise e \<Rightarrow> Raise e | Ok ss \<Rightarrow> Ok (set ss))))"

definition crl_interval :: "controller_settings \<Rightarrow> int option \<Rightarrow> int" where
  "crl_interval cfg interval_seconds =
     (case interval_seconds of
        None \<Rightarrow> crl_refresh_seconds cfg
      | Some i \<Rightarrow> if i = 0 then crl_refresh_seconds cfg else i)"

text \<open>The body of the \<open>try\<close>: compare, log a change, store.\<close>

definition crl_store :: "int set \<Rightarrow> ('s world, unit) act" where
  "crl_store serials w =
     (Ok (), (if serials \<noteq> revoked_serials w
              then w\<lparr>trace := trace w @ [Log ''revocation'' Info ''crl_updated''
                                         [(''revoked_count'', PInt (int (card serials)))]]\<rparr>
              else w)\<lparr>revoked_serials := serials\<rparr>)"

text \<open>One pass of the loop: the fetch, and after it the sleep, either of which may be cancelled.\<close>

definition crl_iteration :: "int set res \<times> unit res \<Rightarrow> ('s world, unit) act" where
  "crl_iteration inp =
     guarded_pass ''revocation'' ''crl_refresh_failed''
       (bnd (\<lambda>w. (fst inp, w)) crl_store) (snd inp)"

definition crl_loop :: "(int set res \<times> unit res) list \<Rightarrow> ('s world, unit) act" where
  "crl_loop = every crl_iteration"

definition periodic_crl_refresh :: "controller_settings \<Rightarrow> int option \<Rightarrow> (int set res \<times> unit res) list
    \<Rightarrow> ('s world, unit) act" where
  "periodic_crl_refresh cfg interval_seconds inps =
     seqn (emit (Log ''revocation'' Info ''crl_refresh_started''
                  [(''url'', PStr (crl_url cfg)), (''interval'', PInt (crl_interval cfg interval_seconds))]))
          (crl_loop inps)"

section \<open>The cache is the last list that was fetched\<close>

fun last_fetched :: "int set \<Rightarrow> int set res list \<Rightarrow> int set" where
  "last_fetched c [] = c"
| "last_fetched c (Ok s # fs) = last_fetched s fs"
| "last_fetched c (Raise _ # fs) = last_fetched c fs"

lemma last_fetched_Cons: "last_fetched c (f # fs) = last_fetched (last_fetched c [f]) fs"
  by (cases f) simp_all

lemma crl_iteration_frame:
  "sess (snd (crl_iteration i w)) = sess w" "clock (snd (crl_iteration i w)) = clock w"
  "reads (snd (crl_iteration i w)) = reads w"
  "revoked_serials (snd (crl_iteration i w)) = last_fetched (revoked_serials w) [fst i]"
  "prefix (trace w) (trace (snd (crl_iteration i w)))"
  by (cases "fst i"; simp add: crl_iteration_def guarded_pass_def crl_store_def act_simps bnd_def)+

text \<open>What a pass meets is an answer or an ordinary exception, and its sleep is not cancelled.\<close>

definition crl_harmless :: "int set res \<times> unit res \<Rightarrow> bool" where
  "crl_harmless i \<longleftrightarrow> (case fst i of Ok _ \<Rightarrow> True | Raise e \<Rightarrow> is_Exception e) \<and> snd i = Ok ()"

definition crl_kept :: "'s world \<Rightarrow> 's world \<Rightarrow> bool" where
  "crl_kept w w' \<longleftrightarrow> sess w' = sess w \<and> clock w' = clock w \<and> reads w' = reads w \<and> prefix (trace w) (trace w')"

interpretation crl: background_pass crl_iteration crl_harmless crl_kept
proof unfold_locales
  show "fst (crl_iteration i w) = Ok ()" if "crl_harmless i" for i :: "int set res \<times> unit res" and w :: "'a world"
    using that unfolding crl_iteration_def
    by (subst guarded_pass_survives) (auto simp: crl_harmless_def bnd_def crl_store_def split: res.splits)
  show "crl_kept w (snd (crl_iteration i w))" for i :: "int set res \<times> unit res" and w :: "'a world"
    by (simp add: crl_kept_def crl_iteration_frame)
qed (auto simp: crl_kept_def intro: prefix_order.trans)

text \<open>Without cancellation the loop never stops, whatever the fetches raise.\<close>

lemma crl_loop_total:
  assumes "\<forall>i \<in> set is. crl_harmless i"
  shows "fst (crl_loop is w) = Ok ()"
    and "revoked_serials (snd (crl_loop is w)) = last_fetched (revoked_serials w) (map fst is)"
proof -
  show "fst (crl_loop is w) = Ok ()"
    unfolding crl_loop_def by (rule crl.every_survives [OF assms])
  show "revoked_serials (snd (crl_loop is w)) = last_fetched (revoked_serials w) (map fst is)"
    using assms unfolding crl_loop_def
  proof (induction "is" arbitrary: w)
    case Nil
    then show ?case by (simp add: ret_def)
  next
    case (Cons i "is")
    have "last_fetched c (map fst (i # is)) = last_fetched (last_fetched c [fst i]) (map fst is)" for c
      unfolding list.map by (rule last_fetched_Cons)
    with Cons show ?case by (simp del: every.simps add: crl.every_Cons crl_iteration_frame(4))
  qed
qed

end
