(* ===== verification/Security.thy ===== *)
theory Security
  imports Audit_Log Revocation
begin

text \<open>
  \<open>app/core/security.py\<close>: from the headers nginx sets to a verified identity, and the check of its
  certificate against the revoked serials. A header that is absent is \<open>None\<close>.
\<close>

section \<open>The identity\<close>

record mtls_identity =
  id_common_name :: string
  full_dn :: string
  verified :: bool
  serial :: "int option"

definition is_controller :: "mtls_identity \<Rightarrow> bool" where
  "is_controller i \<longleftrightarrow> prefix ''controller.'' (id_common_name i)"

definition is_node :: "mtls_identity \<Rightarrow> bool" where
  "is_node i \<longleftrightarrow> prefix ''pi-'' (id_common_name i)"

definition identity_node_id :: "mtls_identity \<Rightarrow> string option" where
  "identity_node_id i =
     (if \<not> is_node i then None else Some (hd (py_split (CHR ''.'') (id_common_name i))))"

section \<open>The regular expression CN=([^,/]+)\<close>

definition cn_char :: "char \<Rightarrow> bool" where
  "cn_char c \<longleftrightarrow> c \<noteq> CHR '','' \<and> c \<noteq> CHR ''/''"

text \<open>The group of a match at the head of the string.\<close>

definition cn_match :: "string \<Rightarrow> string option" where
  "cn_match s =
     (let v = takeWhile cn_char (drop 3 s) in
      if prefix ''CN='' s \<and> v \<noteq> [] then Some v else None)"

text \<open>\<open>search\<close>: the group of the leftmost match.\<close>

fun cn_search :: "string \<Rightarrow> string option" where
  "cn_search [] = None"
| "cn_search (c # cs) = (case cn_match (c # cs) of Some v \<Rightarrow> Some v | None \<Rightarrow> cn_search cs)"

section \<open>\_parse\_serial, get\_mtls\_identity\<close>

text \<open>The dash of the 401 detail is outside the characters of \<^typ>\<open>string\<close> and written as a hyphen.\<close>

definition parse_serial :: "string option \<Rightarrow> ('s world, int option) act" where
  "parse_serial raw =
     (case truthy raw of
        None \<Rightarrow> ret None
      | Some r \<Rightarrow>
          (case py_int16 r of
             Some n \<Rightarrow> ret (Some n)
           | None \<Rightarrow> seqn (emit (Log ''security'' Warning ''mtls_serial_parse_failed'' [(''raw'', PStr r)]))
                          (ret None)))"

record headers =
  x_client_verify :: "string option"
  x_client_dn :: "string option"
  x_client_serial :: "string option"

definition get_mtls_identity :: "controller_settings \<Rightarrow> headers \<Rightarrow> ('s world, mtls_identity) act" where
  "get_mtls_identity cfg h =
     (if allow_unauthenticated cfg \<and> truthy (x_client_verify h) = None
      then seqn (emit (Log ''security'' Warning ''unauthenticated_request_allowed'' [(''reason'', PStr ''dev_mode'')]))
                (ret \<lparr>id_common_name = ''dev-bypass'', full_dn = '''', verified = False, serial = None\<rparr>)
      else
        case (x_client_verify h, x_client_dn h) of
          (Some v, Some dn) \<Rightarrow>
            if v \<noteq> ''SUCCESS''
            then seqn (emit (Mtls_Auth_Inc ''verify_failed''))
                (seqn (emit (Log ''security'' Warning ''mtls_verify_failed'' [(''verify_status'', PStr v), (''dn'', PStr dn)]))
                      (throw (HTTPException 403 (''Client certificate verification failed: '' @ v))))
            else
              (case cn_search dn of
                 None \<Rightarrow>
                   seqn (emit (Mtls_Auth_Inc ''cn_parse_failed''))
                  (seqn (emit (Log ''security'' Error ''mtls_cn_parse_failed'' [(''dn'', PStr dn)]))
                        (throw (HTTPException 400 ''Could not extract CN from client DN'')))
               | Some g \<Rightarrow>
                   seqn (emit (Mtls_Auth_Inc ''success''))
                  (bnd (parse_serial (x_client_serial h)) (\<lambda>n.
                   ret \<lparr>id_common_name = py_strip g, full_dn = dn, verified = True, serial = n\<rparr>)))
        | _ \<Rightarrow>
            seqn (emit (Mtls_Auth_Inc ''missing_headers''))
           (seqn (emit (Log ''security'' Warning ''mtls_headers_missing''
                         [(''has_verify'', PBool (x_client_verify h \<noteq> None)), (''has_dn'', PBool (x_client_dn h \<noteq> None))]))
                 (throw (HTTPException 401
                    ''mTLS identity headers missing - request did not pass through Nginx mTLS proxy''))))"

section \<open>require\_live\_identity\<close>

definition require_live_identity :: "'s orm \<Rightarrow> mtls_identity \<Rightarrow> ('s world, mtls_identity) act" where
  "require_live_identity S i = (\<lambda>w.
     case serial i of
       None \<Rightarrow> ret i w
     | Some n \<Rightarrow>
         if is_revoked w n
         then seqn (emit (Mtls_Auth_Inc ''revoked''))
             (seqn (record_event S (id_common_name i) AUTH_FAILURE (Some (''cert:'' @ py_hex n)) REJECTED
                      (Some [(''reason'', PStr ''certificate revoked''), (''serial'', PStr (py_hex n))]))
             (seqn (db_run (orm_commit S))
             (seqn (emit (Log ''security'' Warning ''mtls_cert_revoked''
                           [(''cn'', PStr (id_common_name i)), (''serial'', PStr (py_hex n))]))
                   (throw (HTTPException 403 ''Client certificate has been revoked''))))) w
         else ret i w)"

section \<open>What the expression finds\<close>

text \<open>
  A match at a position: \<open>CN=\<close>, then a non-empty run of characters other than comma and slash
  that cannot be longer. The search returns the leftmost one.
\<close>

definition cn_at :: "string \<Rightarrow> string \<Rightarrow> bool" where
  "cn_at s v \<longleftrightarrow> (\<exists>rest. s = ''CN='' @ v @ rest \<and> v \<noteq> [] \<and> list_all cn_char v \<and>
     (rest = [] \<or> \<not> cn_char (hd rest)))"

lemma takeWhile_eq_iff:
  "takeWhile P s = v \<longleftrightarrow> (\<exists>rest. s = v @ rest \<and> list_all P v \<and> (rest = [] \<or> \<not> P (hd rest)))"
proof
  assume "takeWhile P s = v"
  then have "s = v @ dropWhile P s" "list_all P v"
    by (auto simp: list_all_iff dest: set_takeWhileD)
  then show "\<exists>rest. s = v @ rest \<and> list_all P v \<and> (rest = [] \<or> \<not> P (hd rest))"
    using hd_dropWhile [of P s] by blast
next
  assume "\<exists>rest. s = v @ rest \<and> list_all P v \<and> (rest = [] \<or> \<not> P (hd rest))"
  then obtain rest where "s = v @ rest" "list_all P v" "rest = [] \<or> \<not> P (hd rest)" by blast
  then show "takeWhile P s = v" by (cases rest) (auto simp: list_all_iff takeWhile_append2)
qed

lemma cn_match_Some_iff: "cn_match s = Some v \<longleftrightarrow> cn_at s v"
proof
  assume "cn_match s = Some v"
  then have p: "prefix ''CN='' s" and v: "takeWhile cn_char (drop 3 s) = v" "v \<noteq> []"
    by (auto simp: cn_match_def Let_def split: if_splits)
  then have "s = ''CN='' @ drop 3 s" by (auto simp: prefix_def)
  with v takeWhile_eq_iff [of cn_char "drop 3 s" v] show "cn_at s v"
    unfolding cn_at_def by metis
next
  assume "cn_at s v"
  then obtain rest where s: "s = ''CN='' @ v @ rest" and v: "v \<noteq> []" "list_all cn_char v"
    "rest = [] \<or> \<not> cn_char (hd rest)"
    unfolding cn_at_def by blast
  have "takeWhile cn_char (v @ rest) = v"
    using v takeWhile_eq_iff [of cn_char "v @ rest" v] by blast
  with s v(1) show "cn_match s = Some v" by (simp add: cn_match_def)
qed

lemma cn_search_None_iff: "cn_search s = None \<longleftrightarrow> (\<forall>pre t v. s = pre @ t \<longrightarrow> \<not> cn_at t v)"
proof (induction s)
  case Nil
  then show ?case by (simp add: cn_at_def)
next
  case (Cons c cs)
  show ?case
  proof (cases "cn_match (c # cs)")
    case None
    then have "\<not> cn_at (c # cs) v" for v
      using cn_match_Some_iff [of "c # cs" v] by simp
    with None Cons show ?thesis by (auto simp: Cons_eq_append_conv)
  next
    case (Some v)
    then have "cn_at (c # cs) v" by (simp add: cn_match_Some_iff)
    with Some show ?thesis by (metis append_Nil cn_search.simps(2) option.simps(3,5))
  qed
qed

lemma cn_search_Some_iff:
  "cn_search s = Some v \<longleftrightarrow>
     (\<exists>pre t. s = pre @ t \<and> cn_at t v \<and>
        (\<forall>p q u. pre = p @ q \<and> q \<noteq> [] \<longrightarrow> \<not> cn_at (q @ t) u))"
proof (induction s)
  case Nil
  then show ?case by (simp add: cn_at_def)
next
  case (Cons c cs)
  show ?case
  proof (cases "cn_match (c # cs)")
    case (Some u)
    then have u: "cn_at (c # cs) u" by (simp add: cn_match_Some_iff)
    have uniq: "u' = u" if "cn_at (c # cs) u'" for u'
      using that Some by (simp add: cn_match_Some_iff [symmetric])
    have "(\<exists>pre t. c # cs = pre @ t \<and> cn_at t v \<and> (\<forall>p q x. pre = p @ q \<and> q \<noteq> [] \<longrightarrow> \<not> cn_at (q @ t) x))
      \<longleftrightarrow> v = u"
      using u uniq by (metis append_Nil append_is_Nil_conv)
    with Some show ?thesis by auto
  next
    case None
    then have no: "\<not> cn_at (c # cs) u" for u
      using cn_match_Some_iff [of "c # cs" u] by simp
    have "(\<exists>pre t. c # cs = pre @ t \<and> cn_at t v \<and> (\<forall>p q x. pre = p @ q \<and> q \<noteq> [] \<longrightarrow> \<not> cn_at (q @ t) x)) \<longleftrightarrow>
      (\<exists>pre t. cs = pre @ t \<and> cn_at t v \<and> (\<forall>p q x. pre = p @ q \<and> q \<noteq> [] \<longrightarrow> \<not> cn_at (q @ t) x))"
      (is "?L \<longleftrightarrow> ?R")
    proof
      assume ?L
      then obtain pre t where L: "c # cs = pre @ t" "cn_at t v"
        "\<forall>p q x. pre = p @ q \<and> q \<noteq> [] \<longrightarrow> \<not> cn_at (q @ t) x" by blast
      with no obtain pre' where "pre = c # pre'" by (cases pre) auto
      with L show ?R by (metis append_Cons list.inject)
    next
      assume ?R
      then obtain pre t where R: "cs = pre @ t" "cn_at t v"
        "\<forall>p q x. pre = p @ q \<and> q \<noteq> [] \<longrightarrow> \<not> cn_at (q @ t) x" by blast
      have "\<forall>p q x. c # pre = p @ q \<and> q \<noteq> [] \<longrightarrow> \<not> cn_at (q @ t) x"
        using R no by (auto simp: Cons_eq_append_conv)
      with R show ?L by (metis append_Cons)
    qed
    with None Cons show ?thesis by simp
  qed
qed

section \<open>The identity as a function of the headers\<close>

definition parsed_serial :: "string option \<Rightarrow> int option" where
  "parsed_serial raw = (case truthy raw of None \<Rightarrow> None | Some r \<Rightarrow> py_int16 r)"

definition identity_of :: "headers \<Rightarrow> mtls_identity option" where
  "identity_of h =
     (case (x_client_verify h, x_client_dn h) of
        (Some v, Some dn) \<Rightarrow>
          if v = ''SUCCESS''
          then map_option (\<lambda>g. \<lparr>id_common_name = py_strip g, full_dn = dn, verified = True,
                               serial = parsed_serial (x_client_serial h)\<rparr>) (cn_search dn)
          else None
      | _ \<Rightarrow> None)"

lemma parse_serial_eq:
  "\<exists>t. parse_serial raw w = (Ok (parsed_serial raw), w\<lparr>trace := trace w @ t\<rparr>) \<and>
    (\<forall>x. Mtls_Auth_Inc x \<notin> set t)"
proof (cases "truthy raw")
  case None
  then show ?thesis
    by (intro exI [of _ "[]"]) (simp add: parse_serial_def parsed_serial_def act_simps)
next
  case (Some r)
  show ?thesis
  proof (cases "py_int16 r")
    case None
    with Some show ?thesis by (auto simp: parse_serial_def parsed_serial_def act_simps)
  next
    case (Some n)
    with \<open>truthy raw = Some r\<close> show ?thesis
      by (intro exI [of _ "[]"]) (simp add: parse_serial_def parsed_serial_def act_simps)
  qed
qed

text \<open>The counter label and the exception of a refused request.\<close>

definition auth_refusal :: "headers \<Rightarrow> string \<times> exn" where
  "auth_refusal h =
     (case (x_client_verify h, x_client_dn h) of
        (Some v, Some dn) \<Rightarrow>
          if v \<noteq> ''SUCCESS''
          then (''verify_failed'', HTTPException 403 (''Client certificate verification failed: '' @ v))
          else (''cn_parse_failed'', HTTPException 400 ''Could not extract CN from client DN'')
      | _ \<Rightarrow> (''missing_headers'', HTTPException 401
                ''mTLS identity headers missing - request did not pass through Nginx mTLS proxy''))"

lemma get_mtls_identity_Some:
  assumes "identity_of h = Some i" and "\<not> allow_unauthenticated cfg \<or> truthy (x_client_verify h) \<noteq> None"
  shows "\<exists>t. get_mtls_identity cfg h w = (Ok i, w\<lparr>trace := trace w @ Mtls_Auth_Inc ''success'' # t\<rparr>) \<and>
    (\<forall>x. Mtls_Auth_Inc x \<notin> set t)"
proof -
  obtain dn g where h: "x_client_verify h = Some ''SUCCESS''" "x_client_dn h = Some dn" "cn_search dn = Some g"
    and i: "i = \<lparr>id_common_name = py_strip g, full_dn = dn, verified = True, serial = parsed_serial (x_client_serial h)\<rparr>"
    using assms(1) by (auto simp: identity_of_def split: option.splits if_splits)
  let ?v = "w\<lparr>trace := trace w @ [Mtls_Auth_Inc ''success'']\<rparr>"
  obtain t where t: "parse_serial (x_client_serial h) ?v = (Ok (parsed_serial (x_client_serial h)), ?v\<lparr>trace := trace ?v @ t\<rparr>)"
    and "\<forall>x. Mtls_Auth_Inc x \<notin> set t"
    using parse_serial_eq [of "x_client_serial h" ?v] by blast
  with h i t show ?thesis
    by (intro exI [of _ t]) (simp add: get_mtls_identity_def act_simps bnd_Ok [of "parse_serial (x_client_serial h)", OF t])
qed

lemma get_mtls_identity_None:
  assumes "identity_of h = None" and "\<not> allow_unauthenticated cfg \<or> truthy (x_client_verify h) \<noteq> None"
  shows "\<exists>t. get_mtls_identity cfg h w =
      (Raise (snd (auth_refusal h)), w\<lparr>trace := trace w @ Mtls_Auth_Inc (fst (auth_refusal h)) # t\<rparr>) \<and>
    (\<forall>x. Mtls_Auth_Inc x \<notin> set t)"
  using assms
  by (auto simp: identity_of_def get_mtls_identity_def auth_refusal_def act_simps split: option.splits if_splits)

lemma get_mtls_identity_frame:
  assumes "get_mtls_identity cfg h w = (out, w')"
  shows "sess w' = sess w" and "reads w' = reads w" and "env_kept w w'"
proof -
  have "sess w' = sess w \<and> reads w' = reads w \<and> env_kept w w'"
  proof (cases "allow_unauthenticated cfg \<and> truthy (x_client_verify h) = None")
    case True
    with assms show ?thesis by (auto simp: get_mtls_identity_def act_simps)
  next
    case False
    show ?thesis
    proof (cases "identity_of h")
      case None
      then show ?thesis using get_mtls_identity_None [of h cfg w] False assms by auto
    next
      case (Some i)
      then show ?thesis using get_mtls_identity_Some [of h i cfg w] False assms by auto
    qed
  qed
  then show "sess w' = sess w" and "reads w' = reads w" and "env_kept w w'" by simp_all
qed

end
