(* ===== verification/Nodes.thy ===== *)
theory Nodes
  imports Security
begin

text \<open>
  \<open>app/api/nodes.py\<close>: the four handlers of \<open>/nodes\<close>. A handler runs with an identity that the
  dependency has already let through and a session; its exceptions reach \<open>get_session\<close>.
\<close>

definition quoted :: "string \<Rightarrow> string" where
  "quoted s = [CHR 0x27] @ s @ [CHR 0x27]"

section \<open>GET /nodes\<close>

definition list_nodes :: "'s orm \<Rightarrow> mtls_identity \<Rightarrow> ('s world, node list) act" where
  "list_nodes S i =
     bnd (db_read (orm_nodes_ordered S)) (\<lambda>nodes.
     seqn (emit (Log ''nodes'' Info ''nodes_listed''
                  [(''actor'', PStr (id_common_name i)), (''count'', PInt (int (length nodes)))]))
          (ret nodes))"

section \<open>POST /nodes\<close>

definition may_register :: "mtls_identity \<Rightarrow> node_create \<Rightarrow> bool" where
  "may_register i p \<longleftrightarrow>
     (is_node i \<and> id_common_name i = common_name p) \<or> is_controller i"

definition create_node :: "'s orm \<Rightarrow> node_create \<Rightarrow> mtls_identity \<Rightarrow> ('s world, node) act" where
  "create_node S p i =
     bnd now (\<lambda>t1. bnd now (\<lambda>t2.
       let node = Node_of p t1 t2 in
       seqn (db_do (orm_add_node S node))
      (seqn (db_run (orm_flush S))
      (seqn (record_event S (id_common_name i) NODE_REGISTER (Some (''node:'' @ node_id node)) SUCCESS
               (Some [(''role'', PStr (role node)), (''ip'', py_opt_str (ip_address node))]))
      (seqn (db_run (orm_commit S))
            (db_read (orm_refresh S node)))))))"

definition register_node :: "'s orm \<Rightarrow> node_create \<Rightarrow> mtls_identity \<Rightarrow> ('s world, node) act" where
  "register_node S p i =
     (if \<not> may_register i p
      then seqn (record_event S (id_common_name i) AUTH_FAILURE (Some (''node:'' @ node_id p)) REJECTED
                   (Some [(''reason'', PStr ''actor not authorized to register this node'')]))
          (seqn (db_run (orm_commit S))
                (throw (HTTPException 403 ''Cannot register a node on behalf of another identity'')))
      else bnd (db_read (orm_node_by_id S (node_id p))) (\<lambda>existing.
        if existing \<noteq> None
        then seqn (emit (Log ''nodes'' Info ''node_register_duplicate''
                          [(''actor'', PStr (id_common_name i)), (''node_id'', PStr (node_id p))]))
                  (throw (HTTPException 409 (''Node '' @ quoted (node_id p) @ '' is already registered'')))
        else create_node S p i))"

section \<open>GET /nodes/id\<close>

definition get_node :: "'s orm \<Rightarrow> string \<Rightarrow> ('s world, node) act" where
  "get_node S nid =
     bnd (db_read (orm_node_by_id S nid)) (\<lambda>node.
       case node of
         None \<Rightarrow> throw (HTTPException 404 (''Node '' @ quoted nid @ '' not found''))
       | Some n \<Rightarrow> ret n)"

section \<open>POST /nodes/id/heartbeat\<close>

text \<open>The row a heartbeat at time \<open>t\<close> leaves.\<close>

definition beaten :: "node \<Rightarrow> int \<Rightarrow> node" where
  "beaten n t =
     (if state n = ONBOARDING then n\<lparr>state := ACTIVE\<rparr> else n)
       \<lparr>last_heartbeat_at := Some (Aware t), updated_at := Aware t\<rparr>"

definition heartbeat_record :: "'s orm \<Rightarrow> node \<Rightarrow> node_state \<Rightarrow> heartbeat_payload \<Rightarrow> mtls_identity \<Rightarrow> ('s world, unit) act" where
  "heartbeat_record S node prior_state payload i =
     (if prior_state = ONBOARDING
      then seqn (record_event S (id_common_name i) NODE_STATE_CHANGE (Some (''node:'' @ node_id node)) SUCCESS
                   (Some [(''from'', PStr (node_state_value prior_state)),
                          (''to'', PStr (node_state_value (state node))),
                          (''trigger'', PStr ''heartbeat'')]))
                (ret ())
      else emit (Log ''nodes'' Info ''node_heartbeat''
                  [(''node_id'', PStr (node_id node)), (''actor'', PStr (id_common_name i)),
                   (''state'', PStr (node_state_value (state node))), (''note'', py_opt_str (status_note payload))]))"

definition heartbeat :: "'s orm \<Rightarrow> string \<Rightarrow> heartbeat_payload \<Rightarrow> mtls_identity \<Rightarrow> ('s world, node) act" where
  "heartbeat S nid payload i =
     bnd (db_read (orm_node_by_id S nid)) (\<lambda>found.
       case found of
         None \<Rightarrow> throw (HTTPException 404 (''Node '' @ quoted nid @ '' not found''))
       | Some n \<Rightarrow>
           if id_common_name i \<noteq> common_name n
           then seqn (record_event S (id_common_name i) AUTH_FAILURE (Some (''node:'' @ nid)) REJECTED
                        (Some [(''reason'', PStr ''heartbeat from non-matching identity''),
                               (''claimed_node'', PStr nid)]))
               (seqn (db_run (orm_commit S))
                     (throw (HTTPException 403 ''Cannot heartbeat on behalf of another node'')))
           else bnd now (\<lambda>t.
             let node = beaten n t in
             seqn (db_do (orm_add_node S node))
            (seqn (heartbeat_record S node (state n) payload i)
            (seqn (db_run (orm_commit S))
                  (db_read (orm_refresh S node))))))"

end
