(* ===== verification/Controller_Spec.thy ===== *)
theory Controller_Spec
  imports Nodes
begin

text \<open>
  What the controller promises of its two tables, with no session, no fault and no log in it: the
  changes one request of one identity may make to what is committed. The handlers are shown to
  refine it; the fleet-wide invariants are proved here, by rule induction.
\<close>

type_synonym db = "node list \<times> audit_event list"

text \<open>The certificate behind the identity is not on the list of revoked serials.\<close>

definition live :: "int set \<Rightarrow> mtls_identity \<Rightarrow> bool" where
  "live R i \<longleftrightarrow> (case serial i of None \<Rightarrow> True | Some n \<Rightarrow> n \<notin> R)"

definition register_event :: "mtls_identity \<Rightarrow> node_create \<Rightarrow> int \<Rightarrow> audit_event" where
  "register_event i p t =
     AuditEvent_of (id_common_name i) NODE_REGISTER (Some (''node:'' @ node_id p)) SUCCESS
       (Some [(''role'', PStr (role p)), (''ip'', py_opt_str (ip_address p))]) t"

definition activation_event :: "mtls_identity \<Rightarrow> node \<Rightarrow> int \<Rightarrow> audit_event" where
  "activation_event i n t =
     AuditEvent_of (id_common_name i) NODE_STATE_CHANGE (Some (''node:'' @ node_id n)) SUCCESS
       (Some [(''from'', PStr ''onboarding''), (''to'', PStr ''active''), (''trigger'', PStr ''heartbeat'')]) t"

inductive spec_step :: "int set \<Rightarrow> mtls_identity \<Rightarrow> db \<Rightarrow> db \<Rightarrow> bool" for R i where
  idle: "spec_step R i d d"
| refuse: "spec_step R i (ns, es)
     (ns, write_event es (AuditEvent_of (id_common_name i) AUTH_FAILURE tgt REJECTED det t))"
| enrol: "live R i \<Longrightarrow> may_register i p \<Longrightarrow> node_id p \<notin> node_id ` set ns \<Longrightarrow>
     spec_step R i (ns, es) (write_node ns (Node_of p t1 t2), write_event es (register_event i p t))"
| activate: "live R i \<Longrightarrow> n \<in> set ns \<Longrightarrow> common_name n = id_common_name i \<Longrightarrow> state n = ONBOARDING \<Longrightarrow>
     spec_step R i (ns, es) (write_node ns (beaten n t1), write_event es (activation_event i n t2))"
| beat: "live R i \<Longrightarrow> n \<in> set ns \<Longrightarrow> common_name n = id_common_name i \<Longrightarrow> state n \<noteq> ONBOARDING \<Longrightarrow>
     spec_step R i (ns, es) (write_node ns (beaten n t1), es)"

inductive_cases spec_stepE: "spec_step R i (ns, es) (ns', es')"

text \<open>What is left to an identity whose certificate is revoked: refusals.\<close>

lemma spec_step_revoked:
  assumes "\<not> live R i" and "spec_step R i (ns, es) (ns', es')"
  shows "ns' = ns" and "es' = es \<or> (\<exists>tgt det t. es' =
    write_event es (AuditEvent_of (id_common_name i) AUTH_FAILURE tgt REJECTED det t))"
  using assms by (auto elim!: spec_stepE)

lemmas spec_intros = idle refuse enrol activate beat

section \<open>The tables stay well-formed\<close>

lemma beaten_fields [simp]:
  "node_id (beaten n t) = node_id n" "common_name (beaten n t) = common_name n"
  "role (beaten n t) = role n" "ip_address (beaten n t) = ip_address n"
  "node_notes (beaten n t) = node_notes n" "node_pk (beaten n t) = node_pk n"
  "created_at (beaten n t) = created_at n"
  "state (beaten n t) = (if state n = ONBOARDING then ACTIVE else state n)"
  "last_heartbeat_at (beaten n t) = Some (Aware t)" "updated_at (beaten n t) = Aware t"
  by (simp_all add: beaten_def)

lemma write_new_node:
  "write_node ns (Node_of p t1 t2) =
     ns @ [(node_row (Node_of p t1 t2))\<lparr>node_pk := Some (next_key (keys_of node_pk ns))\<rparr>]"
  by (simp add: write_node_def)

lemma node_table_ok_enrol:
  assumes "node_table_ok ns" and "node_id p \<notin> node_id ` set ns"
  shows "node_table_ok (write_node ns (Node_of p t1 t2))"
proof (rule node_table_ok_write [OF assms(1)])
  show "distinct (map node_id (write_node ns (Node_of p t1 t2)))"
    using assms by (simp add: write_new_node node_table_ok_def)
qed

lemma node_table_ok_beaten:
  assumes "node_table_ok ns" and "n \<in> set ns"
  shows "node_table_ok (write_node ns (beaten n t))"
proof (rule node_table_ok_write [OF assms(1)])
  have "map node_id (write_node ns (beaten n t)) = map node_id ns"
    by (rule write_node_update_ids [OF assms]) simp_all
  then show "distinct (map node_id (write_node ns (beaten n t)))"
    using assms(1) by (simp add: node_table_ok_def)
qed

lemma spec_step_store_ok: "spec_step R i d d' \<Longrightarrow> store_ok d \<Longrightarrow> store_ok d'"
  by (induction rule: spec_step.induct)
     (auto simp: store_ok_def intro: event_table_ok_write node_table_ok_enrol node_table_ok_beaten)

section \<open>The audit log only grows\<close>

lemma write_event_prefix [simp]: "prefix es (write_event es e)"
  by (simp add: write_event_def)

lemma spec_step_audit_prefix: "spec_step R i d d' \<Longrightarrow> prefix (snd d) (snd d')"
  by (induction rule: spec_step.induct) auto

text \<open>At most one row per request.\<close>

lemma spec_step_audit_one: "spec_step R i d d' \<Longrightarrow> length (snd d') \<le> Suc (length (snd d))"
  by (induction rule: spec_step.induct) (auto simp: write_event_def)

section \<open>Rows change only by their owner's heartbeat\<close>

definition row_step :: "int set \<Rightarrow> mtls_identity \<Rightarrow> node \<Rightarrow> node \<Rightarrow> bool" where
  "row_step R i n n' \<longleftrightarrow> n' = n \<or>
     (live R i \<and> common_name n = id_common_name i \<and> (\<exists>t. n' = node_row (beaten n t)))"

text \<open>The row a registration adds.\<close>

definition enrolled :: "int set \<Rightarrow> mtls_identity \<Rightarrow> node \<Rightarrow> bool" where
  "enrolled R i n \<longleftrightarrow> live R i \<and> last_heartbeat_at n = None \<and>
     may_register i (node_base.truncate n)"

lemma write_beaten_rows:
  assumes "node_table_ok ns" and "n \<in> set ns" and "live R i" and "common_name n = id_common_name i"
  shows "list_all2 (row_step R i) ns (write_node ns (beaten n t))"
proof -
  obtain k where k: "node_pk n = Some k" using assms(1,2) by (auto simp: node_table_ok_def)
  have "r = n" if "r \<in> set ns" "node_pk r = Some k" for r
    using assms(1,2) k that map_eq_distinct_unique[of node_pk ns r n]
    by (simp add: node_table_ok_def)
  then have "list_all2 (\<lambda>r r'. row_step R i r r') ns (map (\<lambda>r. if node_pk r = Some k then node_row (beaten n t) else r) ns)"
    using assms(3,4) by (auto simp: list_all2_map2 list_all2_same row_step_def)
  then show ?thesis using k by (simp add: write_node_def)
qed

lemma enrolled_new_row:
  "live R i \<Longrightarrow> may_register i p \<Longrightarrow>
     enrolled R i ((node_row (Node_of p t1 t2))\<lparr>node_pk := k\<rparr>)"
  by (auto simp: enrolled_def node_row_def may_register_def node_base.truncate_def)

lemma spec_step_rows:
  assumes "spec_step R i d d'" and "store_ok d"
  shows "\<exists>rows new. fst d' = rows @ new \<and> list_all2 (row_step R i) (fst d) rows \<and>
    length new \<le> 1 \<and> (\<forall>n \<in> set new. enrolled R i n)"
proof -
  have same: "list_all2 (row_step R i) ns ns" for ns
    by (simp add: list_all2_same row_step_def)
  have old: "\<exists>rows new. ns' = rows @ new \<and> list_all2 (row_step R i) ns rows \<and>
    length new \<le> 1 \<and> (\<forall>n \<in> set new. enrolled R i n)" if "list_all2 (row_step R i) ns ns'" for ns ns'
    using that by (intro exI [of _ ns'] exI [of _ "[]"]) simp
  from assms show ?thesis
  proof (induction rule: spec_step.induct)
    case (enrol p ns es t1 t2 t)
    then show ?case using same
      by (intro exI [of _ ns] exI [of _ "[(node_row (Node_of p t1 t2))\<lparr>node_pk := Some (next_key (keys_of node_pk ns))\<rparr>]"])
         (simp add: write_new_node enrolled_new_row)
  next
    case (activate n ns es t1 t2)
    then show ?case using old [OF write_beaten_rows] by (simp add: store_ok_def)
  next
    case (beat n ns es t1)
    then show ?case using old [OF write_beaten_rows] by (simp add: store_ok_def)
  qed (use old [OF same] in auto)
qed

section \<open>Every node in the table has its registration in the audit log\<close>

definition registers :: "string \<Rightarrow> audit_event \<Rightarrow> bool" where
  "registers x e \<longleftrightarrow> action e = NODE_REGISTER \<and> result e = SUCCESS \<and> target e = Some (''node:'' @ x)"

definition accounted :: "db \<Rightarrow> bool" where
  "accounted d \<longleftrightarrow> (\<forall>x \<in> node_id ` set (fst d). \<exists>e \<in> set (snd d). registers x e)"

lemma write_beaten_ids:
  assumes "node_table_ok ns" and "n \<in> set ns"
  shows "node_id ` set (write_node ns (beaten n t)) = node_id ` set ns"
proof -
  have "map node_id (write_node ns (beaten n t)) = map node_id ns"
    by (rule write_node_update_ids [OF assms]) simp_all
  then show ?thesis by (metis set_map)
qed

lemma registers_fields:
  "registers x (e\<lparr>event_pk := k, timestamp := t\<rparr>) \<longleftrightarrow> registers x e"
  by (simp add: registers_def)

lemma write_event_set: "set (write_event es e) = insert (e\<lparr>event_pk := Some (next_key (keys_of event_pk es)), timestamp := naive (timestamp e)\<rparr>) (set es)"
  by (simp add: write_event_def)

lemma spec_step_accounted:
  assumes "spec_step R i d d'" and "store_ok d" and "accounted d"
  shows "accounted d'"
  using assms
proof (induction rule: spec_step.induct)
  case (enrol p ns es t1 t2 t)
  have "registers (node_id p) (register_event i p t)"
    by (simp add: registers_def register_event_def)
  with enrol show ?case
    by (auto simp: accounted_def write_new_node write_event_set registers_fields)
qed (auto simp: accounted_def write_event_set registers_fields store_ok_def write_beaten_ids)

section \<open>A node is activated at most once\<close>

definition activates :: "string \<Rightarrow> audit_event \<Rightarrow> bool" where
  "activates x e \<longleftrightarrow> action e = NODE_STATE_CHANGE \<and> target e = Some (''node:'' @ x)"

definition activations :: "string \<Rightarrow> audit_event list \<Rightarrow> nat" where
  "activations x es = length (filter (activates x) es)"

definition activated_once :: "db \<Rightarrow> bool" where
  "activated_once d \<longleftrightarrow> (\<forall>x. activations x (snd d) \<le> 1) \<and>
     (\<forall>n \<in> set (fst d). state n = ONBOARDING \<longrightarrow> activations (node_id n) (snd d) = 0) \<and>
     (\<forall>x. x \<notin> node_id ` set (fst d) \<longrightarrow> activations x (snd d) = 0)"

lemma activations_write_event:
  "activations x (write_event es e) = activations x es + (if activates x e then 1 else 0)"
  by (simp add: activations_def write_event_def activates_def)

lemma activates_simps [simp]:
  "\<not> activates x (AuditEvent_of a AUTH_FAILURE tgt r det t)"
  "\<not> activates x (register_event i p t)"
  "activates x (activation_event i n t) \<longleftrightarrow> x = node_id n"
  by (auto simp: activates_def register_event_def activation_event_def)

lemma row_step_state:
  "row_step R i n n' \<Longrightarrow> node_id n' = node_id n \<and> (state n' = state n \<or> state n = ONBOARDING \<and> state n' = ACTIVE)"
  by (auto simp: row_step_def split: if_splits)

lemma write_beaten_onboarding:
  assumes "node_table_ok ns" and "n \<in> set ns" and "m \<in> set (write_node ns (beaten n t))"
    and "state m = ONBOARDING"
  shows "m \<in> set ns" and "node_id m \<noteq> node_id n"
proof -
  obtain k where k: "node_pk n = Some k" using assms(1,2) by (auto simp: node_table_ok_def)
  have uniq: "r = n" if "r \<in> set ns" "node_pk r = Some k \<or> node_id r = node_id n" for r
    using assms(1,2) k that map_eq_distinct_unique[of node_pk ns r n] map_eq_distinct_unique[of node_id ns r n]
    by (auto simp: node_table_ok_def)
  from assms(3,4) k obtain r where r: "r \<in> set ns" "node_pk r \<noteq> Some k" "m = r"
    by (auto simp: write_node_def split: if_splits)
  then show "m \<in> set ns" and "node_id m \<noteq> node_id n"
    using uniq k by auto
qed

lemma spec_step_activated_once:
  assumes "spec_step R i d d'" and "store_ok d" and "activated_once d"
  shows "activated_once d'"
  using assms
proof (induction rule: spec_step.induct)
  case (enrol p ns es t1 t2 t)
  then show ?case
    by (auto simp: activated_once_def activations_write_event write_new_node)
next
  case (activate n ns es t1 t2)
  have ok: "node_table_ok ns" using activate.prems by (simp add: store_ok_def)
  have z: "activations (node_id n) es = 0"
    using activate by (simp add: activated_once_def)
  note inv = activate.prems(2) [unfolded activated_once_def fst_conv snd_conv]
  note act = activations_write_event [of _ es "activation_event i n t2"]
  have "activations x (write_event es (activation_event i n t2)) \<le> 1" for x
    using inv z by (cases "x = node_id n") (simp_all add: act)
  moreover have "activations (node_id m) (write_event es (activation_event i n t2)) = 0"
    if "m \<in> set (write_node ns (beaten n t1))" "state m = ONBOARDING" for m
    using write_beaten_onboarding [OF ok \<open>n \<in> set ns\<close> that] inv that(2) by (simp add: act)
  moreover have "activations x (write_event es (activation_event i n t2)) = 0"
    if "x \<notin> node_id ` set ns" for x
  proof -
    have "x \<noteq> node_id n" using that \<open>n \<in> set ns\<close> by blast
    then show ?thesis using inv that by (simp add: act)
  qed
  ultimately show ?case
    by (simp add: activated_once_def write_beaten_ids [OF ok \<open>n \<in> set ns\<close>])
next
  case (beat n ns es t1)
  have ok: "node_table_ok ns" using beat.prems by (simp add: store_ok_def)
  show ?case
    using beat.prems(2) write_beaten_onboarding(1) [OF ok \<open>n \<in> set ns\<close>]
    by (auto simp: activated_once_def write_beaten_ids [OF ok \<open>n \<in> set ns\<close>])
qed (auto simp: activated_once_def activations_write_event)

end
