(* ===== verification/Handlers.thy ===== *)
theory Handlers
  imports Controller_Spec
begin

text \<open>
  Every handler of \<open>/nodes\<close>, and the revocation check before it, refines the controller's
  specification on whatever session keeps the laws of \<open>orm_session\<close>: also when any call of the
  session raises, what is committed has made one step of \<open>spec_step\<close>.
\<close>

context orm_session begin

text \<open>A rejection: one committed audit row, or nothing.\<close>

lemma rejection_refines:
  assumes "seqn (record_event S (id_common_name i) AUTH_FAILURE tgt REJECTED det)
      (seqn (db_run (orm_commit S)) m) w = (out, w')"
    and "clean (abs (sess w))"
    and m: "\<And>v. env_kept v (snd (m v)) \<and> sess (snd (m v)) = sess v"
  shows "spec_step R i (durable (abs (sess w))) (durable (abs (sess w'))) \<and> env_kept w w'"
  using assms(1,2)
proof (cases rule: record_commit_cases)
  case (fail e)
  then show ?thesis by (simp add: spec_intros)
next
  case (ok s k)
  let ?v = "w\<lparr>sess := s, reads := Suc (reads w),
    trace := trace w @ [audit_log_line k (id_common_name i) AUTH_FAILURE tgt REJECTED det, audit_counter AUTH_FAILURE REJECTED]\<rparr>"
  have "env_kept ?v w'" and s: "sess w' = s" using m [of ?v] ok(3) by simp_all
  moreover have "env_kept w ?v" by (simp add: env_kept_def)
  ultimately have "env_kept w w'" by (blast intro: env_kept_trans)
  then show ?thesis using ok(1) s by (simp add: durable_def [of "abs (sess w)"] spec_intros)
qed

lemma require_live_identity_cases:
  assumes "require_live_identity S i w = (out, w')" and "clean (abs (sess w))"
  obtains (live) "out = Ok i" "w' = w" "live (revoked_serials w) i"
  | (revoked) e where "out = Raise e" "\<not> live (revoked_serials w) i" "env_kept w w'"
      "spec_step (revoked_serials w) i (durable (abs (sess w))) (durable (abs (sess w')))"
proof (cases "live (revoked_serials w) i")
  case True
  with assms(1) that(1) show thesis
    by (auto simp: require_live_identity_def live_def is_revoked_def act_simps split: option.splits)
next
  case False
  then obtain n where n: "serial i = Some n" "n \<in> revoked_serials w"
    by (auto simp: live_def split: option.splits)
  let ?v = "w\<lparr>trace := trace w @ [Mtls_Auth_Inc ''revoked'']\<rparr>"
  have rej: "seqn (record_event S (id_common_name i) AUTH_FAILURE (Some (''cert:'' @ py_hex n)) REJECTED
                (Some [(''reason'', PStr ''certificate revoked''), (''serial'', PStr (py_hex n))]))
       (seqn (db_run (orm_commit S))
       (seqn (emit (Log ''security'' Warning ''mtls_cert_revoked''
                     [(''cn'', PStr (id_common_name i)), (''serial'', PStr (py_hex n))]))
             (throw (HTTPException 403 ''Client certificate has been revoked'')))) ?v = (out, w')"
    using assms(1) n by (simp add: require_live_identity_def is_revoked_def act_simps)
  have "clean (abs (sess ?v))" using assms(2) by simp
  with rej have "\<exists>e. out = Raise e"
  proof (cases rule: record_commit_cases)
    case (ok s k) then show ?thesis by (auto simp: act_simps)
  qed auto
  moreover have "spec_step (revoked_serials w) i (durable (abs (sess ?v))) (durable (abs (sess w'))) \<and> env_kept ?v w'"
    by (rule rejection_refines [OF rej]) (use assms(2) in \<open>auto simp: act_simps\<close>)
  ultimately have "\<exists>e. out = Raise e" "env_kept w w'"
    "spec_step (revoked_serials w) i (durable (abs (sess w))) (durable (abs (sess w')))"
    by (auto intro: env_kept_trans [OF env_kept_trace_self])
  with False that(2) show thesis by blast
qed

lemma node_by_id_cases:
  assumes "orm_node_by_id S x s = Ok r"
  obtains (none) "r = None" "x \<notin> node_id ` set (tx_nodes (abs s))"
  | (some) n where "r = Some n" "n \<in> set (tx_nodes (abs s))" "node_id n = x"
proof (cases r)
  case None
  then have "filter (\<lambda>n. node_id n = x) (tx_nodes (abs s)) = []"
    using node_by_id_law [OF assms] by simp
  then show thesis using None none by (auto simp: filter_empty_conv)
next
  case (Some n)
  then have f: "filter (\<lambda>n. node_id n = x) (tx_nodes (abs s)) = [n]"
    using node_by_id_law [OF assms] by simp
  then have "n \<in> set (filter (\<lambda>n. node_id n = x) (tx_nodes (abs s)))" by simp
  then show thesis using Some some by simp
qed

text \<open>From the point where the new row is in the session: flush, audit row, commit.\<close>

lemma create_node_refines:
  assumes "create_node S p i w = (out, w')" and "clean (abs (sess w))"
    and "live R i" and "may_register i p" and "node_id p \<notin> node_id ` set (tx_nodes (abs (sess w)))"
  shows "spec_step R i (durable (abs (sess w))) (durable (abs (sess w'))) \<and> env_kept w w'"
proof -
  let ?n = "Node_of p (clock w (reads w)) (clock w (Suc (reads w)))"
  let ?s0 = "orm_add_node S ?n (sess w)"
  let ?t = "clock w (Suc (Suc (reads w)))"
  let ?v = "\<lambda>s. w\<lparr>sess := s, reads := Suc (Suc (reads w))\<rparr>"
  obtain x s1 where f: "orm_flush S ?s0 = (x, s1)" by (cases "orm_flush S ?s0")
  note run = assms(1) [unfolded create_node_def Let_def, simplified act_simps, simplified, unfolded f]
  show ?thesis
  proof (cases x)
    case (Raise e)
    then have "durable (abs s1) = durable (abs (sess w))"
      using flush_fails [of ?s0 e s1] f by (simp add: add_node_law)
    then show ?thesis using run Raise by (auto simp: spec_intros)
  next
    case (Ok u)
    have fl: "st_flush (st_add_node ?n (abs (sess w))) = Some (abs s1)"
      using flush_law [of ?s0 u s1] f Ok by (simp add: add_node_law)
    have s1: "tx_nodes (abs s1) = write_node (tx_nodes (abs (sess w))) ?n" "tx_events (abs s1) = tx_events (abs (sess w))"
      "new_nodes (abs s1) = []" "new_events (abs s1) = []" "durable (abs s1) = durable (abs (sess w))"
      using st_flush_add_node [OF fl] assms(2) by (simp_all add: clean_def)
    from run Ok have "seqn (record_event S (id_common_name i) NODE_REGISTER (Some (''node:'' @ node_id p)) SUCCESS
               (Some [(''role'', PStr (role p)), (''ip'', py_opt_str (ip_address p))]))
      (seqn (db_run (orm_commit S)) (db_read (orm_refresh S ?n))) (?v s1) = (out, w')"
      by simp
    then show ?thesis
    proof (cases rule: seqn_cases)
      case (raise e)
      from raise(1) show ?thesis
      proof (cases rule: record_event_cases)
        case (fail e s)
        then show ?thesis using s1(5) by (simp add: spec_intros)
      qed simp
    next
      case (ok ev w2)
      note rest = ok(2)
      from ok(1) show ?thesis
      proof (cases rule: record_event_cases)
        case (ok event s2)
        have rec: "st_flush (st_add_event (register_event i p ?t) (abs s1)) = Some (abs s2)"
          using ok(2) by (simp add: register_event_def)
        have s2: "durable (abs s2) = durable (abs (sess w))"
          "tx_nodes (abs s2) = write_node (tx_nodes (abs (sess w))) ?n"
          "tx_events (abs s2) = write_event (tx_events (abs (sess w))) (register_event i p ?t)"
          "new_nodes (abs s2) = []" "new_events (abs s2) = []"
          using st_flush_add_event [OF rec] s1 by simp_all
        have k: "env_kept w w2" by (simp add: ok(3) env_kept_def)
        from rest show ?thesis
        proof (cases rule: commit_cases)
          case (fail e s)
          then show ?thesis using s2(1) ok(3) by (simp add: spec_intros env_kept_def)
        next
          case (ok s3)
          then have c: "st_commit (abs s2) = Some (abs s3)" using \<open>w2 = _\<close> by simp
          have "sess w' = s3" "env_kept w w'" using ok(2) k by (auto simp: db_read_def)
          moreover have "durable (abs s3) = (write_node (tx_nodes (abs (sess w))) ?n,
              write_event (tx_events (abs (sess w))) (register_event i p ?t))"
            using st_commit_SomeD(2) [OF c] s2 by simp
          ultimately show ?thesis
            using assms(2-5) by (simp add: durable_def [of "abs (sess w)"] clean_def spec_intros)
        qed
      qed simp
    qed
  qed
qed

lemma register_node_refines:
  assumes "register_node S p i w = (out, w')" and "clean (abs (sess w))" and "live R i"
  shows "spec_step R i (durable (abs (sess w))) (durable (abs (sess w'))) \<and> env_kept w w'"
proof (cases "may_register i p")
  case False
  with assms(1) have "seqn (record_event S (id_common_name i) AUTH_FAILURE (Some (''node:'' @ node_id p)) REJECTED
          (Some [(''reason'', PStr ''actor not authorized to register this node'')]))
      (seqn (db_run (orm_commit S))
            (throw (HTTPException 403 ''Cannot register a node on behalf of another identity''))) w = (out, w')"
    by (simp add: register_node_def)
  then show ?thesis
    by (rule rejection_refines) (use assms(2) in \<open>auto simp: act_simps\<close>)
next
  case True
  show ?thesis
  proof (cases "orm_node_by_id S (node_id p) (sess w)")
    case (Raise e)
    with assms(1) True show ?thesis by (auto simp: register_node_def act_simps spec_intros)
  next
    case (Ok r)
    then show ?thesis
    proof (cases rule: node_by_id_cases)
      case none
      with Ok assms(1) True have "create_node S p i w = (out, w')"
        by (simp add: register_node_def act_simps)
      then show ?thesis by (rule create_node_refines) (use assms True none in auto)
    next
      case (some n)
      with Ok assms(1) True show ?thesis by (auto simp: register_node_def act_simps spec_intros)
    qed
  qed
qed

text \<open>The audit row of an activation is in the session together with the changed row.\<close>

lemma heartbeat_record_cases:
  assumes "heartbeat_record S m st payload i w = (out, w')"
    and "new_events (abs (sess w)) = []"
    and "st = ONBOARDING \<longrightarrow> state m = ACTIVE"
  obtains (fail) e where "out = Raise e" "durable (abs (sess w')) = durable (abs (sess w))" "env_kept w w'"
  | (activated) "out = Ok ()" "st = ONBOARDING" "env_kept w w'"
      "st_flush (st_add_event (activation_event i m (clock w (reads w))) (abs (sess w))) = Some (abs (sess w'))"
  | (routine) "out = Ok ()" "st \<noteq> ONBOARDING" "env_kept w w'" "sess w' = sess w"
proof (cases "st = ONBOARDING")
  case False
  with assms(1) show thesis by (intro routine) (auto simp: heartbeat_record_def act_simps)
next
  case True
  then have "seqn (record_event S (id_common_name i) NODE_STATE_CHANGE (Some (''node:'' @ node_id m)) SUCCESS
      (Some [(''from'', PStr ''onboarding''), (''to'', PStr ''active''), (''trigger'', PStr ''heartbeat'')]))
      (ret ()) w = (out, w')"
    using assms(1,3) by (simp add: heartbeat_record_def)
  then show thesis
  proof (cases rule: seqn_cases)
    case (raise e)
    from raise(1) show thesis
      by (cases rule: record_event_cases) (use raise(2) fail in auto)
  next
    case (ok ev w1)
    from ok(1) show thesis
    proof (cases rule: record_event_cases)
      case (ok event s)
      with \<open>ret () w1 = (out, w')\<close> True show thesis
        by (intro activated) (auto simp: act_simps activation_event_def env_kept_def)
    qed simp
  qed
qed

text \<open>From the point where the changed row is in the session: audit row if needed, commit.\<close>

lemma heartbeat_write_refines:
  assumes "seqn (heartbeat_record S (beaten n t) (state n) payload i)
      (seqn (db_run (orm_commit S)) (db_read (orm_refresh S m))) w = (out, w')"
    and "abs (sess w) = st_add_node (beaten n t) s0" and "clean s0"
    and "live R i" and "n \<in> set (tx_nodes s0)" and "common_name n = id_common_name i"
  shows "spec_step R i (durable s0) (durable (abs (sess w'))) \<and> env_kept w w'"
proof -
  have d0: "durable s0 = (tx_nodes s0, tx_events s0)"
    using assms(3) by (simp add: durable_def clean_def)
  have step: "spec_step R i (durable s0) (write_node (tx_nodes s0) (beaten n t), es)"
    if "state n = ONBOARDING \<and> es = write_event (tx_events s0) (activation_event i n u) \<or>
        state n \<noteq> ONBOARDING \<and> es = tx_events s0" for es u
    using that assms(4-6) by (auto simp: d0 spec_intros)
  have commit_step: "spec_step R i (durable s0) (durable (abs (sess w'))) \<and> env_kept w1 w'"
    if run: "seqn (db_run (orm_commit S)) (db_read (orm_refresh S m)) w1 = (out, w')"
      and d1: "durable (abs (sess w1)) = durable s0"
      and v1: "spec_step R i (durable s0) (foldl write_node (tx_nodes (abs (sess w1))) (new_nodes (abs (sess w1))),
                 foldl write_event (tx_events (abs (sess w1))) (new_events (abs (sess w1))))" for w1
    using run
  proof (cases rule: commit_cases)
    case (fail e s)
    with d1 show ?thesis by (simp add: spec_intros)
  next
    case (ok s)
    with v1 st_commit_SomeD(2) [OF ok(1)] show ?thesis by (auto simp: db_read_def)
  qed
  have pend: "new_nodes (abs (sess w)) = [beaten n t]" "new_events (abs (sess w)) = []"
    "tx_nodes (abs (sess w)) = tx_nodes s0" "tx_events (abs (sess w)) = tx_events s0"
    "durable (abs (sess w)) = durable s0"
    using assms(2,3) by (simp_all add: st_add_node_def clean_def durable_def)
  have act: "state n = ONBOARDING \<longrightarrow> state (beaten n t) = ACTIVE" by simp
  from assms(1) show ?thesis
  proof (cases rule: seqn_cases)
    case (raise e)
    from raise(1) pend(2) act show ?thesis
      by (cases rule: heartbeat_record_cases) (use pend(5) raise(2) in \<open>auto simp: spec_intros\<close>)
  next
    case (ok u w1)
    note rest = ok(2)
    from ok(1) pend(2) act show ?thesis
    proof (cases rule: heartbeat_record_cases)
      case (fail e) then show ?thesis by simp
    next
      case activated
      note f = st_flush_add_event [OF activated(4)]
      have "activation_event i (beaten n t) (clock w (reads w)) = activation_event i n (clock w (reads w))"
        by (simp add: activation_event_def)
      then show ?thesis
        using commit_step [OF rest] step activated(2,3) f pend by (auto intro: env_kept_trans)
    next
      case routine
      then show ?thesis
        using commit_step [OF rest] step [of "tx_events s0"] pend by (auto intro: env_kept_trans)
    qed
  qed
qed

lemma heartbeat_refines:
  assumes "heartbeat S nid payload i w = (out, w')" and "clean (abs (sess w))" and "live R i"
  shows "spec_step R i (durable (abs (sess w))) (durable (abs (sess w'))) \<and> env_kept w w'"
proof (cases "orm_node_by_id S nid (sess w)")
  case (Raise e)
  with assms(1) show ?thesis by (auto simp: heartbeat_def act_simps spec_intros)
next
  case (Ok r)
  then show ?thesis
  proof (cases rule: node_by_id_cases)
    case none
    with Ok assms(1) show ?thesis by (auto simp: heartbeat_def act_simps spec_intros)
  next
    case (some n)
    show ?thesis
    proof (cases "id_common_name i = common_name n")
      case False
      with some Ok assms(1) have "seqn (record_event S (id_common_name i) AUTH_FAILURE (Some (''node:'' @ nid)) REJECTED
              (Some [(''reason'', PStr ''heartbeat from non-matching identity''), (''claimed_node'', PStr nid)]))
          (seqn (db_run (orm_commit S))
                (throw (HTTPException 403 ''Cannot heartbeat on behalf of another node''))) w = (out, w')"
        by (simp add: heartbeat_def act_simps)
      then show ?thesis
        by (rule rejection_refines) (use assms(2) in \<open>auto simp: act_simps\<close>)
    next
      case True
      let ?m = "beaten n (clock w (reads w))"
      let ?v = "w\<lparr>sess := orm_add_node S ?m (sess w), reads := Suc (reads w)\<rparr>"
      have "seqn (heartbeat_record S ?m (state n) payload i)
          (seqn (db_run (orm_commit S)) (db_read (orm_refresh S ?m))) ?v = (out, w')"
        using some True Ok assms(1) by (simp add: heartbeat_def Let_def act_simps)
      then have "spec_step R i (durable (abs (sess w))) (durable (abs (sess w'))) \<and> env_kept ?v w'"
        by (rule heartbeat_write_refines)
           (use some True assms in \<open>auto simp: add_node_law\<close>)
      then show ?thesis by (auto simp: env_kept_def)
    qed
  qed
qed

text \<open>The reads change nothing.\<close>

lemma list_nodes_frame:
  "list_nodes S i w = (out, w') \<Longrightarrow> sess w' = sess w \<and> env_kept w w'"
  by (auto simp: list_nodes_def act_simps split: res.splits)

lemma get_node_frame: "get_node S nid w = (out, w') \<Longrightarrow> w' = w"
  by (auto simp: get_node_def act_simps split: res.splits option.splits)

lemma list_audit_events_frame: "list_audit_events S p w = (out, w') \<Longrightarrow> w' = w"
  by (auto simp: list_audit_events_def db_read_def)

end

end
