(* ===== verification/Api.thy ===== *)
theory Api
  imports Handlers
begin

text \<open>
  One HTTP request to the controller: the dependency \<open>get_session\<close> of \<open>app/db/session.py\<close>, the
  endpoints \<open>health\<close> and \<open>whoami\<close>, the chain of dependencies \<open>MTLSIdentityDep\<close> stands for, and the
  table of routes of \<open>app/main.py\<close>. Parsing the request and answering are FastAPI's: a request is
  given as the endpoint with its validated arguments, and an exception that leaves a handler is the
  result.
\<close>

section \<open>get\_session\<close>

text \<open>Open; on an exception roll back and let it through; close in any case.\<close>

definition get_session :: "'s orm \<Rightarrow> ('s world, 'a) act \<Rightarrow> ('s world, 'a) act" where
  "get_session S body =
     seqn (db_do (orm_open S))
       (finally_do (on_exception body (db_run (orm_rollback S)))
                   (\<lambda>w. w\<lparr>sess := orm_close S (sess w)\<rparr>))"

context orm_session begin

text \<open>The body runs on a clean session; what surrounds it changes nothing committed.\<close>

lemma get_session_cases:
  assumes "get_session S body w = (out, w')"
  obtains s out1 w1 where
    "body (w\<lparr>sess := s\<rparr>) = (out1, w1)" "clean (abs s)" "durable (abs s) = durable (abs (sess w))"
    "durable (abs (sess w')) = durable (abs (sess w1))" "env_kept w1 w'" "trace w' = trace w1"
    "reads w' = reads w1" "\<And>a. out1 = Ok a \<Longrightarrow> out = Ok a" "\<And>e. out1 = Raise e \<Longrightarrow> \<not> is_ok out"
    "(\<And>t. is_ok (fst (orm_rollback S t))) \<Longrightarrow> out = out1"
proof -
  let ?s = "orm_open S (sess w)"
  obtain out1 w1 where b: "body (w\<lparr>sess := ?s\<rparr>) = (out1, w1)" by (cases "body (w\<lparr>sess := ?s\<rparr>)")
  obtain x s2 where r: "orm_rollback S (sess w1) = (x, s2)" by (cases "orm_rollback S (sess w1)")
  note rb = rollback_law [OF r]
  have run: "finally_do (on_exception body (db_run (orm_rollback S)))
      (\<lambda>w. w\<lparr>sess := orm_close S (sess w)\<rparr>) (w\<lparr>sess := ?s\<rparr>) = (out, w')"
    using assms by (simp add: get_session_def act_simps)
  have "\<exists>s3. w' = w1\<lparr>sess := s3\<rparr> \<and> durable (abs s3) = durable (abs (sess w1)) \<and>
      (\<forall>a. out1 = Ok a \<longrightarrow> out = Ok a) \<and> (\<forall>e. out1 = Raise e \<longrightarrow> \<not> is_ok out) \<and>
      ((\<forall>t. is_ok (fst (orm_rollback S t))) \<longrightarrow> out = out1)"
  proof (cases out1)
    case (Ok a)
    with run b show ?thesis
      by (auto simp: finally_do_def on_exception_def close_law intro!: exI [of _ "orm_close S (sess w1)"])
  next
    case (Raise e)
    have "(\<forall>t. is_ok (fst (orm_rollback S t))) \<Longrightarrow> is_ok x" using r by (metis fst_conv)
    with Raise run b r rb show ?thesis
      by (cases x) (auto simp: finally_do_def on_exception_def close_law act_simps
          split: if_splits intro!: exI [of _ "sess w'"])
  qed
  then obtain s3 where s3: "w' = w1\<lparr>sess := s3\<rparr>" "durable (abs s3) = durable (abs (sess w1))"
    "\<And>a. out1 = Ok a \<Longrightarrow> out = Ok a" "\<And>e. out1 = Raise e \<Longrightarrow> \<not> is_ok out"
    "(\<And>t. is_ok (fst (orm_rollback S t))) \<Longrightarrow> out = out1" by blast
  show thesis
    by (rule that [OF b]) (use s3 in \<open>simp_all add: open_law\<close>)
qed

end

section \<open>health and whoami\<close>

record health_response =
  h_status :: string
  h_service :: string
  h_version :: string
  h_timestamp :: datetime

definition health :: "controller_settings \<Rightarrow> ('s world, health_response) act" where
  "health cfg =
     bnd now (\<lambda>t. ret \<lparr>h_status = ''ok'', h_service = service_name cfg, h_version = service_version cfg,
                       h_timestamp = Aware t\<rparr>)"

record whoami_response =
  wi_common_name :: string
  wi_full_dn :: string
  wi_verified :: bool
  wi_role :: string
  wi_node_id :: "string option"

definition whoami :: "mtls_identity \<Rightarrow> whoami_response" where
  "whoami i =
     \<lparr>wi_common_name = id_common_name i, wi_full_dn = full_dn i, wi_verified = verified i,
      wi_role = (if is_controller i then ''controller'' else if is_node i then ''node'' else ''unknown''),
      wi_node_id = identity_node_id i\<rparr>"

section \<open>Requests\<close>

text \<open>What \<open>MTLSIdentityDep\<close> puts before a handler: the headers, the session, the revocation check.\<close>

definition MTLSIdentityDep :: "'s orm \<Rightarrow> controller_settings \<Rightarrow> headers \<Rightarrow> (mtls_identity \<Rightarrow> ('s world, 'a) act)
    \<Rightarrow> ('s world, 'a) act" where
  "MTLSIdentityDep S cfg h handler =
     bnd (get_mtls_identity cfg h) (\<lambda>i. get_session S (bnd (require_live_identity S i) handler))"

datatype request =
    GET_health
  | GET_whoami
  | GET_nodes
  | POST_nodes node_create
  | GET_node string
  | POST_heartbeat string heartbeat_payload
  | GET_audit audit_params

datatype response =
    R_health health_response
  | R_whoami whoami_response
  | R_nodes "node list"
  | R_node node
  | R_events "audit_event list"

definition act_map :: "('a \<Rightarrow> 'b) \<Rightarrow> ('w, 'a) act \<Rightarrow> ('w, 'b) act" where
  "act_map f m = bnd m (\<lambda>a. ret (f a))"

fun run_request :: "'s orm \<Rightarrow> controller_settings \<Rightarrow> headers \<Rightarrow> request \<Rightarrow> ('s world, response) act" where
  "run_request S cfg h GET_health = act_map R_health (health cfg)"
| "run_request S cfg h GET_whoami = MTLSIdentityDep S cfg h (\<lambda>i. ret (R_whoami (whoami i)))"
| "run_request S cfg h GET_nodes = MTLSIdentityDep S cfg h (\<lambda>i. act_map R_nodes (list_nodes S i))"
| "run_request S cfg h (POST_nodes p) = MTLSIdentityDep S cfg h (\<lambda>i. act_map R_node (register_node S p i))"
| "run_request S cfg h (GET_node nid) = MTLSIdentityDep S cfg h (\<lambda>i. act_map R_node (get_node S nid))"
| "run_request S cfg h (POST_heartbeat nid p) = MTLSIdentityDep S cfg h (\<lambda>i. act_map R_node (heartbeat S nid p i))"
| "run_request S cfg h (GET_audit p) = MTLSIdentityDep S cfg h (\<lambda>i. act_map R_events (list_audit_events S p))"

section \<open>Every request refines the specification\<close>

lemma act_map_cases:
  assumes "act_map f m w = (out, w')"
  obtains (raise) e where "m w = (Raise e, w')" "out = Raise e"
  | (ok) a where "m w = (Ok a, w')" "out = Ok (f a)"
  using assms by (auto simp: act_map_def bnd_def ret_def split: prod.splits res.splits)

lemma act_map_snd: "snd (act_map f m w) = snd (m w)"
  by (simp add: act_map_def bnd_def ret_def split: prod.splits res.splits)

lemma env_kept_sess [simp]: "env_kept (w\<lparr>sess := s\<rparr>) w' \<longleftrightarrow> env_kept w w'"
  by (simp add: env_kept_def)

context orm_session begin

text \<open>The identity a request gets, and the change its handler makes.\<close>

lemma MTLSIdentityDep_refines:
  assumes run: "MTLSIdentityDep S cfg h handler w = (out, w')"
    and handler: "\<And>i v out v'. handler i v = (out, v') \<Longrightarrow> clean (abs (sess v)) \<Longrightarrow>
        live (revoked_serials v) i \<Longrightarrow>
        spec_step (revoked_serials v) i (durable (abs (sess v))) (durable (abs (sess v'))) \<and> env_kept v v'"
  shows "env_kept w w' \<and>
    (durable (abs (sess w')) = durable (abs (sess w)) \<or>
     (\<exists>i w1. get_mtls_identity cfg h w = (Ok i, w1) \<and>
        spec_step (revoked_serials w) i (durable (abs (sess w))) (durable (abs (sess w')))))"
  using run unfolding MTLSIdentityDep_def
proof (cases rule: bnd_cases)
  case (raise e)
  then show ?thesis using get_mtls_identity_frame [OF raise(1)] by simp
next
  case (ok i w1)
  note f = get_mtls_identity_frame [OF ok(1)]
  have R: "revoked_serials w1 = revoked_serials w" using f(3) by (simp add: env_kept_def)
  from ok(2) show ?thesis
  proof (cases rule: get_session_cases)
    case (1 s out1 w2)
    let ?v = "w1\<lparr>sess := s\<rparr>"
    have cl: "clean (abs (sess ?v))" using 1(2) by simp
    have "spec_step (revoked_serials w) i (durable (abs s)) (durable (abs (sess w2))) \<and> env_kept ?v w2"
      using 1(1)
    proof (cases rule: bnd_cases)
      case (raise e)
      from raise(1) cl show ?thesis
        by (cases rule: require_live_identity_cases) (use R raise(2) in auto)
    next
      case (ok j v)
      from ok(1) cl have "j = i \<and> v = ?v \<and> live (revoked_serials w) i"
        by (cases rule: require_live_identity_cases) (use R in auto)
      then show ?thesis using handler [OF ok(2)] 1(2) R by simp
    qed
    then show ?thesis
      using 1(3,4,5) f ok(1) by (auto intro: env_kept_trans)
  qed
qed

theorem run_request_refines:
  assumes "run_request S cfg h req w = (out, w')"
  shows "env_kept w w' \<and>
    (durable (abs (sess w')) = durable (abs (sess w)) \<or>
     (\<exists>i w1. get_mtls_identity cfg h w = (Ok i, w1) \<and>
        spec_step (revoked_serials w) i (durable (abs (sess w))) (durable (abs (sess w')))))"
proof (cases req)
  case GET_health
  with assms show ?thesis by (auto simp: act_map_def health_def bnd_def now_def ret_def env_kept_def)
next
  case GET_whoami
  show ?thesis
    by (rule MTLSIdentityDep_refines, use assms GET_whoami in simp) (auto simp: ret_def spec_intros)
next
  case GET_nodes
  show ?thesis
    by (rule MTLSIdentityDep_refines, use assms GET_nodes in simp)
       (auto elim!: act_map_cases dest!: list_nodes_frame simp: spec_intros)
next
  case (POST_nodes p)
  show ?thesis
    by (rule MTLSIdentityDep_refines, use assms POST_nodes in simp)
       (elim act_map_cases; simp add: register_node_refines)
next
  case (GET_node nid)
  show ?thesis
    by (rule MTLSIdentityDep_refines, use assms GET_node in simp)
       (auto elim!: act_map_cases dest!: get_node_frame simp: spec_intros)
next
  case (POST_heartbeat nid p)
  show ?thesis
    by (rule MTLSIdentityDep_refines, use assms POST_heartbeat in simp)
       (elim act_map_cases; simp add: heartbeat_refines)
next
  case (GET_audit p)
  show ?thesis
    by (rule MTLSIdentityDep_refines, use assms GET_audit in simp)
       (auto elim!: act_map_cases dest!: list_audit_events_frame simp: spec_intros)
qed

end

end
