(* ===== verification/Handlers_Live.thy ===== *)
theory Handlers_Live
  imports Api
begin

text \<open>
  What each handler answers and leaves behind on a database in order (\<open>orm_live\<close>): one lemma per
  branch, first on a clean session, then for the whole request.
\<close>

context orm_live begin

lemma node_by_id_live_eq:
  assumes "distinct (map node_id (tx_nodes (abs s)))"
  shows "orm_node_by_id S x s = Ok (find (\<lambda>n. node_id n = x) (tx_nodes (abs s)))"
proof -
  obtain r where r: "orm_node_by_id S x s = Ok r"
    using node_by_id_live [OF assms, of x] by (cases "orm_node_by_id S x s") auto
  then show ?thesis
    using node_by_id_law [OF r] distinct_filter_key [OF assms, of x]
    by (auto split: option.splits)
qed

lemma record_event_live:
  assumes "flushable (abs (sess w))"
  shows "\<exists>k s. record_event S a c t r d w =
      (Ok (orm_event S (AuditEvent_of a c t r d (clock w (reads w))) s),
       w\<lparr>sess := s, reads := Suc (reads w), trace := trace w @ [audit_log_line k a c t r d, audit_counter c r]\<rparr>) \<and>
    st_flush (st_add_event (AuditEvent_of a c t r d (clock w (reads w))) (abs (sess w))) = Some (abs s)"
proof -
  let ?e = "AuditEvent_of a c t r d (clock w (reads w))"
  let ?s = "orm_add_event S ?e (sess w)"
  have "flushable (abs ?s)"
    using assms by (simp add: flushable_def add_event_law st_add_event_def)
  then obtain s where s: "orm_flush S ?s = (Ok (), s)"
    using flush_live [of ?s] by (cases "orm_flush S ?s") (auto elim: is_ok.elims)
  then show ?thesis
    using flush_law [OF s] by (auto simp: record_event_def Let_def act_simps add_event_law)
qed

lemma commit_live_ok:
  assumes "flushable (abs (sess w))"
  shows "\<exists>s. seqn (db_run (orm_commit S)) m w = m (w\<lparr>sess := s\<rparr>) \<and> st_commit (abs (sess w)) = Some (abs s)"
proof -
  obtain s where s: "orm_commit S (sess w) = (Ok (), s)"
    using commit_live [of "sess w"] assms
    by (cases "orm_commit S (sess w)") (auto elim: is_ok.elims)
  then show ?thesis using commit_law [OF s] by (auto simp: act_simps)
qed

text \<open>A rejection is durable before its exception is raised.\<close>

lemma rejection_live:
  assumes "clean (abs (sess w))" and "distinct (map node_id (db_nodes (abs (sess w))))"
  shows "\<exists>k s. seqn (record_event S a c t r d) (seqn (db_run (orm_commit S)) m) w =
      m (w\<lparr>sess := s, reads := Suc (reads w), trace := trace w @ [audit_log_line k a c t r d, audit_counter c r]\<rparr>) \<and>
    clean (abs s) \<and> durable (abs s) = (db_nodes (abs (sess w)),
       write_event (db_events (abs (sess w))) (AuditEvent_of a c t r d (clock w (reads w))))"
proof -
  have "flushable (abs (sess w))" using assms by (simp add: flushable_def clean_def)
  from record_event_live [OF this, of a c t r d] obtain k s where
    run: "record_event S a c t r d w = (Ok (orm_event S (AuditEvent_of a c t r d (clock w (reads w))) s),
      w\<lparr>sess := s, reads := Suc (reads w), trace := trace w @ [audit_log_line k a c t r d, audit_counter c r]\<rparr>)"
      (is "_ = (_, ?v)")
    and f: "st_flush (st_add_event (AuditEvent_of a c t r d (clock w (reads w))) (abs (sess w))) = Some (abs s)"
    by blast
  note fl = st_flush_add_event [OF f]
  have "flushable (abs (sess ?v))"
    using assms fl by (simp add: flushable_def clean_def)
  from commit_live_ok [OF this, of m] obtain s' where
    c: "seqn (db_run (orm_commit S)) m ?v = m (?v\<lparr>sess := s'\<rparr>)" "st_commit (abs s) = Some (abs s')"
    by auto
  have "durable (abs s') = (db_nodes (abs (sess w)),
       write_event (db_events (abs (sess w))) (AuditEvent_of a c t r d (clock w (reads w))))"
    using st_commit_SomeD(2) [OF c(2)] fl assms(1) by (simp add: clean_def)
  then show ?thesis
    using c st_commit_SomeD(1) [OF c(2)] seqn_Ok [of "record_event S a c t r d", OF run, of "seqn (db_run (orm_commit S)) m"]
    by (intro exI [of _ k] exI [of _ s']) simp
qed

lemma refresh_live_row:
  assumes "clean (abs s)" and "distinct (map node_id (db_nodes (abs s)))"
    and "r \<in> set (db_nodes (abs s))" and "node_id r = node_id n"
  shows "orm_refresh S n s = Ok r"
proof -
  have tx: "tx_nodes (abs s) = db_nodes (abs s)" using assms(1) by (simp add: clean_def)
  have "node_id n \<in> node_id ` set (tx_nodes (abs s))"
    using assms(3,4) tx by (metis imageI)
  then obtain m where m: "orm_refresh S n s = Ok m"
    using refresh_live [of n s] by (cases "orm_refresh S n s") auto
  then have "m \<in> set (db_nodes (abs s))" "node_id m = node_id r"
    using refresh_law [OF m] tx assms(4) by simp_all
  then have "m = r" using map_eq_distinct_unique [OF assms(2) _ assms(3)] by blast
  with m show ?thesis by simp
qed

section \<open>Registration\<close>

lemma create_node_live:
  assumes "clean (abs (sess w))" and "distinct (map node_id (db_nodes (abs (sess w))))"
    and "node_id p \<notin> node_id ` set (db_nodes (abs (sess w)))"
  defines "t \<equiv> \<lambda>k. clock w (reads w + k)"
  defines "row \<equiv> (node_row (Node_of p (t 0) (t (Suc 0))))\<lparr>node_pk := Some (next_key (keys_of node_pk (db_nodes (abs (sess w)))))\<rparr>"
  shows "\<exists>w'. create_node S p i w = (Ok row, w') \<and>
    durable (abs (sess w')) = (db_nodes (abs (sess w)) @ [row], write_event (db_events (abs (sess w))) (register_event i p (t 2)))"
proof -
  let ?n = "Node_of p (t 0) (t (Suc 0))"
  let ?s0 = "orm_add_node S ?n (sess w)"
  let ?ns = "db_nodes (abs (sess w)) @ [row]"
  have tx: "tx_nodes (abs (sess w)) = db_nodes (abs (sess w))" "tx_events (abs (sess w)) = db_events (abs (sess w))"
    "new_nodes (abs (sess w)) = []" "new_events (abs (sess w)) = []"
    using assms(1) by (simp_all add: clean_def)
  have wn: "write_node (db_nodes (abs (sess w))) ?n = ?ns" by (simp add: write_new_node row_def)
  have dist: "distinct (map node_id ?ns)" using assms(2,3) by (simp add: row_def)
  then have "flushable (abs ?s0)"
    by (simp add: flushable_def add_node_law st_add_node_def tx wn)
  then obtain s1 where s1: "orm_flush S ?s0 = (Ok (), s1)"
    using flush_live [of ?s0] by (cases "orm_flush S ?s0") (auto elim: is_ok.elims)
  note f1 = st_flush_add_node [OF flush_law [OF s1, unfolded add_node_law]]
  let ?v = "w\<lparr>sess := s1, reads := Suc (Suc (reads w))\<rparr>"
  have "flushable (abs (sess ?v))"
    using f1 tx wn dist by (simp add: flushable_def)
  from record_event_live [OF this, of "id_common_name i" NODE_REGISTER "Some (''node:'' @ node_id p)" SUCCESS
      "Some [(''role'', PStr (role p)), (''ip'', py_opt_str (ip_address p))]"]
  obtain ev v2 s2 where r: "record_event S (id_common_name i) NODE_REGISTER (Some (''node:'' @ node_id p)) SUCCESS
      (Some [(''role'', PStr (role p)), (''ip'', py_opt_str (ip_address p))]) ?v = (Ok ev, v2)" "sess v2 = s2"
    and f: "st_flush (st_add_event (register_event i p (t 2)) (abs s1)) = Some (abs s2)"
    by (auto simp: register_event_def t_def)
  note f2 = st_flush_add_event [OF f]
  have "flushable (abs (sess v2))" using f2 f1 tx wn dist r(2) by (simp add: flushable_def)
  from commit_live_ok [OF this, of "db_read (orm_refresh S ?n)"] obtain s3 where
    c: "seqn (db_run (orm_commit S)) (db_read (orm_refresh S ?n)) v2 = db_read (orm_refresh S ?n) (v2\<lparr>sess := s3\<rparr>)"
      "st_commit (abs s2) = Some (abs s3)"
    using r(2) by auto
  have d: "durable (abs s3) = (?ns, write_event (db_events (abs (sess w))) (register_event i p (t 2)))"
    using st_commit_SomeD(2) [OF c(2)] f2 f1 tx wn by simp
  then have ns3: "db_nodes (abs s3) = ?ns" by (simp add: durable_def)
  have "orm_refresh S ?n s3 = Ok row"
    by (rule refresh_live_row) (use ns3 dist st_commit_SomeD(1) [OF c(2)] in \<open>auto simp: row_def\<close>)
  then have fin: "seqn (db_run (orm_commit S)) (db_read (orm_refresh S ?n)) v2 = (Ok row, v2\<lparr>sess := s3\<rparr>)"
    using c(1) by (simp add: db_read_def)
  have "create_node S p i w =
      seqn (record_event S (id_common_name i) NODE_REGISTER (Some (''node:'' @ node_id p)) SUCCESS
              (Some [(''role'', PStr (role p)), (''ip'', py_opt_str (ip_address p))]))
        (seqn (db_run (orm_commit S)) (db_read (orm_refresh S ?n))) ?v"
    using s1 by (simp add: create_node_def Let_def act_simps t_def)
  also have "\<dots> = seqn (db_run (orm_commit S)) (db_read (orm_refresh S ?n)) v2"
    using r(1) by (rule seqn_Ok)
  also note fin
  finally have "create_node S p i w = (Ok row, v2\<lparr>sess := s3\<rparr>)" .
  with d show ?thesis by auto
qed

lemma register_new_live:
  assumes "clean (abs (sess w))" and "distinct (map node_id (db_nodes (abs (sess w))))"
    and "may_register i p" and "node_id p \<notin> node_id ` set (db_nodes (abs (sess w)))"
  shows "register_node S p i w = create_node S p i w"
proof -
  have "find (\<lambda>n. node_id n = node_id p) (tx_nodes (abs (sess w))) = None"
    using assms(1,4) by (force simp: find_None_iff clean_def)
  then show ?thesis
    using assms node_by_id_live_eq [of "sess w" "node_id p"]
    by (simp add: register_node_def act_simps clean_def)
qed

lemma register_duplicate_live:
  assumes "clean (abs (sess w))" and "distinct (map node_id (db_nodes (abs (sess w))))"
    and "may_register i p" and "node_id p \<in> node_id ` set (db_nodes (abs (sess w)))"
  shows "register_node S p i w =
    (Raise (HTTPException 409 (''Node '' @ quoted (node_id p) @ '' is already registered'')),
     w\<lparr>trace := trace w @ [Log ''nodes'' Info ''node_register_duplicate''
                           [(''actor'', PStr (id_common_name i)), (''node_id'', PStr (node_id p))]]\<rparr>)"
proof -
  have "find (\<lambda>n. node_id n = node_id p) (tx_nodes (abs (sess w))) \<noteq> None"
    unfolding find_None_iff using assms(1,4) by (auto simp: clean_def)
  then show ?thesis
    using assms node_by_id_live_eq [of "sess w" "node_id p"]
    by (auto simp: register_node_def act_simps clean_def)
qed


lemma register_refused_live:
  assumes "clean (abs (sess w))" and "distinct (map node_id (db_nodes (abs (sess w))))"
    and "\<not> may_register i p"
  shows "\<exists>w'. register_node S p i w = (Raise (HTTPException 403 ''Cannot register a node on behalf of another identity''), w') \<and>
    durable (abs (sess w')) = (db_nodes (abs (sess w)), write_event (db_events (abs (sess w)))
      (AuditEvent_of (id_common_name i) AUTH_FAILURE (Some (''node:'' @ node_id p)) REJECTED
         (Some [(''reason'', PStr ''actor not authorized to register this node'')]) (clock w (reads w))))"
  using rejection_live [OF assms(1,2), of "id_common_name i" AUTH_FAILURE "Some (''node:'' @ node_id p)" REJECTED
      "Some [(''reason'', PStr ''actor not authorized to register this node'')]"
      "throw (HTTPException 403 ''Cannot register a node on behalf of another identity'')"] assms(3)
  by (auto simp: register_node_def act_simps)

section \<open>Heartbeats\<close>

lemma find_row_live:
  assumes "clean (abs (sess w))" and "distinct (map node_id (db_nodes (abs (sess w))))"
    and "n \<in> set (db_nodes (abs (sess w)))"
  shows "orm_node_by_id S (node_id n) (sess w) = Ok (Some n)"
  using assms node_by_id_live_eq [of "sess w" "node_id n"]
    find_unique [of node_id "db_nodes (abs (sess w))" n]
  by (simp add: clean_def)

lemma find_no_row_live:
  assumes "clean (abs (sess w))" and "distinct (map node_id (db_nodes (abs (sess w))))"
    and "x \<notin> node_id ` set (db_nodes (abs (sess w)))"
  shows "orm_node_by_id S x (sess w) = Ok None"
proof -
  have "find (\<lambda>n. node_id n = x) (tx_nodes (abs (sess w))) = None"
    using assms(1,3) by (force simp: find_None_iff clean_def)
  then show ?thesis using assms node_by_id_live_eq [of "sess w" x] by (simp add: clean_def)
qed

lemma heartbeat_unknown_live:
  assumes "clean (abs (sess w))" and "distinct (map node_id (db_nodes (abs (sess w))))"
    and "x \<notin> node_id ` set (db_nodes (abs (sess w)))"
  shows "heartbeat S x p i w = (Raise (HTTPException 404 (''Node '' @ quoted x @ '' not found'')), w)"
  using find_no_row_live [OF assms] by (simp add: heartbeat_def act_simps)

lemma heartbeat_refused_live:
  assumes "clean (abs (sess w))" and "distinct (map node_id (db_nodes (abs (sess w))))"
    and "n \<in> set (db_nodes (abs (sess w)))" and "id_common_name i \<noteq> common_name n"
  shows "\<exists>w'. heartbeat S (node_id n) p i w = (Raise (HTTPException 403 ''Cannot heartbeat on behalf of another node''), w') \<and>
    durable (abs (sess w')) = (db_nodes (abs (sess w)), write_event (db_events (abs (sess w)))
      (AuditEvent_of (id_common_name i) AUTH_FAILURE (Some (''node:'' @ node_id n)) REJECTED
         (Some [(''reason'', PStr ''heartbeat from non-matching identity''), (''claimed_node'', PStr (node_id n))])
         (clock w (reads w))))"
  using rejection_live [OF assms(1,2), of "id_common_name i" AUTH_FAILURE "Some (''node:'' @ node_id n)" REJECTED
      "Some [(''reason'', PStr ''heartbeat from non-matching identity''), (''claimed_node'', PStr (node_id n))]"
      "throw (HTTPException 403 ''Cannot heartbeat on behalf of another node'')"]
    find_row_live [OF assms(1-3)] assms(4)
  by (auto simp: heartbeat_def act_simps)

lemma commit_refresh_live:
  assumes "flushable (abs (sess w))"
    and "r \<in> set (foldl write_node (tx_nodes (abs (sess w))) (new_nodes (abs (sess w))))"
    and "node_id r = node_id n"
  shows "\<exists>s. seqn (db_run (orm_commit S)) (db_read (orm_refresh S n)) w = (Ok r, w\<lparr>sess := s\<rparr>) \<and>
    durable (abs s) = (foldl write_node (tx_nodes (abs (sess w))) (new_nodes (abs (sess w))),
                       foldl write_event (tx_events (abs (sess w))) (new_events (abs (sess w))))"
proof -
  from commit_live_ok [OF assms(1), of "db_read (orm_refresh S n)"] obtain s where
    c: "seqn (db_run (orm_commit S)) (db_read (orm_refresh S n)) w = db_read (orm_refresh S n) (w\<lparr>sess := s\<rparr>)"
      "st_commit (abs (sess w)) = Some (abs s)"
    by blast
  note d = st_commit_SomeD [OF c(2)]
  have "r \<in> set (db_nodes (abs s))" using d(2) assms(2) by (simp add: durable_def)
  from refresh_live_row [OF d(1,3) this assms(3)] have "orm_refresh S n s = Ok r" .
  then have "seqn (db_run (orm_commit S)) (db_read (orm_refresh S n)) w = (Ok r, w\<lparr>sess := s\<rparr>)"
    using c(1) by (simp add: db_read_def)
  with d(2) show ?thesis by blast
qed

lemma beaten_row_written:
  assumes "n \<in> set ns" and "node_pk n \<noteq> None"
  shows "node_row (beaten n t) \<in> set (write_node ns (beaten n t))"
proof -
  obtain k where k: "node_pk n = Some k" using assms(2) by blast
  have "node_row (beaten n t) = (\<lambda>r. if node_pk r = Some k then node_row (beaten n t) else r) n"
    using k by simp
  then have "node_row (beaten n t) \<in> (\<lambda>r. if node_pk r = Some k then node_row (beaten n t) else r) ` set ns"
    using assms(1) by (rule image_eqI)
  then show ?thesis using k by (simp add: write_node_def)
qed

text \<open>
  An own node's heartbeat answers the new row and commits it, with the activation's audit row
  when the node was onboarding and without any otherwise.
\<close>

lemma heartbeat_own_live:
  assumes "clean (abs (sess w))" and "node_table_ok (db_nodes (abs (sess w)))"
    and "n \<in> set (db_nodes (abs (sess w)))" and "id_common_name i = common_name n"
  shows "\<exists>w'. heartbeat S (node_id n) p i w = (Ok (node_row (beaten n (clock w (reads w)))), w') \<and>
    durable (abs (sess w')) = (write_node (db_nodes (abs (sess w))) (beaten n (clock w (reads w))),
      if state n = ONBOARDING
      then write_event (db_events (abs (sess w))) (activation_event i n (clock w (Suc (reads w))))
      else db_events (abs (sess w)))"
proof -
  let ?m = "beaten n (clock w (reads w))"
  let ?ns = "write_node (db_nodes (abs (sess w))) ?m"
  let ?v = "w\<lparr>sess := orm_add_node S ?m (sess w), reads := Suc (reads w)\<rparr>"
  let ?fin = "seqn (db_run (orm_commit S)) (db_read (orm_refresh S ?m))"
  have dist: "distinct (map node_id (db_nodes (abs (sess w))))" and pk: "node_pk n \<noteq> None"
    using assms(2,3) by (simp_all add: node_table_ok_def)
  have row: "node_row ?m \<in> set ?ns" by (rule beaten_row_written [OF assms(3) pk])
  have dns: "distinct (map node_id ?ns)"
    using node_table_ok_beaten [OF assms(2,3)] by (simp add: node_table_ok_def)
  have run: "heartbeat S (node_id n) p i w = seqn (heartbeat_record S ?m (state n) p i) ?fin ?v"
    using find_row_live [OF assms(1) dist assms(3)] assms(4)
    by (simp add: heartbeat_def Let_def act_simps)
  have pend: "new_nodes (abs (sess ?v)) = [?m]" "new_events (abs (sess ?v)) = []"
    "tx_nodes (abs (sess ?v)) = db_nodes (abs (sess w))" "tx_events (abs (sess ?v)) = db_events (abs (sess w))"
    using assms(1) by (simp_all add: add_node_law st_add_node_def clean_def)
  have fv: "flushable (abs (sess ?v))" by (simp only: flushable_def pend) (simp add: dns)
  show ?thesis
  proof (cases "state n = ONBOARDING")
    case False
    let ?u = "?v\<lparr>trace := trace ?v @ [Log ''nodes'' Info ''node_heartbeat''
                  [(''node_id'', PStr (node_id ?m)), (''actor'', PStr (id_common_name i)),
                   (''state'', PStr (node_state_value (state ?m))), (''note'', py_opt_str (status_note p))]]\<rparr>"
    have h: "heartbeat_record S ?m (state n) p i ?v = (Ok (), ?u)"
      using False by (simp add: heartbeat_record_def act_simps)
    have "heartbeat S (node_id n) p i w = ?fin ?u"
      unfolding run using h by (rule seqn_Ok)
    moreover have "flushable (abs (sess ?u))" using fv by simp
    note commit_refresh_live [OF this, of "node_row ?m" ?m]
    ultimately show ?thesis using False pend row by auto
  next
    case True
    from record_event_live [OF fv, of "id_common_name i" NODE_STATE_CHANGE "Some (''node:'' @ node_id n)" SUCCESS
      "Some [(''from'', PStr ''onboarding''), (''to'', PStr ''active''), (''trigger'', PStr ''heartbeat'')]"]
    obtain ev u s where
      r: "record_event S (id_common_name i) NODE_STATE_CHANGE (Some (''node:'' @ node_id n)) SUCCESS
        (Some [(''from'', PStr ''onboarding''), (''to'', PStr ''active''), (''trigger'', PStr ''heartbeat'')]) ?v = (Ok ev, u)"
        "sess u = s" "st_flush (st_add_event (activation_event i n (clock w (Suc (reads w)))) (abs (sess ?v))) = Some (abs s)"
      by (auto simp: activation_event_def)
    note f = st_flush_add_event [OF r(3)]
    have h: "heartbeat_record S ?m (state n) p i ?v = (Ok (), u)"
      using True r(1) by (simp add: heartbeat_record_def act_simps)
    have "heartbeat S (node_id n) p i w = ?fin u"
      unfolding run using h by (rule seqn_Ok)
    moreover have "flushable (abs (sess u))"
      using f pend r(2) dns by (simp add: flushable_def)
    note commit_refresh_live [OF this, of "node_row ?m" ?m]
    ultimately show ?thesis using True pend row f r(2) by auto
  qed
qed

end

end
