(* ===== verification/Requests_Live.thy ===== *)
theory Requests_Live
  imports Handlers_Live
begin

text \<open>
  From a handler to its request: what \<open>MTLSIdentityDep\<close> and \<open>get_session\<close> add before and after it.
  A request with an identity that is not revoked answers what its handler answers on a clean
  session; a revoked one is refused with an audit row and its handler does not run; one without
  identity only counts and logs.
\<close>

lemma identity_of_verified:
  "identity_of h = Some i \<Longrightarrow> truthy (x_client_verify h) \<noteq> None"
  by (auto simp: identity_of_def split: option.splits if_splits)

lemma get_mtls_identity_verified:
  assumes "identity_of h = Some i"
  shows "\<exists>t. get_mtls_identity cfg h w = (Ok i, w\<lparr>trace := trace w @ Mtls_Auth_Inc ''success'' # t\<rparr>) \<and>
    (\<forall>x. Mtls_Auth_Inc x \<notin> set t)"
  using get_mtls_identity_Some [OF assms] identity_of_verified [OF assms] by blast

text \<open>The identity behind a request is always the one of its headers, but for the dev bypass.\<close>

lemma get_mtls_identity_identity:
  assumes "get_mtls_identity cfg h w = (Ok i, w1)"
  shows "identity_of h = Some i \<or>
    allow_unauthenticated cfg \<and> truthy (x_client_verify h) = None \<and> id_common_name i = ''dev-bypass'' \<and> serial i = None"
proof (cases "allow_unauthenticated cfg \<and> truthy (x_client_verify h) = None")
  case True
  with assms show ?thesis by (auto simp: get_mtls_identity_def act_simps)
next
  case False
  show ?thesis
  proof (cases "identity_of h")
    case None
    then show ?thesis using get_mtls_identity_None [of h cfg w] False assms by auto
  next
    case (Some j)
    then show ?thesis using get_mtls_identity_Some [of h j cfg w] False assms by auto
  qed
qed

lemma MTLSIdentityDep_identity:
  assumes "get_mtls_identity cfg h w = (Ok i, w1)"
  shows "MTLSIdentityDep S cfg h handler w = get_session S (bnd (require_live_identity S i) handler) w1"
  using assms by (simp add: MTLSIdentityDep_def bnd_def)

context orm_live begin

lemma MTLSIdentityDep_live:
  assumes "identity_of h = Some i" and "live (revoked_serials w) i"
  obtains v where "clean (abs (sess v))" and "durable (abs (sess v)) = durable (abs (sess w))"
    and "reads v = reads w" and "clock v = clock w" and "revoked_serials v = revoked_serials w"
    and "fst (MTLSIdentityDep S cfg h handler w) = fst (handler i v)"
    and "durable (abs (sess (snd (MTLSIdentityDep S cfg h handler w)))) = durable (abs (sess (snd (handler i v))))"
    and "trace (snd (MTLSIdentityDep S cfg h handler w)) = trace (snd (handler i v))"
proof -
  from get_mtls_identity_verified [OF assms(1), of cfg w] obtain t where
    g: "get_mtls_identity cfg h w = (Ok i, w\<lparr>trace := trace w @ Mtls_Auth_Inc ''success'' # t\<rparr>)" by blast
  let ?w1 = "w\<lparr>trace := trace w @ Mtls_Auth_Inc ''success'' # t\<rparr>"
  obtain out w' where run: "get_session S (bnd (require_live_identity S i) handler) ?w1 = (out, w')"
    by (cases "get_session S (bnd (require_live_identity S i) handler) ?w1")
  have dep: "MTLSIdentityDep S cfg h handler w = (out, w')"
    using run by (simp add: MTLSIdentityDep_identity [OF g])
  from run show thesis
  proof (cases rule: get_session_cases)
    case (1 s out1 w1)
    let ?v = "?w1\<lparr>sess := s\<rparr>"
    have "require_live_identity S i ?v = (Ok i, ?v)"
      using assms(2) by (auto simp: require_live_identity_def live_def is_revoked_def act_simps split: option.splits)
    then have "handler i ?v = (out1, w1)"
      using 1(1) bnd_Ok [of "require_live_identity S i" ?v i ?v handler] by simp
    then show thesis
      using 1 rollback_live dep by (intro that [of ?v]) simp_all
  qed
qed

text \<open>A revoked certificate: counted as a success and as revoked, refused, the refusal durable.\<close>

lemma MTLSIdentityDep_revoked:
  assumes "identity_of h = Some i" and "serial i = Some n" and "n \<in> revoked_serials w"
    and "distinct (map node_id (db_nodes (abs (sess w))))"
  shows "\<exists>w'. MTLSIdentityDep S cfg h handler w =
      (Raise (HTTPException 403 ''Client certificate has been revoked''), w') \<and>
    durable (abs (sess w')) = (db_nodes (abs (sess w)), write_event (db_events (abs (sess w)))
      (AuditEvent_of (id_common_name i) AUTH_FAILURE (Some (''cert:'' @ py_hex n)) REJECTED
         (Some [(''reason'', PStr ''certificate revoked''), (''serial'', PStr (py_hex n))]) (clock w (reads w)))) \<and>
    (\<exists>t. trace w' = trace w @ t \<and> filter (\<lambda>e. \<exists>x. e = Mtls_Auth_Inc x) t = [Mtls_Auth_Inc ''success'', Mtls_Auth_Inc ''revoked''])"
proof -
  from get_mtls_identity_verified [OF assms(1), of cfg w] obtain t where
    g: "get_mtls_identity cfg h w = (Ok i, w\<lparr>trace := trace w @ Mtls_Auth_Inc ''success'' # t\<rparr>)"
    and t: "\<forall>x. Mtls_Auth_Inc x \<notin> set t" by blast
  let ?w1 = "w\<lparr>trace := trace w @ Mtls_Auth_Inc ''success'' # t\<rparr>"
  let ?det = "Some [(''reason'', PStr ''certificate revoked''), (''serial'', PStr (py_hex n))]"
  let ?stop = "seqn (emit (Log ''security'' Warning ''mtls_cert_revoked''
                         [(''cn'', PStr (id_common_name i)), (''serial'', PStr (py_hex n))]))
                 (throw (HTTPException 403 ''Client certificate has been revoked''))"
  obtain out w' where run: "get_session S (bnd (require_live_identity S i) handler) ?w1 = (out, w')"
    by (cases "get_session S (bnd (require_live_identity S i) handler) ?w1")
  have dep: "MTLSIdentityDep S cfg h handler w = (out, w')"
    using run by (simp add: MTLSIdentityDep_identity [OF g])
  from run show ?thesis
  proof (cases rule: get_session_cases)
    case (1 s out1 w1)
    let ?v = "?w1\<lparr>sess := s\<rparr>"
    let ?u = "?v\<lparr>trace := trace ?v @ [Mtls_Auth_Inc ''revoked'']\<rparr>"
    have d: "db_nodes (abs s) = db_nodes (abs (sess w))" "db_events (abs s) = db_events (abs (sess w))"
      using 1(3) by (simp_all add: durable_def)
    have req: "require_live_identity S i ?v =
        seqn (record_event S (id_common_name i) AUTH_FAILURE (Some (''cert:'' @ py_hex n)) REJECTED ?det)
          (seqn (db_run (orm_commit S)) ?stop) ?u"
      using assms(2,3) by (simp add: require_live_identity_def is_revoked_def act_simps)
    have "clean (abs (sess ?u))" "distinct (map node_id (db_nodes (abs (sess ?u))))"
      using 1(2) d assms(4) by simp_all
    from rejection_live [OF this, of "id_common_name i" AUTH_FAILURE "Some (''cert:'' @ py_hex n)" REJECTED ?det ?stop]
    obtain k s' where r: "require_live_identity S i ?v = (Raise (HTTPException 403 ''Client certificate has been revoked''),
        ?u\<lparr>sess := s', reads := Suc (reads ?u), trace := (trace ?u @ [audit_log_line k (id_common_name i) AUTH_FAILURE
             (Some (''cert:'' @ py_hex n)) REJECTED ?det, audit_counter AUTH_FAILURE REJECTED]) @
             [Log ''security'' Warning ''mtls_cert_revoked'' [(''cn'', PStr (id_common_name i)), (''serial'', PStr (py_hex n))]]\<rparr>)"
      (is "_ = (_, ?z)")
      and ds: "durable (abs s') = (db_nodes (abs (sess w)), write_event (db_events (abs (sess w)))
        (AuditEvent_of (id_common_name i) AUTH_FAILURE (Some (''cert:'' @ py_hex n)) REJECTED ?det (clock w (reads w))))"
      using req d by (auto simp: act_simps)
    have z: "out1 = Raise (HTTPException 403 ''Client certificate has been revoked'')" "w1 = ?z"
      using 1(1) r by (simp_all add: bnd_def)
    then have "out = out1" "durable (abs (sess w')) = durable (abs s')" "trace w' = trace ?z"
      using 1 rollback_live by simp_all
    moreover have "filter (\<lambda>e. \<exists>x. e = Mtls_Auth_Inc x) t = []" using t by (auto simp: filter_empty_conv)
    ultimately show ?thesis
      using dep ds z(1) by (auto simp: audit_log_line_def audit_counter_def)
  qed
qed

end

lemma MTLSIdentityDep_refused:
  assumes "identity_of h = None" and "\<not> allow_unauthenticated cfg"
  shows "\<exists>t. MTLSIdentityDep S cfg h handler w =
      (Raise (snd (auth_refusal h)), w\<lparr>trace := trace w @ Mtls_Auth_Inc (fst (auth_refusal h)) # t\<rparr>) \<and>
    (\<forall>x. Mtls_Auth_Inc x \<notin> set t)"
proof -
  from get_mtls_identity_None [OF assms(1), of cfg w] assms(2) obtain t where
    "get_mtls_identity cfg h w =
      (Raise (snd (auth_refusal h)), w\<lparr>trace := trace w @ Mtls_Auth_Inc (fst (auth_refusal h)) # t\<rparr>)"
    "\<forall>x. Mtls_Auth_Inc x \<notin> set t" by blast
  then show ?thesis unfolding MTLSIdentityDep_def by (auto simp: bnd_Raise)
qed

lemma act_map_Ok: "m w = (Ok a, w') \<Longrightarrow> act_map f m w = (Ok (f a), w')"
  and act_map_Raise: "m w = (Raise e, w') \<Longrightarrow> act_map f m w = (Raise e, w')"
  by (simp_all add: act_map_def bnd_def ret_def)

lemma fst_snd_runs: "fst x = r \<Longrightarrow> x = (r, snd x)"
  by (cases x) simp

lemma fst_act_map: "fst (act_map f m w) = (case fst (m w) of Ok a \<Rightarrow> Ok (f a) | Raise e \<Rightarrow> Raise e)"
  by (simp add: act_map_def bnd_def ret_def split: prod.splits res.splits)

text \<open>The row a registration at time \<open>t\<close> (and a second reading \<open>u\<close>) adds to a table.\<close>

definition new_row :: "node list \<Rightarrow> node_create \<Rightarrow> int \<Rightarrow> int \<Rightarrow> node" where
  "new_row ns p t u = (node_row (Node_of p t u))\<lparr>node_pk := Some (next_key (keys_of node_pk ns))\<rparr>"

definition refusal_event :: "mtls_identity \<Rightarrow> string \<Rightarrow> (string \<times> pyval) list \<Rightarrow> int \<Rightarrow> audit_event" where
  "refusal_event i tgt det t = AuditEvent_of (id_common_name i) AUTH_FAILURE (Some tgt) REJECTED (Some det) t"

context orm_live begin

lemma request_register_live:
  assumes "store_ok (durable (abs (sess w)))" and "identity_of h = Some i" and "live (revoked_serials w) i"
    and "may_register i p" and "node_id p \<notin> node_id ` set (fst (durable (abs (sess w))))"
  defines "ns \<equiv> fst (durable (abs (sess w)))" and "es \<equiv> snd (durable (abs (sess w)))"
    and "t \<equiv> \<lambda>k. clock w (reads w + k)"
  shows "\<exists>w'. run_request S cfg h (POST_nodes p) w = (Ok (R_node (new_row ns p (t 0) (t 1))), w') \<and>
    durable (abs (sess w')) = (ns @ [new_row ns p (t 0) (t 1)], write_event es (register_event i p (t 2)))"
proof -
  let ?h = "\<lambda>i. act_map R_node (register_node S p i)"
  obtain v where v: "clean (abs (sess v))" "durable (abs (sess v)) = durable (abs (sess w))"
    "reads v = reads w" "clock v = clock w"
    and run: "fst (MTLSIdentityDep S cfg h ?h w) = fst (?h i v)"
    "durable (abs (sess (snd (MTLSIdentityDep S cfg h ?h w)))) = durable (abs (sess (snd (?h i v))))"
    by (rule MTLSIdentityDep_live [OF assms(2,3), of cfg ?h])
  have d: "db_nodes (abs (sess v)) = ns" "db_events (abs (sess v)) = es"
    using v(2) by (simp_all add: durable_def ns_def es_def)
  have dist: "distinct (map node_id (db_nodes (abs (sess v))))"
    using assms(1) d by (simp add: store_ok_def node_table_ok_def ns_def)
  have "node_id p \<notin> node_id ` set (db_nodes (abs (sess v)))" using assms(5) d by (simp add: ns_def)
  with create_node_live [OF v(1) dist this, of i] register_new_live [OF v(1) dist assms(4) this] d v(3,4)
  obtain v' where "register_node S p i v = (Ok (new_row ns p (t 0) (t 1)), v')"
    and "durable (abs (sess v')) = (ns @ [new_row ns p (t 0) (t 1)], write_event es (register_event i p (t 2)))"
    by (auto simp: new_row_def t_def)
  then show ?thesis using fst_snd_runs [OF run(1)] run(2) by (auto simp: act_map_Ok)
qed

text \<open>What a protected request answers once its handler is known to raise.\<close>

lemma request_raises_live:
  assumes "identity_of h = Some i" and "live (revoked_serials w) i"
    and "run_request S cfg h req = MTLSIdentityDep S cfg h (\<lambda>i. act_map f (m i))"
    and "\<And>v. clean (abs (sess v)) \<Longrightarrow> durable (abs (sess v)) = durable (abs (sess w)) \<Longrightarrow>
      reads v = reads w \<Longrightarrow> clock v = clock w \<Longrightarrow> \<exists>v'. m i v = (Raise e, v') \<and> durable (abs (sess v')) = d"
  shows "\<exists>w'. run_request S cfg h req w = (Raise e, w') \<and> durable (abs (sess w')) = d"
proof -
  let ?h = "\<lambda>i. act_map f (m i)"
  obtain v where v: "clean (abs (sess v))" "durable (abs (sess v)) = durable (abs (sess w))"
    "reads v = reads w" "clock v = clock w"
    and run: "fst (MTLSIdentityDep S cfg h ?h w) = fst (?h i v)"
    "durable (abs (sess (snd (MTLSIdentityDep S cfg h ?h w)))) = durable (abs (sess (snd (?h i v))))"
    by (rule MTLSIdentityDep_live [OF assms(1,2), of cfg ?h])
  from assms(4) [OF v] obtain v' where "m i v = (Raise e, v')" "durable (abs (sess v')) = d" by blast
  then show ?thesis using fst_snd_runs [OF run(1)] run(2) assms(3) by (auto simp: act_map_Raise)
qed

lemma durable_parts: "db_nodes s = fst (durable s)" "db_events s = snd (durable s)"
  by (simp_all add: durable_def)

lemma store_ok_ids: "store_ok (durable s) \<Longrightarrow> distinct (map node_id (db_nodes s))"
  by (simp add: store_ok_def node_table_ok_def durable_def)

lemma request_register_refused_live:
  assumes "store_ok (durable (abs (sess w)))" and "identity_of h = Some i" and "live (revoked_serials w) i"
    and "\<not> may_register i p"
  shows "\<exists>w'. run_request S cfg h (POST_nodes p) w =
      (Raise (HTTPException 403 ''Cannot register a node on behalf of another identity''), w') \<and>
    durable (abs (sess w')) = (fst (durable (abs (sess w))), write_event (snd (durable (abs (sess w))))
      (refusal_event i (''node:'' @ node_id p)
         [(''reason'', PStr ''actor not authorized to register this node'')] (clock w (reads w))))"
proof (rule request_raises_live [OF assms(2,3) run_request.simps(4)])
  fix v :: "'a world"
  assume v: "clean (abs (sess v))" "durable (abs (sess v)) = durable (abs (sess w))" "reads v = reads w" "clock v = clock w"
  then have "distinct (map node_id (db_nodes (abs (sess v))))"
    using assms(1) by (intro store_ok_ids) simp
  from register_refused_live [OF v(1) this assms(4)] v
  show "\<exists>v'. register_node S p i v = (Raise (HTTPException 403 ''Cannot register a node on behalf of another identity''), v') \<and>
    durable (abs (sess v')) = (fst (durable (abs (sess w))), write_event (snd (durable (abs (sess w))))
      (refusal_event i (''node:'' @ node_id p)
         [(''reason'', PStr ''actor not authorized to register this node'')] (clock w (reads w))))"
    by (simp add: durable_parts refusal_event_def)
qed

lemma request_register_duplicate_live:
  assumes "store_ok (durable (abs (sess w)))" and "identity_of h = Some i" and "live (revoked_serials w) i"
    and "may_register i p" and "node_id p \<in> node_id ` set (fst (durable (abs (sess w))))"
  shows "\<exists>w'. run_request S cfg h (POST_nodes p) w =
      (Raise (HTTPException 409 (''Node '' @ quoted (node_id p) @ '' is already registered'')), w') \<and>
    durable (abs (sess w')) = durable (abs (sess w))"
proof (rule request_raises_live [OF assms(2,3) run_request.simps(4)])
  fix v :: "'a world"
  assume v: "clean (abs (sess v))" "durable (abs (sess v)) = durable (abs (sess w))" "reads v = reads w" "clock v = clock w"
  then have d: "distinct (map node_id (db_nodes (abs (sess v))))"
    using assms(1) by (intro store_ok_ids) simp
  have "node_id p \<in> node_id ` set (db_nodes (abs (sess v)))" using assms(5) v(2) by (simp add: durable_parts)
  from register_duplicate_live [OF v(1) d assms(4) this] v(2)
  show "\<exists>v'. register_node S p i v =
      (Raise (HTTPException 409 (''Node '' @ quoted (node_id p) @ '' is already registered'')), v') \<and>
    durable (abs (sess v')) = durable (abs (sess w))" by simp
qed

lemma request_heartbeat_unknown_live:
  assumes "store_ok (durable (abs (sess w)))" and "identity_of h = Some i" and "live (revoked_serials w) i"
    and "x \<notin> node_id ` set (fst (durable (abs (sess w))))"
  shows "\<exists>w'. run_request S cfg h (POST_heartbeat x p) w =
      (Raise (HTTPException 404 (''Node '' @ quoted x @ '' not found'')), w') \<and>
    durable (abs (sess w')) = durable (abs (sess w))"
proof (rule request_raises_live [OF assms(2,3) run_request.simps(6)])
  fix v :: "'a world"
  assume v: "clean (abs (sess v))" "durable (abs (sess v)) = durable (abs (sess w))" "reads v = reads w" "clock v = clock w"
  then have d: "distinct (map node_id (db_nodes (abs (sess v))))"
    using assms(1) by (intro store_ok_ids) simp
  have "x \<notin> node_id ` set (db_nodes (abs (sess v)))" using assms(4) v(2) by (simp add: durable_parts)
  from heartbeat_unknown_live [OF v(1) d this] v(2)
  show "\<exists>v'. heartbeat S x p i v = (Raise (HTTPException 404 (''Node '' @ quoted x @ '' not found'')), v') \<and>
    durable (abs (sess v')) = durable (abs (sess w))" by simp
qed

lemma request_heartbeat_refused_live:
  assumes "store_ok (durable (abs (sess w)))" and "identity_of h = Some i" and "live (revoked_serials w) i"
    and "n \<in> set (fst (durable (abs (sess w))))" and "id_common_name i \<noteq> common_name n"
  shows "\<exists>w'. run_request S cfg h (POST_heartbeat (node_id n) p) w =
      (Raise (HTTPException 403 ''Cannot heartbeat on behalf of another node''), w') \<and>
    durable (abs (sess w')) = (fst (durable (abs (sess w))), write_event (snd (durable (abs (sess w))))
      (refusal_event i (''node:'' @ node_id n)
         [(''reason'', PStr ''heartbeat from non-matching identity''), (''claimed_node'', PStr (node_id n))]
         (clock w (reads w))))"
proof (rule request_raises_live [OF assms(2,3) run_request.simps(6)])
  fix v :: "'a world"
  assume v: "clean (abs (sess v))" "durable (abs (sess v)) = durable (abs (sess w))" "reads v = reads w" "clock v = clock w"
  then have d: "distinct (map node_id (db_nodes (abs (sess v))))"
    using assms(1) by (intro store_ok_ids) simp
  have "n \<in> set (db_nodes (abs (sess v)))" using assms(4) v(2) by (simp add: durable_parts)
  from heartbeat_refused_live [OF v(1) d this assms(5)] v
  show "\<exists>v'. heartbeat S (node_id n) p i v = (Raise (HTTPException 403 ''Cannot heartbeat on behalf of another node''), v') \<and>
    durable (abs (sess v')) = (fst (durable (abs (sess w))), write_event (snd (durable (abs (sess w))))
      (refusal_event i (''node:'' @ node_id n)
         [(''reason'', PStr ''heartbeat from non-matching identity''), (''claimed_node'', PStr (node_id n))]
         (clock w (reads w))))"
    by (simp add: durable_parts refusal_event_def)
qed

lemma request_heartbeat_own_live:
  assumes "store_ok (durable (abs (sess w)))" and "identity_of h = Some i" and "live (revoked_serials w) i"
    and "n \<in> set (fst (durable (abs (sess w))))" and "id_common_name i = common_name n"
  defines "ns \<equiv> fst (durable (abs (sess w)))" and "es \<equiv> snd (durable (abs (sess w)))"
    and "t \<equiv> \<lambda>k. clock w (reads w + k)"
  shows "\<exists>w'. run_request S cfg h (POST_heartbeat (node_id n) p) w = (Ok (R_node (node_row (beaten n (t 0)))), w') \<and>
    durable (abs (sess w')) = (write_node ns (beaten n (t 0)),
      if state n = ONBOARDING then write_event es (activation_event i n (t 1)) else es)"
proof -
  let ?h = "\<lambda>i. act_map R_node (heartbeat S (node_id n) p i)"
  obtain v where v: "clean (abs (sess v))" "durable (abs (sess v)) = durable (abs (sess w))"
    "reads v = reads w" "clock v = clock w"
    and run: "fst (MTLSIdentityDep S cfg h ?h w) = fst (?h i v)"
    "durable (abs (sess (snd (MTLSIdentityDep S cfg h ?h w)))) = durable (abs (sess (snd (?h i v))))"
    by (rule MTLSIdentityDep_live [OF assms(2,3), of cfg ?h])
  have d: "db_nodes (abs (sess v)) = ns" "db_events (abs (sess v)) = es"
    using v(2) by (simp_all add: durable_def ns_def es_def)
  have "node_table_ok (db_nodes (abs (sess v)))" "n \<in> set (db_nodes (abs (sess v)))"
    using assms(1,4) d by (simp_all add: store_ok_def ns_def)
  from heartbeat_own_live [OF v(1) this assms(5), of p] d v(3,4)
  obtain v' where "heartbeat S (node_id n) p i v = (Ok (node_row (beaten n (t 0))), v')"
    and "durable (abs (sess v')) = (write_node ns (beaten n (t 0)),
      if state n = ONBOARDING then write_event es (activation_event i n (t 1)) else es)"
    by (auto simp: t_def)
  then show ?thesis using fst_snd_runs [OF run(1)] run(2) by (auto simp: act_map_Ok)
qed

lemma request_get_node_live:
  assumes "store_ok (durable (abs (sess w)))" and "identity_of h = Some i" and "live (revoked_serials w) i"
  shows "\<exists>w'. run_request S cfg h (GET_node x) w =
      (case find (\<lambda>n. node_id n = x) (fst (durable (abs (sess w)))) of
         None \<Rightarrow> Raise (HTTPException 404 (''Node '' @ quoted x @ '' not found''))
       | Some n \<Rightarrow> Ok (R_node n), w') \<and>
    durable (abs (sess w')) = durable (abs (sess w))"
proof -
  let ?h = "\<lambda>i. act_map R_node (get_node S x)"
  obtain v where v: "clean (abs (sess v))" "durable (abs (sess v)) = durable (abs (sess w))"
    and run: "fst (MTLSIdentityDep S cfg h ?h w) = fst (?h i v)"
    "durable (abs (sess (snd (MTLSIdentityDep S cfg h ?h w)))) = durable (abs (sess (snd (?h i v))))"
    by (rule MTLSIdentityDep_live [OF assms(2,3), of cfg ?h])
  have tx: "tx_nodes (abs (sess v)) = fst (durable (abs (sess w)))"
    using v by (simp add: clean_def durable_def)
  then have "distinct (map node_id (tx_nodes (abs (sess v))))"
    using assms(1) by (simp add: store_ok_def node_table_ok_def)
  note q = node_by_id_live_eq [OF this, of x]
  have "get_node S x v =
      (case find (\<lambda>n. node_id n = x) (fst (durable (abs (sess w)))) of
         None \<Rightarrow> Raise (HTTPException 404 (''Node '' @ quoted x @ '' not found'')) | Some n \<Rightarrow> Ok n, v)"
    using q tx by (simp add: get_node_def act_simps split: option.splits)
  then show ?thesis using fst_snd_runs [OF run(1)] run(2) v(2)
    by (auto simp: fst_act_map act_map_snd split: option.splits)
qed

end

text \<open>The requests that need an identity.\<close>

fun protected :: "request \<Rightarrow> bool" where
  "protected GET_health = False"
| "protected _ = True"

lemma protected_request:
  assumes "protected req"
  obtains handler where "run_request S cfg h req = MTLSIdentityDep S cfg h handler"
  using assms by (cases req) auto

context orm_live begin

lemma request_revoked_live:
  assumes "store_ok (durable (abs (sess w)))" and "identity_of h = Some i"
    and "serial i = Some n" and "n \<in> revoked_serials w" and "protected req"
  shows "\<exists>w'. run_request S cfg h req w =
      (Raise (HTTPException 403 ''Client certificate has been revoked''), w') \<and>
    durable (abs (sess w')) = (fst (durable (abs (sess w))), write_event (snd (durable (abs (sess w))))
      (refusal_event i (''cert:'' @ py_hex n)
         [(''reason'', PStr ''certificate revoked''), (''serial'', PStr (py_hex n))] (clock w (reads w)))) \<and>
    (\<exists>t. trace w' = trace w @ t \<and> filter (\<lambda>e. \<exists>x. e = Mtls_Auth_Inc x) t = [Mtls_Auth_Inc ''success'', Mtls_Auth_Inc ''revoked''])"
proof -
  obtain handler where r: "run_request S cfg h req = MTLSIdentityDep S cfg h handler"
    by (rule protected_request [OF assms(5)])
  show ?thesis
    using MTLSIdentityDep_revoked [OF assms(2-4) store_ok_ids [OF assms(1)], of cfg handler]
    by (simp add: r refusal_event_def durable_parts)
qed

text \<open>The audit query: the window of the matching rows, newest first.\<close>

lemma request_audit_live:
  assumes "identity_of h = Some i" and "live (revoked_serials w) i"
  shows "\<exists>all w'. run_request S cfg h (GET_audit p) w =
      (Ok (R_events (take (nat (p_limit p)) (drop (nat (p_offset p)) all))), w') \<and>
    durable (abs (sess w')) = durable (abs (sess w)) \<and>
    mset all = mset (filter (query_matches (audit_stmt p)) (snd (durable (abs (sess w))))) \<and>
    sorted_desc_by event_time all"
proof -
  let ?h = "\<lambda>i. act_map R_events (list_audit_events S p)"
  obtain v where v: "clean (abs (sess v))" "durable (abs (sess v)) = durable (abs (sess w))"
    and run: "fst (MTLSIdentityDep S cfg h ?h w) = fst (?h i v)"
    "durable (abs (sess (snd (MTLSIdentityDep S cfg h ?h w)))) = durable (abs (sess (snd (?h i v))))"
    by (rule MTLSIdentityDep_live [OF assms, of cfg ?h])
  have tx: "tx_events (abs (sess v)) = snd (durable (abs (sess w)))"
    using v by (simp add: clean_def durable_def)
  obtain es where es: "list_audit_events S p v = (Ok es, v)"
    using events_live [of "audit_stmt p" "sess v"]
    by (auto simp: list_audit_events_def db_read_def elim: is_ok.elims)
  from list_audit_events_Ok [OF es] obtain all where
    "mset all = mset (filter (query_matches (audit_stmt p)) (snd (durable (abs (sess w)))))"
    "sorted_desc_by event_time all" "es = take (nat (p_limit p)) (drop (nat (p_offset p)) all)"
    unfolding tx by blast
  with es fst_snd_runs [OF run(1)] run(2) v(2) show ?thesis
    by (intro exI [of _ all] exI [of _ "snd (MTLSIdentityDep S cfg h ?h w)"]) (simp add: act_map_Ok)
qed

end

section \<open>Requests that read\<close>

lemma sorted_nodes_unique:
  assumes "mset ms = mset ns" and "sorted (map node_id ms)" and "distinct (map node_id ns)"
  shows "ms = sort_key node_id ns"
proof (rule map_sorted_distinct_set_unique [of node_id])
  have s: "set ms = set ns" using assms(1) by (rule mset_eq_setD)
  then show "inj_on node_id (set ms \<union> set (sort_key node_id ns))"
    using assms(3) by (simp add: distinct_map)
  show "set ms = set (sort_key node_id ns)" using s by simp
  have "mset (map node_id ms) = mset (map node_id ns)" using assms(1) by simp
  then show "distinct (map node_id ms)" using assms(3) mset_eq_imp_distinct_iff by blast
  have "mset (map node_id (sort_key node_id ns)) = mset (map node_id ns)" by simp
  then show "distinct (map node_id (sort_key node_id ns))" using assms(3) mset_eq_imp_distinct_iff by blast
qed (use assms(2) in simp_all)

context orm_live begin


text \<open>A protected request whose handler only reads.\<close>

lemma request_reads_live:
  assumes "identity_of h = Some i" and "live (revoked_serials w) i"
    and "run_request S cfg h req w = MTLSIdentityDep S cfg h handler w"
    and "\<And>v. clean (abs (sess v)) \<Longrightarrow> durable (abs (sess v)) = durable (abs (sess w)) \<Longrightarrow>
      \<exists>v'. handler i v = (Ok r, v') \<and> sess v' = sess v"
  shows "\<exists>w'. run_request S cfg h req w = (Ok r, w') \<and> durable (abs (sess w')) = durable (abs (sess w))"
proof -
  obtain v where v: "clean (abs (sess v))" "durable (abs (sess v)) = durable (abs (sess w))"
    and run: "fst (MTLSIdentityDep S cfg h handler w) = fst (handler i v)"
    "durable (abs (sess (snd (MTLSIdentityDep S cfg h handler w)))) = durable (abs (sess (snd (handler i v))))"
    by (rule MTLSIdentityDep_live [OF assms(1,2), of cfg handler])
  from assms(4) [OF v] obtain v' where "handler i v = (Ok r, v')" "sess v' = sess v" by blast
  then show ?thesis using fst_snd_runs [OF run(1)] run(2) v(2) assms(3) by auto
qed

lemma request_list_live:
  assumes "store_ok (durable (abs (sess w)))" and "identity_of h = Some i" and "live (revoked_serials w) i"
  shows "\<exists>w'. run_request S cfg h GET_nodes w = (Ok (R_nodes (sort_key node_id (fst (durable (abs (sess w)))))), w') \<and>
    durable (abs (sess w')) = durable (abs (sess w))"
proof (rule request_reads_live [OF assms(2,3)])
  show "run_request S cfg h GET_nodes w = MTLSIdentityDep S cfg h (\<lambda>i. act_map R_nodes (list_nodes S i)) w" by simp
  fix v :: "'a world"
  assume v: "clean (abs (sess v))" "durable (abs (sess v)) = durable (abs (sess w))"
  have tx: "tx_nodes (abs (sess v)) = fst (durable (abs (sess w)))"
    using v by (simp add: clean_def durable_def)
  obtain ms where ms: "orm_nodes_ordered S (sess v) = Ok ms"
    using nodes_ordered_live [of "sess v"] by (cases "orm_nodes_ordered S (sess v)") auto
  have "ms = sort_key node_id (fst (durable (abs (sess w))))"
    using nodes_ordered_law [OF ms] assms(1) tx by (intro sorted_nodes_unique) (simp_all add: store_ok_def node_table_ok_def)
  with ms show "\<exists>v'. act_map R_nodes (list_nodes S i) v = (Ok (R_nodes (sort_key node_id (fst (durable (abs (sess w)))))), v') \<and>
      sess v' = sess v"
    by (simp add: act_map_def list_nodes_def act_simps)
qed

lemma request_whoami_live:
  assumes "identity_of h = Some i" and "live (revoked_serials w) i"
  shows "\<exists>w'. run_request S cfg h GET_whoami w = (Ok (R_whoami (whoami i)), w') \<and>
    durable (abs (sess w')) = durable (abs (sess w))"
  by (rule request_reads_live [OF assms run_request.simps(2) [THEN fun_cong]]) (auto simp: ret_def)

end

end
