(* ===== verification/Metrics_Hooks.thy ===== *)
theory Metrics_Hooks
  imports Background
begin

text \<open>
  \<open>app/core/metrics_hooks.py\<close>: the gauges recomputed from the node table, and the loop that does
  it. What a scrape reads is the result of replaying the writes of the trace (\<open>nodes_gauge\<close>,
  \<open>age_gauge\<close>). Ages are in microseconds; \<open>total_seconds()\<close> is their quotient by a million.
\<close>

section \<open>refresh\_node\_gauges\<close>

text \<open>\<open>counts[k] += 1\<close> on a \<open>Counter\<close>, which keeps the order in which keys were first seen.\<close>

fun count_up :: "'k \<Rightarrow> ('k \<times> nat) list \<Rightarrow> ('k \<times> nat) list" where
  "count_up k [] = [(k, 1)]"
| "count_up k ((k', c) # cs) = (if k = k' then (k', Suc c) # cs else (k', c) # count_up k cs)"

definition node_counts :: "node list \<Rightarrow> ((string \<times> string) \<times> nat) list" where
  "node_counts nodes = foldl (\<lambda>cs n. count_up (node_state_value (state n), role n) cs) [] nodes"

fun emit_all :: "effect list \<Rightarrow> ('s world, unit) act" where
  "emit_all [] = ret ()"
| "emit_all (e # es) = seqn (emit e) (emit_all es)"

definition set_counts :: "((string \<times> string) \<times> nat) list \<Rightarrow> ('s world, unit) act" where
  "set_counts cs = emit_all (map (\<lambda>((st, r), c). Nodes_Total_Set st r c) cs)"

text \<open>\<open>hb.replace(tzinfo=timezone.utc)\<close> when it has none.\<close>

fun assume_utc :: "datetime \<Rightarrow> datetime" where
  "assume_utc (Naive t) = Aware t"
| "assume_utc (Aware t) = Aware t"

fun set_ages :: "int \<Rightarrow> node list \<Rightarrow> ('s world, unit) act" where
  "set_ages t [] = ret ()"
| "set_ages t (n # ns) =
     (case last_heartbeat_at n of
        None \<Rightarrow> set_ages t ns
      | Some hb \<Rightarrow>
          (case dt_sub (Aware t) (assume_utc hb) of
             Raise e \<Rightarrow> throw e
           | Ok age \<Rightarrow> seqn (emit (Heartbeat_Age_Set (node_id n) age)) (set_ages t ns)))"

definition read_nodes :: "'s orm \<Rightarrow> ('s world, node list) act" where
  "read_nodes S =
     seqn (db_do (orm_open S))
       (finally_do (db_read (orm_nodes S)) (\<lambda>w. w\<lparr>sess := orm_close S (sess w)\<rparr>))"

definition refresh_node_gauges :: "'s orm \<Rightarrow> ('s world, unit) act" where
  "refresh_node_gauges S =
     bnd (read_nodes S) (\<lambda>nodes.
       seqn (emit Nodes_Total_Clear)
      (seqn (set_counts (node_counts nodes))
      (bnd now (\<lambda>t. set_ages t nodes))))"

section \<open>periodic\_gauge\_refresh\<close>

definition gauge_iteration :: "'s orm \<Rightarrow> unit res \<Rightarrow> ('s world, unit) act" where
  "gauge_iteration S sleep =
     guarded_pass ''metrics_hooks'' ''metrics_refresh_failed'' (refresh_node_gauges S) sleep"

definition periodic_gauge_refresh :: "'s orm \<Rightarrow> int \<Rightarrow> unit res list \<Rightarrow> ('s world, unit) act" where
  "periodic_gauge_refresh S interval_seconds sleeps =
     seqn (emit (Log ''metrics_hooks'' Info ''metrics_refresh_started'' [(''interval'', PInt interval_seconds)]))
          (every (gauge_iteration S) sleeps)"

section \<open>What a scrape reads\<close>

text \<open>The samples of \<open>thesis_nodes_total\<close> and \<open>thesis_node_last_heartbeat_seconds\<close> after a trace.\<close>

fun apply_nodes_gauge :: "effect \<Rightarrow> (string \<times> string \<Rightarrow> nat option) \<Rightarrow> string \<times> string \<Rightarrow> nat option" where
  "apply_nodes_gauge Nodes_Total_Clear g = (\<lambda>_. None)"
| "apply_nodes_gauge (Nodes_Total_Set st r c) g = g((st, r) := Some c)"
| "apply_nodes_gauge _ g = g"

definition nodes_gauge :: "effect list \<Rightarrow> string \<times> string \<Rightarrow> nat option" where
  "nodes_gauge es = fold apply_nodes_gauge es (\<lambda>_. None)"

fun apply_age_gauge :: "effect \<Rightarrow> (string \<Rightarrow> int option) \<Rightarrow> string \<Rightarrow> int option" where
  "apply_age_gauge (Heartbeat_Age_Set x a) g = g(x := Some a)"
| "apply_age_gauge _ g = g"

definition age_gauge :: "effect list \<Rightarrow> string \<Rightarrow> int option" where
  "age_gauge es = fold apply_age_gauge es (\<lambda>_. None)"

definition count_by :: "(string \<times> string) \<Rightarrow> node list \<Rightarrow> nat" where
  "count_by k nodes = length (filter (\<lambda>n. (node_state_value (state n), role n) = k) nodes)"

section \<open>The counts\<close>

lemma map_of_count_up:
  "map_of (count_up k cs) x =
     (if x = k then Some (case map_of cs k of None \<Rightarrow> 1 | Some c \<Rightarrow> Suc c) else map_of cs x)"
  by (induction k cs rule: count_up.induct) auto

lemma count_up_keys: "distinct (map fst cs) \<Longrightarrow> distinct (map fst (count_up k cs)) \<and>
    set (map fst (count_up k cs)) = insert k (set (map fst cs))"
  by (induction k cs rule: count_up.induct) auto

lemma node_counts_snoc:
  "node_counts (ns @ [n]) = count_up (node_state_value (state n), role n) (node_counts ns)"
  by (simp add: node_counts_def)

lemma node_counts_distinct: "distinct (map fst (node_counts ns))"
  by (induction ns rule: rev_induct) (simp_all add: node_counts_snoc count_up_keys, simp add: node_counts_def)

lemma count_by_snoc: "count_by k (ns @ [n]) = (if (node_state_value (state n), role n) = k then Suc (count_by k ns) else count_by k ns)"
  by (simp add: count_by_def)

lemma map_of_node_counts:
  "map_of (node_counts ns) k = (if count_by k ns = 0 then None else Some (count_by k ns))"
proof (induction ns rule: rev_induct)
  case Nil
  then show ?case by (simp add: node_counts_def count_by_def)
next
  case (snoc n ns)
  show ?case
  proof (cases "(node_state_value (state n), role n) = k")
    case True
    then show ?thesis using snoc
      by (simp only: node_counts_snoc map_of_count_up count_by_snoc) (simp split: if_splits)
  next
    case False
    then show ?thesis using snoc
      by (simp only: node_counts_snoc map_of_count_up count_by_snoc) auto
  qed
qed

lemma sum_count_up: "sum_list (map snd (count_up k cs)) = Suc (sum_list (map snd cs))"
  by (induction k cs rule: count_up.induct) auto

text \<open>The counts of the gauge add up to the number of nodes.\<close>

lemma sum_node_counts: "sum_list (map snd (node_counts ns)) = length ns"
  by (induction ns rule: rev_induct) (simp_all add: node_counts_snoc sum_count_up, simp add: node_counts_def)

lemma emit_all_eq: "emit_all es w = (Ok (), w\<lparr>trace := trace w @ es\<rparr>)"
  by (induction es arbitrary: w) (simp_all add: act_simps)

text \<open>With \<open>assume_utc\<close> the subtraction never raises.\<close>

lemma dt_sub_assume_utc [simp]: "dt_sub (Aware t) (assume_utc hb) = Ok (t - dt_micros hb)"
  by (cases hb) simp_all

definition ages :: "int \<Rightarrow> node list \<Rightarrow> effect list" where
  "ages t ns = concat (map (\<lambda>n. case last_heartbeat_at n of None \<Rightarrow> []
     | Some hb \<Rightarrow> [Heartbeat_Age_Set (node_id n) (t - dt_micros hb)]) ns)"

lemma set_ages_eq: "set_ages t ns w = (Ok (), w\<lparr>trace := trace w @ ages t ns\<rparr>)"
  by (induction ns arbitrary: w) (simp_all add: ages_def act_simps split: option.splits)

section \<open>The gauges after a trace\<close>

lemma nodes_gauge_sets:
  "distinct (map fst cs) \<Longrightarrow>
     fold apply_nodes_gauge (map (\<lambda>((st, r), c). Nodes_Total_Set st r c) cs) g =
     (\<lambda>k. case map_of cs k of None \<Rightarrow> g k | Some c \<Rightarrow> Some c)"
proof (induction cs arbitrary: g)
  case (Cons x cs)
  obtain st r c where x: "x = ((st, r), c)" by (metis prod.collapse)
  with Cons.prems have "map_of cs (st, r) = None" by (force simp: map_of_eq_None_iff)
  with Cons x show ?case by (auto simp: fun_eq_iff split: option.splits)
qed simp

lemma nodes_gauge_ages: "fold apply_nodes_gauge (ages t ns) g = g"
  by (induction ns) (simp_all add: ages_def split: option.splits)

lemma nodes_gauge_after:
  "nodes_gauge (es @ Nodes_Total_Clear # map (\<lambda>((st, r), c). Nodes_Total_Set st r c) (node_counts ns) @ ages t ns) k =
     (if count_by k ns = 0 then None else Some (count_by k ns))"
  by (simp add: nodes_gauge_def nodes_gauge_sets [OF node_counts_distinct] nodes_gauge_ages map_of_node_counts)

lemma age_gauge_append: "age_gauge (es @ fs) = fold apply_age_gauge fs (age_gauge es)"
  by (simp add: age_gauge_def)

lemma age_gauge_no_write:
  "(\<forall>e \<in> set es. \<forall>a b. e \<noteq> Heartbeat_Age_Set a b) \<Longrightarrow> fold apply_age_gauge es g = g"
proof (induction es arbitrary: g)
  case (Cons e es)
  then show ?case by (cases e) simp_all
qed simp

lemma ages_other:
  "\<forall>n \<in> set ns. node_id n = x \<longrightarrow> last_heartbeat_at n = None \<Longrightarrow> fold apply_age_gauge (ages t ns) g x = g x"
  by (induction ns arbitrary: g) (simp_all add: ages_def split: option.splits)

lemma ages_gauge:
  "distinct (map node_id ns) \<Longrightarrow> n \<in> set ns \<Longrightarrow> last_heartbeat_at n = Some hb \<Longrightarrow>
     fold apply_age_gauge (ages t ns) g (node_id n) = Some (t - dt_micros hb)"
proof (induction ns arbitrary: g)
  case (Cons m ns)
  have split: "ages t (m # ns) = ages t [m] @ ages t ns" by (simp add: ages_def)
  show ?case
  proof (cases "n = m")
    case True
    with Cons.prems have "node_id n \<notin> node_id ` set ns" by simp
    then have "\<forall>m \<in> set ns. node_id m \<noteq> node_id n" by (metis imageI)
    then show ?thesis using True Cons.prems by (simp add: split ages_other) (simp add: ages_def)
  next
    case False
    with Cons show ?thesis by (simp add: split)
  qed
qed simp

section \<open>A refresh\<close>

context orm_session begin

text \<open>Either the read raised, and no gauge was touched, or all were written.\<close>

lemma refresh_node_gauges_cases:
  assumes "refresh_node_gauges S w = (out, w')"
  obtains (fail) e s where "out = Raise e" "w' = w\<lparr>sess := s\<rparr>" "durable (abs s) = durable (abs (sess w))"
  | (ok) ns s where "out = Ok ()" "mset ns = mset (db_nodes (abs (sess w)))"
      "durable (abs s) = durable (abs (sess w))"
      "w' = w\<lparr>sess := s, reads := Suc (reads w), trace := trace w @ Nodes_Total_Clear #
        map (\<lambda>((st, r), c). Nodes_Total_Set st r c) (node_counts ns) @ ages (clock w (reads w)) ns\<rparr>"
proof -
  let ?o = "orm_open S (sess w)"
  let ?s = "orm_close S ?o"
  have d: "durable (abs ?s) = durable (abs (sess w))"
    by (simp add: close_law open_law)
  show thesis
  proof (cases "orm_nodes S ?o")
    case (Raise e)
    then have "read_nodes S w = (Raise e, w\<lparr>sess := ?s\<rparr>)"
      by (simp add: read_nodes_def act_simps finally_do_def db_read_def)
    then have "refresh_node_gauges S w = (Raise e, w\<lparr>sess := ?s\<rparr>)"
      by (simp add: refresh_node_gauges_def bnd_def)
    with assms d show thesis by (intro fail [of e ?s]) simp_all
  next
    case (Ok ns)
    then have "read_nodes S w = (Ok ns, w\<lparr>sess := ?s\<rparr>)"
      by (simp add: read_nodes_def act_simps finally_do_def db_read_def)
    then have "refresh_node_gauges S w =
      seqn (emit Nodes_Total_Clear)
        (seqn (set_counts (node_counts ns)) (bnd now (\<lambda>t. set_ages t ns))) (w\<lparr>sess := ?s\<rparr>)"
      by (simp add: refresh_node_gauges_def bnd_def)
    then have "refresh_node_gauges S w = (Ok (), w\<lparr>sess := ?s, reads := Suc (reads w), trace := trace w @ Nodes_Total_Clear #
        map (\<lambda>((st, r), c). Nodes_Total_Set st r c) (node_counts ns) @ ages (clock w (reads w)) ns\<rparr>)"
      by (simp add: set_counts_def seqn_Ok [OF emit_all_eq] act_simps set_ages_eq)
    moreover have "mset ns = mset (db_nodes (abs (sess w)))"
      using nodes_law [OF Ok] by (simp add: open_law st_rollback_def)
    ultimately show thesis using assms d by (intro ok [of ns ?s]) auto
  qed
qed

lemma gauge_iteration_frame:
  "durable (abs (sess (snd (gauge_iteration S z w)))) = durable (abs (sess w)) \<and>
   env_kept w (snd (gauge_iteration S z w))"
proof -
  obtain t where t: "snd (gauge_iteration S z w) =
      (snd (refresh_node_gauges S w))\<lparr>trace := trace (snd (refresh_node_gauges S w)) @ t\<rparr>"
    unfolding gauge_iteration_def by (rule guarded_pass_state)
  obtain out w' where r: "refresh_node_gauges S w = (out, w')" by (cases "refresh_node_gauges S w")
  then have "durable (abs (sess w')) = durable (abs (sess w)) \<and> env_kept w w'"
    by (cases rule: refresh_node_gauges_cases) (simp_all add: env_kept_def)
  then show ?thesis using t r by (simp add: env_kept_trace)
qed

lemma count_by_mset: "mset ns = mset ms \<Longrightarrow> count_by k ns = count_by k ms"
proof -
  assume "mset ns = mset ms"
  moreover have "count_by k xs = size (filter_mset (\<lambda>n. (node_state_value (state n), role n) = k) (mset xs))" for xs
    by (simp add: count_by_def flip: mset_filter)
  ultimately show ?thesis by simp
qed

end

context orm_live begin

lemma refresh_node_gauges_live:
  shows "fst (refresh_node_gauges S w) = Ok ()"
    and "nodes_gauge (trace (snd (refresh_node_gauges S w))) k =
      (if count_by k (db_nodes (abs (sess w))) = 0 then None else Some (count_by k (db_nodes (abs (sess w)))))"
    and "distinct (map node_id (db_nodes (abs (sess w)))) \<Longrightarrow> n \<in> set (db_nodes (abs (sess w))) \<Longrightarrow>
      last_heartbeat_at n = Some hb \<Longrightarrow>
      age_gauge (trace (snd (refresh_node_gauges S w))) (node_id n) = Some (clock w (reads w) - dt_micros hb)"
    and "\<forall>n \<in> set (db_nodes (abs (sess w))). node_id n = x \<longrightarrow> last_heartbeat_at n = None \<Longrightarrow>
      age_gauge (trace (snd (refresh_node_gauges S w))) x = age_gauge (trace w) x"
proof -
  obtain out w' where r: "refresh_node_gauges S w = (out, w')" by (cases "refresh_node_gauges S w")
  have "\<exists>ns. out = Ok () \<and> mset ns = mset (db_nodes (abs (sess w))) \<and> trace w' = trace w @ Nodes_Total_Clear #
      map (\<lambda>((st, r), c). Nodes_Total_Set st r c) (node_counts ns) @ ages (clock w (reads w)) ns"
    using r
  proof (cases rule: refresh_node_gauges_cases)
    case (fail e s)
    obtain ns where "orm_nodes S (orm_open S (sess w)) = Ok ns"
      using nodes_live [of "orm_open S (sess w)"] by (auto elim: is_ok.elims)
    with r fail(1) show ?thesis
      by (simp add: refresh_node_gauges_def read_nodes_def act_simps finally_do_def db_read_def bnd_def
          set_counts_def seqn_def emit_all_eq set_ages_eq emit_def now_def)
  next
    case (ok ns s)
    then show ?thesis by (intro exI [of _ ns]) simp
  qed
  then obtain ns where ns: "out = Ok ()" "mset ns = mset (db_nodes (abs (sess w)))"
    "trace w' = trace w @ Nodes_Total_Clear #
      map (\<lambda>((st, r), c). Nodes_Total_Set st r c) (node_counts ns) @ ages (clock w (reads w)) ns" by blast
  show "fst (refresh_node_gauges S w) = Ok ()" using r ns by simp
  show "nodes_gauge (trace (snd (refresh_node_gauges S w))) k =
      (if count_by k (db_nodes (abs (sess w))) = 0 then None else Some (count_by k (db_nodes (abs (sess w)))))"
    using r ns(3) count_by_mset [OF ns(2), of k] by (simp add: nodes_gauge_after)
  show "age_gauge (trace (snd (refresh_node_gauges S w))) (node_id n) = Some (clock w (reads w) - dt_micros hb)"
    if n: "distinct (map node_id (db_nodes (abs (sess w))))" "n \<in> set (db_nodes (abs (sess w)))" "last_heartbeat_at n = Some hb"
  proof -
    have "distinct (map node_id ns)" 
      using n(1) ns(2) mset_eq_imp_distinct_iff [of "map node_id ns" "map node_id (db_nodes (abs (sess w)))"] by simp
    moreover have "n \<in> set ns" using n(2) mset_eq_setD [OF ns(2)] by simp
    ultimately have "fold apply_age_gauge (ages (clock w (reads w)) ns) g (node_id n) = Some (clock w (reads w) - dt_micros hb)" for g
      using n(3) by (rule ages_gauge)
    then show ?thesis using r ns(3) by (simp add: age_gauge_def)
  qed
  show "age_gauge (trace (snd (refresh_node_gauges S w))) x = age_gauge (trace w) x"
    if "\<forall>n \<in> set (db_nodes (abs (sess w))). node_id n = x \<longrightarrow> last_heartbeat_at n = None"
  proof -
    have "fold apply_age_gauge (ages (clock w (reads w)) ns) g x = g x" for g
      by (rule ages_other) (use that mset_eq_setD [OF ns(2)] in simp)
    moreover have "fold apply_age_gauge (map (\<lambda>((st, r), c). Nodes_Total_Set st r c) (node_counts ns)) g = g" for g
      by (rule age_gauge_no_write) auto
    ultimately show ?thesis using r ns(3) by (simp add: age_gauge_def)
  qed
qed

end

end
