(* ===== verification/Fleet.thy ===== *)
theory Fleet
  imports Requests_Live Metrics_Hooks
begin

text \<open>
  The life of a controller process: requests, passes of the revocation loop and passes of the gauge
  loop, in any order, each running to its end before the next (a run of the event loop whose
  awaits do not interleave two writers). What every run keeps of the tables is proved here from the
  refinement of each request.
\<close>

datatype activity =
    Request headers request
  | Crl_pass "int set res \<times> unit res"
  | Gauge_pass "unit res"

fun serve :: "'s orm \<Rightarrow> controller_settings \<Rightarrow> activity \<Rightarrow> 's world \<Rightarrow> 's world" where
  "serve S cfg (Request h r) w = snd (run_request S cfg h r w)"
| "serve S cfg (Crl_pass i) w = snd (crl_iteration i w)"
| "serve S cfg (Gauge_pass z) w = snd (gauge_iteration S z w)"

fun serve_all :: "'s orm \<Rightarrow> controller_settings \<Rightarrow> activity list \<Rightarrow> 's world \<Rightarrow> 's world" where
  "serve_all S cfg [] w = w"
| "serve_all S cfg (a # as) w = serve_all S cfg as (serve S cfg a w)"

lemma serve_all_append: "serve_all S cfg (as @ bs) w = serve_all S cfg bs (serve_all S cfg as w)"
  by (induction as arbitrary: w) simp_all

section \<open>Enrolments are permanent\<close>

text \<open>What a row may become: the same node, its state possibly activated.\<close>

definition same_node :: "node \<Rightarrow> node \<Rightarrow> bool" where
  "same_node n n' \<longleftrightarrow> node_id n' = node_id n \<and> common_name n' = common_name n \<and> role n' = role n \<and>
     node_pk n' = node_pk n \<and> ip_address n' = ip_address n \<and> node_notes n' = node_notes n \<and>
     dt_micros (created_at n') = dt_micros (created_at n) \<and>
     (state n' = state n \<or> state n = ONBOARDING \<and> state n' = ACTIVE)"

lemma same_node_refl [simp]: "same_node n n"
  by (simp add: same_node_def)

lemma same_node_trans: "same_node a b \<Longrightarrow> same_node b c \<Longrightarrow> same_node a c"
  by (auto simp: same_node_def)

lemma row_step_same_node: "row_step R i n n' \<Longrightarrow> same_node n n'"
  by (auto simp: row_step_def same_node_def node_row_def naive_def split: if_splits)

text \<open>The rows of a table go on, in place, in a later one.\<close>

definition continues :: "node list \<Rightarrow> node list \<Rightarrow> bool" where
  "continues ns ns' \<longleftrightarrow> (\<exists>rows new. ns' = rows @ new \<and> list_all2 same_node ns rows)"

lemma continues_refl: "continues ns ns"
  unfolding continues_def by (intro exI [of _ ns] exI [of _ "[]"]) (simp add: list_all2_same)

lemma continues_trans: "continues a b \<Longrightarrow> continues b c \<Longrightarrow> continues a c"
proof -
  assume "continues a b" "continues b c"
  then obtain r1 n1 r2 n2 where b: "b = r1 @ n1" "list_all2 same_node a r1"
    and c: "c = r2 @ n2" "list_all2 same_node (r1 @ n1) r2"
    unfolding continues_def by blast
  from c(2) obtain u v where "r2 = u @ v" "list_all2 same_node r1 u"
    by (auto simp: list_all2_append1)
  moreover from this have "list_all2 same_node a u"
    using list_all2_trans [of same_node same_node same_node a r1 u] same_node_trans b(2) by blast
  ultimately show "continues a c"
    unfolding continues_def c(1) by (intro exI [of _ u] exI [of _ "v @ n2"]) simp
qed

lemma spec_step_continues:
  assumes "spec_step R i d d'" and "store_ok d"
  shows "continues (fst d) (fst d')"
proof -
  obtain rows new where "fst d' = rows @ new" "list_all2 (row_step R i) (fst d) rows"
    using spec_step_rows [OF assms] by blast
  then show ?thesis unfolding continues_def by (metis list_all2_mono row_step_same_node)
qed

lemma continuesD:
  assumes "continues ns ns'" and "n \<in> set ns"
  obtains n' where "n' \<in> set ns'" and "same_node n n'"
proof -
  obtain rows new where r: "ns' = rows @ new" "list_all2 same_node ns rows"
    using assms(1) unfolding continues_def by blast
  then obtain n' where "n' \<in> set rows" "same_node n n'"
    using list_all2_mem1 [OF r(2) assms(2)] by blast
  with r show thesis by (intro that [of n']) simp_all
qed

section \<open>Invariants of a run\<close>

context orm_session begin

lemma serve_step:
  "durable (abs (sess (serve S cfg a w))) = durable (abs (sess w)) \<or>
   (\<exists>R i. spec_step R i (durable (abs (sess w))) (durable (abs (sess (serve S cfg a w)))))"
proof (cases a)
  case (Request h r)
  obtain out w' where run: "run_request S cfg h r w = (out, w')" by (cases "run_request S cfg h r w")
  with run_request_refines [OF run] show ?thesis unfolding Request serve.simps by auto
next
  case (Crl_pass i)
  then show ?thesis by (simp add: crl_iteration_frame)
next
  case (Gauge_pass z)
  then show ?thesis using gauge_iteration_frame [of z w] by simp
qed

lemma serve_all_invariant:
  assumes "\<And>R i d d'. spec_step R i d d' \<Longrightarrow> store_ok d \<Longrightarrow> P d \<Longrightarrow> P d'"
    and "store_ok (durable (abs (sess w)))" and "P (durable (abs (sess w)))"
  shows "store_ok (durable (abs (sess (serve_all S cfg as w)))) \<and> P (durable (abs (sess (serve_all S cfg as w))))"
  using assms(2,3)
proof (induction "as" arbitrary: w)
  case (Cons a as)
  have "store_ok (durable (abs (sess (serve S cfg a w)))) \<and> P (durable (abs (sess (serve S cfg a w))))"
    using serve_step [of cfg a w]
  proof (elim disjE exE)
    fix R i assume s: "spec_step R i (durable (abs (sess w))) (durable (abs (sess (serve S cfg a w))))"
    show ?thesis using spec_step_store_ok [OF s] assms(1) [OF s] Cons.prems by blast
  qed (use Cons.prems in simp)
  then show ?case using Cons.IH [of "serve S cfg a w"] by simp
qed simp

lemma serve_all_audit_prefix:
  assumes "store_ok (durable (abs (sess w)))"
  shows "prefix (snd (durable (abs (sess w)))) (snd (durable (abs (sess (serve_all S cfg as w)))))"
proof -
  have step: "prefix (snd (durable (abs (sess w)))) (snd d')"
    if "spec_step R i d d'" "store_ok d" "prefix (snd (durable (abs (sess w)))) (snd d)" for R i d d'
    using that(3) spec_step_audit_prefix [OF that(1)] by (rule prefix_order.trans)
  from serve_all_invariant [of "\<lambda>d. prefix (snd (durable (abs (sess w)))) (snd d)", OF step assms]
  show ?thesis by simp
qed

lemma serve_all_continues:
  assumes "store_ok (durable (abs (sess w)))"
  shows "continues (fst (durable (abs (sess w)))) (fst (durable (abs (sess (serve_all S cfg as w)))))"
proof -
  have step: "continues (fst (durable (abs (sess w)))) (fst d')"
    if "spec_step R i d d'" "store_ok d" "continues (fst (durable (abs (sess w)))) (fst d)" for R i d d'
    using that(3) spec_step_continues [OF that(1,2)] by (rule continues_trans)
  from serve_all_invariant [of "\<lambda>d. continues (fst (durable (abs (sess w)))) (fst d)", OF step assms]
  show ?thesis by (simp add: continues_refl)
qed

lemma serve_all_accounted:
  assumes "store_ok (durable (abs (sess w)))" and "accounted (durable (abs (sess w)))"
  shows "accounted (durable (abs (sess (serve_all S cfg as w))))"
  using serve_all_invariant [of accounted, OF spec_step_accounted assms] by simp

lemma serve_all_activated_once:
  assumes "store_ok (durable (abs (sess w)))" and "activated_once (durable (abs (sess w)))"
  shows "activated_once (durable (abs (sess (serve_all S cfg as w))))"
  using serve_all_invariant [of activated_once, OF spec_step_activated_once assms] by simp

text \<open>What one request may do to the rows, and on whose behalf.\<close>

lemma run_request_rows:
  assumes "store_ok (durable (abs (sess w)))" and "\<not> allow_unauthenticated cfg"
    and "run_request S cfg h req w = (out, w')"
    and "n' \<in> set (fst (durable (abs (sess w'))))" and "n' \<notin> set (fst (durable (abs (sess w))))"
  shows "\<exists>i. identity_of h = Some i \<and> live (revoked_serials w) i \<and>
    ((\<exists>n \<in> set (fst (durable (abs (sess w)))). common_name n = id_common_name i \<and> same_node n n') \<or>
     last_heartbeat_at n' = None \<and> may_register i (node_base.truncate n'))"
proof -
  have "durable (abs (sess w')) \<noteq> durable (abs (sess w))" using assms(4,5) by auto
  with run_request_refines [OF assms(3)] obtain i w1 where g: "get_mtls_identity cfg h w = (Ok i, w1)"
    and s: "spec_step (revoked_serials w) i (durable (abs (sess w))) (durable (abs (sess w')))"
    by blast
  have i: "identity_of h = Some i" using get_mtls_identity_identity [OF g] assms(2) by blast
  obtain rows new where r: "fst (durable (abs (sess w'))) = rows @ new"
    "list_all2 (row_step (revoked_serials w) i) (fst (durable (abs (sess w)))) rows"
    "\<forall>n \<in> set new. enrolled (revoked_serials w) i n"
    using spec_step_rows [OF s assms(1)] by blast
  from assms(4) r(1) consider "n' \<in> set rows" | "n' \<in> set new" by auto
  then show ?thesis
  proof cases
    case 1
    then obtain n where n: "n \<in> set (fst (durable (abs (sess w))))" "row_step (revoked_serials w) i n n'"
      using list_all2_mem2 [OF r(2)] by blast
    with assms(5) have "live (revoked_serials w) i" "common_name n = id_common_name i"
      by (auto simp: row_step_def)
    with n i row_step_same_node [OF n(2)] show ?thesis by blast
  next
    case 2
    with r(3) i show ?thesis by (auto simp: enrolled_def)
  qed
qed

end

end
