(* ===== verification/Log_Levels.thy ===== *)
theory Log_Levels
  imports Runtime
begin

text \<open>
  The logging set-up of both programs, \<open>controller/app/core/logging.py\<close> and
  \<open>node-agent/app/logging_setup.py\<close>: which level they install and which of their own log lines pass
  the filter \<open>structlog.make_filtering_bound_logger\<close> puts before the renderer. The processors and
  the stream are structlog's and the standard library's.
\<close>

text \<open>\<open>str.upper\<close> on ASCII.\<close>

definition upper_char :: "char \<Rightarrow> char" where
  "upper_char c = (let k = (of_char c :: nat) in if 97 \<le> k \<and> k \<le> 122 then char_of (k - 32) else c)"

definition py_upper :: "string \<Rightarrow> string" where
  "py_upper s = map upper_char s"

text \<open>\<open>logging.\_nameToLevel\<close>; the module's upper-case integer attributes are the same.\<close>

definition name_to_level :: "(string \<times> int) list" where
  "name_to_level =
     [(''CRITICAL'', 50), (''FATAL'', 50), (''ERROR'', 40), (''WARN'', 30), (''WARNING'', 30),
      (''INFO'', 20), (''DEBUG'', 10), (''NOTSET'', 0)]"

text \<open>
  Controller: \<open>getattr(logging, level.upper())\<close> raises for a name that is no attribute; the
  attribute \<open>BASIC_FORMAT\<close> is a string, which \<open>basicConfig\<close> takes for an unknown level.
\<close>

definition configure_logging :: "string \<Rightarrow> int res" where
  "configure_logging level =
     (case map_of name_to_level (py_upper level) of
        Some n \<Rightarrow> Ok n
      | None \<Rightarrow>
          if py_upper level = ''BASIC_FORMAT'' then Raise (ValueError ''Unknown level'')
          else Raise (OtherException ''AttributeError''))"

text \<open>Agent: \<open>basicConfig(level=...)\<close> refuses an unknown name before \<open>\_nameToLevel\<close> is read.\<close>

definition agent_configure :: "string \<Rightarrow> int res" where
  "agent_configure log_level =
     (case map_of name_to_level (py_upper log_level) of
        None \<Rightarrow> Raise (ValueError (''Unknown level: '' @ py_upper log_level))
      | Some n \<Rightarrow> Ok n)"

fun method_level :: "log_method \<Rightarrow> int" where
  "method_level Info = 20"
| "method_level Warning = 30"
| "method_level Error = 40"
| "method_level Exception_Trace = 40"

text \<open>The log lines that reach the output at a level.\<close>

fun rendered :: "int \<Rightarrow> effect \<Rightarrow> bool" where
  "rendered lvl (Log _ m _ _) = (lvl \<le> method_level m)"
| "rendered _ _ = True"

lemma method_level_ge: "20 \<le> method_level m"
  by (cases m) simp_all

lemma rendered_mono: "rendered b e \<Longrightarrow> a \<le> b \<Longrightarrow> rendered a e"
  by (cases e) auto

lemma rendered_at_info: "lvl \<le> 20 \<Longrightarrow> rendered lvl e"
  by (cases e) (use method_level_ge order.trans in auto)

lemma configure_levels:
  "configure_logging level = Ok n \<Longrightarrow> n \<in> {0, 10, 20, 30, 40, 50}"
  by (auto simp: configure_logging_def name_to_level_def split: option.splits if_splits)

text \<open>Where both accept a name they install the same level.\<close>

lemma configures_agree: "configure_logging level = Ok n \<longleftrightarrow> agent_configure level = Ok n"
  by (auto simp: configure_logging_def agent_configure_def split: option.splits if_splits)

section \<open>Severity\<close>

text \<open>The methods in the order of their severity, \<open>exception\<close> above \<open>error\<close> at the same level.\<close>

fun severity :: "log_method \<Rightarrow> nat" where
  "severity Info = 0"
| "severity Warning = 1"
| "severity Error = 2"
| "severity Exception_Trace = 3"

instantiation log_method :: linorder
begin

definition less_eq_log_method :: "log_method \<Rightarrow> log_method \<Rightarrow> bool" where
  "less_eq_log_method a b \<longleftrightarrow> severity a \<le> severity b"

definition less_log_method :: "log_method \<Rightarrow> log_method \<Rightarrow> bool" where
  "less_log_method a b \<longleftrightarrow> severity a < severity b"

instance
proof
  fix a b :: log_method
  show "a \<le> b \<Longrightarrow> b \<le> a \<Longrightarrow> a = b"
    by (cases a; cases b) (simp_all add: less_eq_log_method_def)
qed (auto simp: less_eq_log_method_def less_log_method_def)

end

lemma method_level_mono: "mono method_level"
  by (rule monoI) (rename_tac a b, case_tac a; case_tac b; simp add: less_eq_log_method_def)

text \<open>A line passes the filter whenever a less severe one does.\<close>

lemma rendered_severity: "a \<le> b \<Longrightarrow> rendered lvl (Log x a y z) \<Longrightarrow> rendered lvl (Log x' b y' z')"
  using monoD [OF method_level_mono, of a b] by simp

end
