(* ===== verification/Controller_Main.thy ===== *)
theory Controller_Main
  imports Fleet Log_Levels
begin

text \<open>
  What surrounds the requests: the declarations of \<open>app/core/metrics.py\<close>, \<open>init_db\<close> of
  \<open>app/db/session.py\<close>, and the start and the end of the process, \<open>lifespan\<close> of \<open>app/main.py\<close>.
\<close>

section \<open>The declared metrics\<close>

datatype metric_kind = Counter | Gauge | Histogram

record metric =
  m_kind :: metric_kind
  m_name :: string
  m_labels :: "string list"

definition nodes_total :: metric where
  "nodes_total = \<lparr>m_kind = Gauge, m_name = ''thesis_nodes_total'', m_labels = [''state'', ''role'']\<rparr>"

definition mtls_auth_total :: metric where
  "mtls_auth_total = \<lparr>m_kind = Counter, m_name = ''thesis_mtls_auth_total'', m_labels = [''result'']\<rparr>"

definition audit_events_total :: metric where
  "audit_events_total =
     \<lparr>m_kind = Counter, m_name = ''thesis_audit_events_total'', m_labels = [''action'', ''result'']\<rparr>"

definition node_last_heartbeat_seconds :: metric where
  "node_last_heartbeat_seconds =
     \<lparr>m_kind = Gauge, m_name = ''thesis_node_last_heartbeat_seconds'', m_labels = [''node_id'']\<rparr>"

definition cert_issued_total :: metric where
  "cert_issued_total =
     \<lparr>m_kind = Counter, m_name = ''thesis_cert_issued_total'', m_labels = [''provisioner'']\<rparr>"

definition db_operation_duration :: metric where
  "db_operation_duration =
     \<lparr>m_kind = Histogram, m_name = ''thesis_db_operation_duration_seconds'', m_labels = [''operation'']\<rparr>"

text \<open>The metric a write goes to, with the label values it gives.\<close>

fun metric_of :: "effect \<Rightarrow> (metric \<times> string list) option" where
  "metric_of (Log _ _ _ _) = None"
| "metric_of (Mtls_Auth_Inc r) = Some (mtls_auth_total, [r])"
| "metric_of (Audit_Events_Inc a r) = Some (audit_events_total, [a, r])"
| "metric_of Nodes_Total_Clear = None"
| "metric_of (Nodes_Total_Set st r _) = Some (nodes_total, [st, r])"
| "metric_of (Heartbeat_Age_Set x _) = Some (node_last_heartbeat_seconds, [x])"

lemma metric_of_labels: "metric_of e = Some (m, vs) \<Longrightarrow> length vs = length (m_labels m)"
  by (cases e) (auto simp: mtls_auth_total_def audit_events_total_def nodes_total_def
      node_last_heartbeat_seconds_def)

section \<open>The engine\<close>

text \<open>What \<open>create_async_engine\<close> and \<open>async_sessionmaker\<close> are given.\<close>

record engine_options =
  engine_url :: string
  echo :: bool
  future :: bool
  check_same_thread :: bool

definition engine :: "controller_settings \<Rightarrow> engine_options" where
  "engine cfg = \<lparr>engine_url = database_url cfg, echo = database_echo cfg, future = True, check_same_thread = False\<rparr>"

text \<open>
  Neither option is a matter of performance only: what a handler reads of an object after its commit
  is what it had before (\<open>refresh\<close> reads it again), and a query does not flush what was added.
\<close>

record session_options =
  expire_on_commit :: bool
  autoflush :: bool

definition AsyncSessionFactory :: session_options where
  "AsyncSessionFactory = \<lparr>expire_on_commit = False, autoflush = False\<rparr>"

section \<open>init\_db\<close>

definition init_pragmas :: "string list" where
  "init_pragmas = [''PRAGMA journal_mode=WAL'', ''PRAGMA foreign_keys=ON'', ''PRAGMA synchronous=NORMAL'']"

text \<open>\<open>connect_pragmas\<close> is what the listener runs on every new connection.\<close>

definition connect_pragmas :: "string list" where
  "connect_pragmas = [''PRAGMA foreign_keys=ON'']"

text \<open>
  The engine is a parameter: what connecting and beginning the transaction gives, a statement, the
  creation of the tables, the commit at the end of the block and the rollback of one that failed.
\<close>

record engine_calls =
  begin_call :: "unit res"
  execute_call :: "string \<Rightarrow> unit res"
  create_all_call :: "unit res"
  commit_call :: "unit res"
  rollback_call :: "unit res"

text \<open>\<open>async with engine.begin()\<close>: an exception of the rollback takes the place of the one that caused it.\<close>

definition rolled_back :: "engine_calls \<Rightarrow> exn \<Rightarrow> exn" where
  "rolled_back E e = (case rollback_call E of Ok _ \<Rightarrow> e | Raise e' \<Rightarrow> e')"

definition engine_begin :: "engine_calls \<Rightarrow> ('w, unit) act \<Rightarrow> ('w, unit) act" where
  "engine_begin E block w =
     (case begin_call E of
        Raise e \<Rightarrow> (Raise e, w)
      | Ok _ \<Rightarrow>
          (case seqn block (\<lambda>w. (commit_call E, w)) w of
             (Ok _, w') \<Rightarrow> (Ok (), w')
           | (Raise e, w') \<Rightarrow> (Raise (rolled_back E e), w')))"

fun execute_all :: "(string \<Rightarrow> unit res) \<Rightarrow> string list \<Rightarrow> ('w, unit) act" where
  "execute_all execute [] = ret ()"
| "execute_all execute (q # qs) = seqn (\<lambda>w. (execute q, w)) (execute_all execute qs)"

definition init_db :: "controller_settings \<Rightarrow> engine_calls \<Rightarrow> ('s world, unit) act" where
  "init_db cfg E =
     seqn (emit (Log ''db'' Info ''db_initializing'' [(''url'', PStr (database_url cfg))]))
    (seqn (engine_begin E
             (seqn (execute_all (execute_call E) init_pragmas) (\<lambda>w. (create_all_call E, w))))
          (emit (Log ''db'' Info ''db_initialized'' [])))"

section \<open>lifespan\<close>

definition lifespan_startup :: "controller_settings \<Rightarrow> engine_calls \<Rightarrow> ('s world, unit) act" where
  "lifespan_startup cfg E =
     bnd (\<lambda>w. (configure_logging ''INFO'', w)) (\<lambda>_.
       seqn (emit (Log ''startup'' Info ''controller_starting''
                    [(''service'', PStr (service_name cfg)), (''version'', PStr (service_version cfg)),
                     (''environment'', PStr (environment cfg))]))
            (init_db cfg E))"

text \<open>
  The end: each task in turn is cancelled and awaited, its \<open>CancelledError\<close> dropped. The argument is
  what awaiting each task gave, the list of the gauge task and the CRL task; the result tells how
  many tasks were cancelled.
\<close>

fun cancel_tasks :: "unit res list \<Rightarrow> nat \<Rightarrow> unit res \<times> nat" where
  "cancel_tasks [] k = (Ok (), k)"
| "cancel_tasks (Ok _ # rs) k = cancel_tasks rs (Suc k)"
| "cancel_tasks (Raise e # rs) k =
     (if e = CancelledError then cancel_tasks rs (Suc k) else (Raise e, Suc k))"

definition lifespan_shutdown :: "unit res \<Rightarrow> unit res \<Rightarrow> ('s world, nat) act" where
  "lifespan_shutdown gauge_task crl_task =
     seqn (emit (Log ''startup'' Info ''controller_stopping'' []))
       (case cancel_tasks [gauge_task, crl_task] 0 of
          (Ok _, k) \<Rightarrow> ret k
        | (Raise e, k) \<Rightarrow> throw e)"

text \<open>
  The whole: \<open>served\<close> is what the process does between start and end. An exception before the
  \<open>yield\<close> ends the process: nothing is served, and no task is created.
\<close>

definition lifespan :: "controller_settings \<Rightarrow> engine_calls \<Rightarrow> ('s world, unit) act
    \<Rightarrow> unit res \<Rightarrow> unit res \<Rightarrow> ('s world, nat) act" where
  "lifespan cfg E served gauge_task crl_task =
     seqn (lifespan_startup cfg E)
    (seqn served (lifespan_shutdown gauge_task crl_task))"

text \<open>The exception of \<open>init_db\<close>: the first of its calls on the engine that raises.\<close>

definition init_failure :: "engine_calls \<Rightarrow> exn option" where
  "init_failure E =
     (case begin_call E of
        Raise e \<Rightarrow> Some e
      | Ok _ \<Rightarrow>
          (case find (\<lambda>r. r \<noteq> Ok ()) (map (execute_call E) init_pragmas @ [create_all_call E, commit_call E]) of
             Some (Raise e) \<Rightarrow> Some (rolled_back E e)
           | _ \<Rightarrow> None))"

lemma execute_all_eq:
  "execute_all execute qs w =
     (case find (\<lambda>q. execute q \<noteq> Ok ()) qs of None \<Rightarrow> Ok () | Some q \<Rightarrow> execute q, w)"
  by (induction qs) (auto simp: act_simps seqn_def bnd_def split: res.splits)

lemma cancel_tasks_all:
  "\<forall>r \<in> set rs. r \<in> {Ok (), Raise CancelledError} \<Longrightarrow> cancel_tasks rs k = (Ok (), k + length rs)"
  by (induction rs k rule: cancel_tasks.induct) auto

text \<open>A loop that ends without a cancellation of its sleeps or fetches does not exist.\<close>

definition cancellation_only :: "unit res \<Rightarrow> bool" where
  "cancellation_only r \<longleftrightarrow> r \<in> {Ok (), Raise CancelledError}"

lemma guarded_pass_outcome:
  assumes "\<And>e. fst (body w) = Raise e \<Longrightarrow> \<not> is_Exception e \<Longrightarrow> e = CancelledError"
    and "cancellation_only sleep"
  shows "cancellation_only (fst (guarded_pass logger event body sleep w))"
proof (cases "body w")
  case (Pair r w')
  then show ?thesis
    using assms by (cases r) (auto simp: guarded_pass_def cancellation_only_def act_simps)
qed

lemma every_outcome:
  assumes "\<And>i w. i \<in> set is \<Longrightarrow> cancellation_only (fst (pass i w))"
  shows "cancellation_only (fst (every pass is w))"
  using assms
proof (induction "is" arbitrary: w)
  case Nil
  then show ?case by (simp add: cancellation_only_def ret_def)
next
  case (Cons i "is")
  obtain r w1 where p: "pass i w = (r, w1)" by (cases "pass i w")
  have "cancellation_only r" using Cons.prems [of i w] p by simp
  with p Cons show ?case by (cases r) (simp_all add: seqn_def bnd_def)
qed

text \<open>Start: three log lines and the database set up, or the first failure after two lines.\<close>

definition start_lines :: "controller_settings \<Rightarrow> effect list" where
  "start_lines cfg =
     [Log ''startup'' Info ''controller_starting''
        [(''service'', PStr (service_name cfg)), (''version'', PStr (service_version cfg)),
         (''environment'', PStr (environment cfg))],
      Log ''db'' Info ''db_initializing'' [(''url'', PStr (database_url cfg))]]"

lemma find_not_Ok: "find (\<lambda>r. r \<noteq> Ok ()) rs \<noteq> Some (Ok ())"
  by (auto simp: find_Some_iff)

lemma seqn_const [act_simps]: "seqn (\<lambda>w. (r, w)) m w = (case r of Ok _ \<Rightarrow> m w | Raise e \<Rightarrow> (Raise e, w))"
  by (simp add: seqn_def bnd_def split: res.splits)

lemma init_db_eq:
  "init_db cfg E w =
     (case init_failure E of
        Some e \<Rightarrow> (Raise e, w\<lparr>trace := trace w @ [Log ''db'' Info ''db_initializing'' [(''url'', PStr (database_url cfg))]]\<rparr>)
      | None \<Rightarrow> (Ok (), w\<lparr>trace := trace w @ [Log ''db'' Info ''db_initializing'' [(''url'', PStr (database_url cfg))],
          Log ''db'' Info ''db_initialized'' []]\<rparr>))"
proof -
  have "engine_begin E (seqn (execute_all (execute_call E) init_pragmas) (\<lambda>w. (create_all_call E, w))) v =
      (case init_failure E of Some e \<Rightarrow> (Raise e, v) | None \<Rightarrow> (Ok (), v))" for v :: "'a world"
    by (simp add: engine_begin_def init_failure_def init_pragmas_def act_simps seqn_def bnd_def ret_def split: res.splits)
  then show ?thesis by (simp add: init_db_def act_simps seqn_def bnd_def split: option.splits)
qed

lemma lifespan_startup_eq:
  "lifespan_startup cfg E w =
     (case init_failure E of
        Some e \<Rightarrow> (Raise e, w\<lparr>trace := trace w @ start_lines cfg\<rparr>)
      | None \<Rightarrow> (Ok (), w\<lparr>trace := trace w @ start_lines cfg @ [Log ''db'' Info ''db_initialized'' []]\<rparr>))"
proof -
  have l: "configure_logging ''INFO'' = Ok 20" by code_simp
  show ?thesis
    by (simp add: lifespan_startup_def l bnd_def seqn_emit init_db_eq start_lines_def split: option.splits)
qed

lemma lifespan_eq:
  assumes "cancellation_only g" and "cancellation_only c"
  shows "lifespan cfg E served g c w =
     (case init_failure E of
        Some e \<Rightarrow> (Raise e, w\<lparr>trace := trace w @ start_lines cfg\<rparr>)
      | None \<Rightarrow>
          (case served (w\<lparr>trace := trace w @ start_lines cfg @ [Log ''db'' Info ''db_initialized'' []]\<rparr>) of
             (Raise e, w') \<Rightarrow> (Raise e, w')
           | (Ok _, w') \<Rightarrow> (Ok 2, w'\<lparr>trace := trace w' @ [Log ''startup'' Info ''controller_stopping'' []]\<rparr>)))"
proof -
  have "cancel_tasks [g, c] 0 = (Ok (), 2)"
    using assms cancel_tasks_all [of "[g, c]" 0] by (simp add: cancellation_only_def)
  then have s: "lifespan_shutdown g c v = (Ok 2, v\<lparr>trace := trace v @ [Log ''startup'' Info ''controller_stopping'' []]\<rparr>)" for v :: "'b world"
    by (simp add: lifespan_shutdown_def act_simps del: cancel_tasks.simps)
  show ?thesis
    by (simp add: lifespan_def seqn_def bnd_def lifespan_startup_eq s split: option.splits prod.splits res.splits)
qed

end
