(* ===== verification/Agent_Config.thy ===== *)
theory Agent_Config
  imports Py_Str Complex_Main
begin

text \<open>
  \<open>node-agent/app/config.py\<close>: the agent's settings, their defaults, the bounds pydantic checks and
  the two functions the class adds. The setting \<open>node_id\<close> is named \<open>agent_node_id\<close>, since
  \<open>node_id\<close> is a column of the controller. Reading the environment is pydantic's: the values it
  found are the argument of \<open>Settings\<close>.
\<close>

record agent_settings =
  agent_node_id :: string
  node_common_name :: string
  node_role :: string
  controller_url :: string
  controller_ca :: string
  client_cert :: string
  client_key :: string
  heartbeat_interval :: int
  heartbeat_jitter :: int
  metrics_port :: int
  metrics_bind :: string
  allowed_scraper_cns :: string
  log_level :: string

definition agent_defaults :: agent_settings where
  "agent_defaults =
     \<lparr>agent_node_id = ''pi-01'', node_common_name = ''pi-01.thesis.local'', node_role = ''valid'',
      controller_url = ''https://controller.thesis.local'',
      controller_ca = ''/etc/thesis-lab/certs/ca-root.crt'',
      client_cert = ''/etc/thesis-lab/certs/pi-01.crt'', client_key = ''/etc/thesis-lab/certs/pi-01.key'',
      heartbeat_interval = 30, heartbeat_jitter = 5,
      metrics_port = 9100, metrics_bind = ''0.0.0.0'',
      allowed_scraper_cns = ''prometheus.thesis.local'', log_level = ''INFO''\<rparr>"

text \<open>The bounds \<open>ge\<close> and \<open>le\<close> of the fields.\<close>

definition agent_bounds :: "agent_settings \<Rightarrow> bool" where
  "agent_bounds s \<longleftrightarrow> 5 \<le> heartbeat_interval s \<and> 0 \<le> heartbeat_jitter s \<and>
     1 \<le> metrics_port s \<and> metrics_port s \<le> 65535"

definition strip_trailing_slash :: "string \<Rightarrow> string" where
  "strip_trailing_slash v = py_rstrip_char (CHR ''/'') v"

text \<open>A default is not validated, but the default URL has no slash to strip.\<close>

definition Settings :: "agent_settings \<Rightarrow> agent_settings res" where
  "Settings raw =
     (if agent_bounds raw then Ok (raw\<lparr>controller_url := strip_trailing_slash (controller_url raw)\<rparr>)
      else Raise (ValueError ''ValidationError''))"

definition allowed_cns_set :: "agent_settings \<Rightarrow> string set" where
  "allowed_cns_set s =
     set (map py_strip (filter (\<lambda>p. py_strip p \<noteq> []) (py_split (CHR '','') (allowed_scraper_cns s))))"

section \<open>The settings a process runs with\<close>

lemma SettingsD:
  assumes "Settings raw = Ok s"
  shows "agent_bounds s" and "controller_url s = [] \<or> last (controller_url s) \<noteq> CHR ''/''"
    and "\<exists>n. controller_url raw = controller_url s @ replicate n (CHR ''/'')"
  using assms py_rstrip_char_last [of "CHR ''/''" "controller_url raw"]
    py_rstrip_char_prefix [of "controller_url raw" "CHR ''/''"]
  by (auto simp: Settings_def agent_bounds_def strip_trailing_slash_def split: if_splits)

section \<open>The list of scrapers\<close>

lemma allowed_cns_set_iff:
  "c \<in> allowed_cns_set s \<longleftrightarrow> c \<noteq> [] \<and> (\<exists>p \<in> set (py_split (CHR '','') (allowed_scraper_cns s)). c = py_strip p)"
  by (auto simp: allowed_cns_set_def)

lemma py_split_append: "d \<notin> set p \<Longrightarrow> py_split d (p @ d # q) = p # py_split d q"
  by (induction p) (auto split: list.splits)

lemma py_split_single: "d \<notin> set p \<Longrightarrow> py_split d p = [p]"
  by (induction p) (auto split: list.splits)

lemma py_split_join:
  "ps \<noteq> [] \<Longrightarrow> \<forall>p \<in> set ps. d \<notin> set p \<Longrightarrow> py_split d (py_join d ps) = ps"
proof (induction d ps rule: py_join.induct)
  case (2 d p)
  then show ?case by (simp add: py_split_single)
next
  case (3 d p q ps)
  then show ?case by (simp add: py_split_append)
qed simp

text \<open>A name that is a common name: no comma, no white space around it, not empty.\<close>

definition listable :: "string \<Rightarrow> bool" where
  "listable c \<longleftrightarrow> c \<noteq> [] \<and> CHR '','' \<notin> set c \<and> py_strip c = c"

lemma allowed_cns_join:
  assumes "cns \<noteq> []" and "\<forall>c \<in> set cns. listable c"
  shows "allowed_cns_set (s\<lparr>allowed_scraper_cns := py_join (CHR '','') cns\<rparr>) = set cns"
  using assms by (auto simp: set_eq_iff allowed_cns_set_iff py_split_join listable_def)

lemma py_split_comma_free: "c \<in> allowed_cns_set s \<Longrightarrow> CHR '','' \<notin> set c"
proof -
  assume "c \<in> allowed_cns_set s"
  then obtain p where p: "p \<in> set (py_split (CHR '','') (allowed_scraper_cns s))" "c = py_strip p"
    by (auto simp: allowed_cns_set_iff)
  then have "CHR '','' \<notin> set p" using py_split_no_sep by blast
  then show ?thesis using p(2) by (auto simp: py_strip_def dest!: set_dropWhileD)
qed

end
