(* ===== verification/Http_Client.thy ===== *)
theory Http_Client
  imports Agent_Config Background
begin

text \<open>
  \<open>node-agent/app/http_client.py\<close>: registration and heartbeat as calls to the controller's API.
  The agent's actions run on the trace of what it does outside the process. The HTTP library, the
  socket and the TLS context are parameters: each call's outcome is an argument, and so is
  \<open>Response.raise_for_status\<close>, whose documented behaviour is the locale \<open>http_status\<close>.
\<close>

section \<open>Effects and responses\<close>

datatype agent_effect =
    Agent_Log string log_method string "(string \<times> pyval) list"
  | Heartbeats_Inc string
  | Post string "(string \<times> pyval) list"
  | Sleep rat
  | Socket_Close
  | Client_Close
  | Runner_Cleanup

type_synonym 'a agent_act = "(agent_effect list, 'a) act"

definition perform :: "agent_effect \<Rightarrow> unit agent_act" where
  "perform e t = (Ok (), t @ [e])"

text \<open>What a call outside gave.\<close>

definition got :: "'a res \<Rightarrow> 'a agent_act" where
  "got r t = (r, t)"

lemma perform_eq [act_simps]: "perform e t = (Ok (), t @ [e])"
  by (simp add: perform_def)

lemma got_eq [act_simps]: "got r t = (r, t)"
  by (simp add: got_def)

lemma seqn_perform [act_simps]: "seqn (perform e) m t = m (t @ [e])"
  by (simp add: seqn_Ok [OF perform_eq])

lemma bnd_got [act_simps]: "bnd (got r) f t = (case r of Ok a \<Rightarrow> f a t | Raise e \<Rightarrow> (Raise e, t))"
  by (simp add: bnd_def got_def split: res.splits)

lemma seqn_got [act_simps]: "seqn (got r) m t = (case r of Ok _ \<Rightarrow> m t | Raise e \<Rightarrow> (Raise e, t))"
  by (simp add: seqn_def bnd_got)

record http_response =
  status_code :: int
  json :: "pyval res"

text \<open>\<open>except httpx.HTTPError\<close>: transport errors and the error of \<open>raise_for_status\<close>.\<close>

fun is_HTTPError :: "exn \<Rightarrow> bool" where
  "is_HTTPError (HTTPError _) = True"
| "is_HTTPError _ = False"

fun str_exc :: "exn \<Rightarrow> string" where
  "str_exc (HTTPError m) = m"
| "str_exc (RuntimeError m) = m"
| "str_exc (ValueError m) = m"
| "str_exc (TypeError m) = m"
| "str_exc (DatabaseError m) = m"
| "str_exc (KeyError m) = [CHR 0x27] @ m @ [CHR 0x27]"
| "str_exc (OtherException m) = m"
| "str_exc _ = []"

locale http_status =
  fixes raise_for_status :: "http_response \<Rightarrow> unit res"
  assumes success_law: "200 \<le> status_code r \<Longrightarrow> status_code r < 300 \<Longrightarrow> raise_for_status r = Ok ()"
    and error_law: "status_code r < 200 \<or> 300 \<le> status_code r \<Longrightarrow> \<exists>m. raise_for_status r = Raise (HTTPError m)"
begin

lemma raise_for_status_Ok_iff:
  "raise_for_status r = Ok () \<longleftrightarrow> 200 \<le> status_code r \<and> status_code r < 300"
  using success_law [of r] error_law [of r] by force

lemma raise_for_status_cases:
  obtains (success) "200 \<le> status_code r" "status_code r < 300" "raise_for_status r = Ok ()"
  | (error) m where "raise_for_status r = Raise (HTTPError m)" "status_code r < 200 \<or> 300 \<le> status_code r"
  using success_law [of r] error_law [of r] by force

end

definition status_check :: "http_response \<Rightarrow> unit res" where
  "status_check r =
     (if 200 \<le> status_code r \<and> status_code r < 300 then Ok () else Raise (HTTPError ''HTTP status error''))"

interpretation status_check: http_status status_check
  by unfold_locales (auto simp: status_check_def)

section \<open>build\_client\<close>

text \<open>The TLS context loads the CA and the own certificate; either may raise before a client exists.\<close>

definition build_ssl_context :: "(string \<Rightarrow> unit res) \<Rightarrow> (string \<Rightarrow> string \<Rightarrow> unit res) \<Rightarrow> agent_settings \<Rightarrow> unit res" where
  "build_ssl_context load_ca load_cert s =
     (case load_ca (controller_ca s) of Raise e \<Rightarrow> Raise e | Ok _ \<Rightarrow> load_cert (client_cert s) (client_key s))"

record http_client =
  base_url :: string
  timeout_seconds :: rat
  connect_seconds :: rat
  user_agent :: string

definition build_client :: "(string \<Rightarrow> unit res) \<Rightarrow> (string \<Rightarrow> string \<Rightarrow> unit res) \<Rightarrow> agent_settings \<Rightarrow> http_client res" where
  "build_client load_ca load_cert s =
     (case build_ssl_context load_ca load_cert s of
        Raise e \<Rightarrow> Raise e
      | Ok _ \<Rightarrow> Ok \<lparr>base_url = controller_url s, timeout_seconds = 10, connect_seconds = 5,
                    user_agent = ''thesis-node-agent/'' @ agent_node_id s\<rparr>)"

section \<open>\_primary\_ip\<close>

text \<open>\<open>sock\<close> is the outcome of connecting and of \<open>getsockname\<close>; an \<open>OSError\<close> gives the empty string.\<close>

definition primary_ip :: "string res \<Rightarrow> string agent_act" where
  "primary_ip sock =
     finally_do (\<lambda>t. case sock of
                       Ok a \<Rightarrow> (Ok a, t)
                     | Raise e \<Rightarrow> if e = OtherException ''OSError'' then (Ok [], t) else (Raise e, t))
                (\<lambda>t. t @ [Socket_Close])"

section \<open>register, heartbeat\<close>

definition register_payload :: "agent_settings \<Rightarrow> string \<Rightarrow> (string \<times> pyval) list" where
  "register_payload s ip =
     [(''node_id'', PStr (agent_node_id s)), (''common_name'', PStr (node_common_name s)),
      (''role'', PStr (node_role s)), (''ip_address'', if ip = [] then PNone else PStr ip)]"

definition http_post :: "http_response res \<Rightarrow> string \<Rightarrow> (string \<times> pyval) list \<Rightarrow> http_response agent_act" where
  "http_post r path body = seqn (perform (Post path body)) (got r)"

definition register :: "(http_response \<Rightarrow> unit res) \<Rightarrow> agent_settings \<Rightarrow> string res \<Rightarrow> http_response res \<Rightarrow> bool agent_act" where
  "register raise_for_status s sock resp =
     bnd (primary_ip sock) (\<lambda>ip.
     bnd (http_post resp ''/api/v1/nodes'' (register_payload s ip)) (\<lambda>r.
       if status_code r = 201
       then bnd (got (json r)) (\<lambda>j.
            seqn (perform (Agent_Log ''http_client'' Info ''registered''
                             [(''node_id'', PStr (agent_node_id s)), (''response'', j)]))
                 (ret True))
       else if status_code r = 409
       then seqn (perform (Agent_Log ''http_client'' Info ''already_registered''
                             [(''node_id'', PStr (agent_node_id s))]))
                 (ret False)
       else seqn (got (raise_for_status r)) (ret False)))"

definition heartbeat_path :: "agent_settings \<Rightarrow> string" where
  "heartbeat_path s = ''/api/v1/nodes/'' @ agent_node_id s @ ''/heartbeat''"

definition post_heartbeat :: "(http_response \<Rightarrow> unit res) \<Rightarrow> agent_settings \<Rightarrow> string option \<Rightarrow> http_response res \<Rightarrow> pyval agent_act" where
  "post_heartbeat raise_for_status s note_text resp =
     bnd (http_post resp (heartbeat_path s)
            (case note_text of None \<Rightarrow> [] | Some n \<Rightarrow> if n = [] then [] else [(''status_note'', PStr n)])) (\<lambda>r.
     seqn (got (raise_for_status r)) (got (json r)))"

section \<open>What they return\<close>

lemma primary_ip_eq:
  "primary_ip sock t =
     (case sock of Ok a \<Rightarrow> Ok a | Raise e \<Rightarrow> if e = OtherException ''OSError'' then Ok [] else Raise e, t @ [Socket_Close])"
  by (simp add: primary_ip_def finally_do_def split: res.splits)

lemma http_post_eq: "http_post r path body t = (r, t @ [Post path body])"
  by (simp add: http_post_def act_simps)

text \<open>The value of \<open>register\<close> by the answer alone.\<close>

definition register_value :: "(http_response \<Rightarrow> unit res) \<Rightarrow> http_response \<Rightarrow> bool res" where
  "register_value raise_for_status r =
     (if status_code r = 201 then (case json r of Ok _ \<Rightarrow> Ok True | Raise e \<Rightarrow> Raise e)
      else if status_code r = 409 then Ok False
      else case raise_for_status r of Ok _ \<Rightarrow> Ok False | Raise e \<Rightarrow> Raise e)"

definition socket_answers :: "string res \<Rightarrow> bool" where
  "socket_answers sock \<longleftrightarrow> (case sock of Ok _ \<Rightarrow> True | Raise e \<Rightarrow> e = OtherException ''OSError'')"

lemma register_eq:
  assumes "socket_answers sock"
  obtains ip l where "register rfs s sock resp t =
    (case resp of Raise e \<Rightarrow> Raise e | Ok r \<Rightarrow> register_value rfs r,
     t @ [Socket_Close, Post ''/api/v1/nodes'' (register_payload s ip)] @ l)"
    and "\<forall>d. Sleep d \<notin> set l"
proof -
  obtain ip where ip: "primary_ip sock t = (Ok ip, t @ [Socket_Close])"
    using assms by (cases sock) (auto simp: primary_ip_eq socket_answers_def)
  have "\<exists>l. register rfs s sock resp t =
    (case resp of Raise e \<Rightarrow> Raise e | Ok r \<Rightarrow> register_value rfs r,
     t @ [Socket_Close, Post ''/api/v1/nodes'' (register_payload s ip)] @ l) \<and> (\<forall>d. Sleep d \<notin> set l)"
  proof (cases resp)
    case (Raise e)
    with ip show ?thesis by (simp add: register_def bnd_def http_post_eq)
  next
    case (Ok r)
    with ip show ?thesis
      by (cases "json r"; cases "rfs r")
         (auto simp: register_def register_value_def bnd_def http_post_eq seqn_def got_def perform_def ret_def)
  qed
  then show thesis using that by blast
qed

lemma register_posts:
  assumes "Post p b \<in> set (snd (register rfs s sock resp []))"
  shows "p = ''/api/v1/nodes''"
  using assms
  by (auto simp: register_def bnd_def primary_ip_eq http_post_eq seqn_def got_def perform_def ret_def
      split: res.splits if_splits)

lemma post_heartbeat_fst:
  "fst (post_heartbeat rfs s n resp t) =
    (case resp of Raise e \<Rightarrow> Raise e
     | Ok r \<Rightarrow> (case rfs r of Raise e \<Rightarrow> Raise e | Ok _ \<Rightarrow> json r))"
  by (simp add: post_heartbeat_def bnd_def http_post_eq seqn_def got_def split: res.splits)

lemma post_heartbeat_snd:
  "snd (post_heartbeat rfs s None resp t) = t @ [Post (heartbeat_path s) []]"
  by (simp add: post_heartbeat_def bnd_def http_post_eq seqn_def got_def split: res.splits)

context http_status begin

text \<open>A registration returns exactly on 201 with a body, 409 and the other successes.\<close>

lemma register_value_Ok_iff:
  "register_value raise_for_status r = Ok b \<longleftrightarrow>
     status_code r = 201 \<and> is_ok (json r) \<and> b \<or>
     (status_code r = 409 \<or> 200 \<le> status_code r \<and> status_code r < 300 \<and> status_code r \<noteq> 201) \<and> \<not> b"
proof (cases rule: raise_for_status_cases [of r])
  case success
  then show ?thesis by (cases "json r") (auto simp: register_value_def)
next
  case (error m)
  then show ?thesis by (cases "json r") (auto simp: register_value_def)
qed

text \<open>What it raises is an \<open>HTTPError\<close>, but for a 201 whose body is no JSON.\<close>

lemma register_value_raises:
  assumes "register_value raise_for_status r = Raise e"
  shows "is_HTTPError e \<or> status_code r = 201 \<and> json r = Raise e"
proof (cases rule: raise_for_status_cases [of r])
  case success
  with assms show ?thesis by (cases "json r") (auto simp: register_value_def split: if_splits)
next
  case (error m)
  with assms show ?thesis by (cases "json r") (auto simp: register_value_def split: if_splits)
qed

end

end
