(* ===== verification/Agent_Heartbeat.thy ===== *)
theory Agent_Heartbeat
  imports Http_Client
begin

text \<open>
  \<open>node-agent/app/heartbeat.py\<close>: registration with its backoff, then the endless beat. What an
  attempt or a beat met outside is an argument: the socket, the answer, the random draw, the sleep.
  Delays are exact rationals for the code's floats.
\<close>

section \<open>\_attempt\_register\<close>

record attempt =
  udp :: "string res"
  answer :: "http_response res"
  nap :: "unit res"

fun attempts :: "(http_response \<Rightarrow> unit res) \<Rightarrow> agent_settings \<Rightarrow> int \<Rightarrow> rat \<Rightarrow> attempt list \<Rightarrow> unit agent_act" where
  "attempts rfs s k delay [] = throw (RuntimeError ''could not register after 10 attempts'')"
| "attempts rfs s k delay (a # as) = (\<lambda>t.
     case register rfs s (udp a) (answer a) t of
       (Ok _, t') \<Rightarrow> (Ok (), t')
     | (Raise e, t') \<Rightarrow>
         if is_HTTPError e
         then seqn (perform (Agent_Log ''heartbeat'' Warning ''register_failed''
                               [(''attempt'', PInt k), (''error'', PStr (str_exc e))]))
             (seqn (perform (Sleep delay))
             (seqn (got (nap a))
                   (attempts rfs s (k + 1) (min (delay * (9 / 5)) 60) as))) t'
         else (Raise e, t'))"

text \<open>\<open>range(1, 11)\<close>: ten attempts, whatever they meet.\<close>

definition attempt_register :: "(http_response \<Rightarrow> unit res) \<Rightarrow> agent_settings \<Rightarrow> (nat \<Rightarrow> attempt) \<Rightarrow> unit agent_act" where
  "attempt_register rfs s env = attempts rfs s 1 2 (map env [1..<11])"

section \<open>run\<close>

record beat =
  beat_answer :: "http_response res"
  uniform :: rat
  beat_nap :: "unit res"

definition pause :: "agent_settings \<Rightarrow> beat \<Rightarrow> unit agent_act" where
  "pause s b =
     seqn (perform (Sleep (of_int (heartbeat_interval s) + uniform b))) (got (beat_nap b))"

definition beat_pass :: "(http_response \<Rightarrow> unit res) \<Rightarrow> agent_settings \<Rightarrow> beat \<Rightarrow> unit agent_act" where
  "beat_pass rfs s b t =
     (case post_heartbeat rfs s None (beat_answer b) t of
        (Ok _, t') \<Rightarrow> seqn (perform (Heartbeats_Inc ''success'')) (pause s b) t'
      | (Raise e, t') \<Rightarrow>
          if is_HTTPError e
          then seqn (perform (Heartbeats_Inc ''failure''))
              (seqn (perform (Agent_Log ''heartbeat'' Error ''heartbeat_failed'' [(''error'', PStr (str_exc e))]))
                    (pause s b)) t'
          else (Raise e, t'))"

text \<open>\<open>async with build\_client() as client\<close>: an exception that leaves the block closes the client.\<close>

definition within_client :: "unit agent_act \<Rightarrow> unit agent_act" where
  "within_client m t = (case m t of
     (Ok _, t') \<Rightarrow> (Ok (), t')
   | (Raise e, t') \<Rightarrow> (Raise e, t' @ [Client_Close]))"

definition loop_starting :: "agent_settings \<Rightarrow> agent_effect" where
  "loop_starting s = Agent_Log ''heartbeat'' Info ''heartbeat_loop_starting''
     [(''interval'', PInt (heartbeat_interval s)), (''jitter'', PInt (heartbeat_jitter s))]"

definition run_heartbeat :: "(http_response \<Rightarrow> unit res) \<Rightarrow> http_client res \<Rightarrow> agent_settings \<Rightarrow> (nat \<Rightarrow> attempt)
    \<Rightarrow> beat list \<Rightarrow> unit agent_act" where
  "run_heartbeat rfs client s env beats =
     bnd (got client) (\<lambda>_. within_client
      (seqn (attempt_register rfs s env)
      (seqn (perform (loop_starting s))
            (every (beat_pass rfs s) beats))))"

section \<open>The backoff\<close>

definition backoff :: "nat \<Rightarrow> rat" where
  "backoff k = min (2 * (9 / 5) ^ k) 60"

lemma backoff_0: "backoff 0 = 2"
  by (simp add: backoff_def)

lemma backoff_Suc: "min (backoff k * (9 / 5)) 60 = backoff (Suc k)"
proof (cases "2 * (9 / 5 :: rat) ^ k \<le> 60")
  case True
  then show ?thesis by (simp add: backoff_def min_def)
next
  case False
  then show ?thesis by (simp add: backoff_def min_def)
qed

lemma backoff_next: "min (backoff k * 9 / 5) 60 = backoff (Suc k)"
  using backoff_Suc [of k] by simp

lemma backoff_bounds: "2 \<le> backoff k" "backoff k \<le> 60"
proof -
  have "(1::rat) \<le> (9 / 5) ^ k" by (rule one_le_power) simp
  then show "2 \<le> backoff k" "backoff k \<le> 60" by (simp_all add: backoff_def)
qed

text \<open>The delays of a trace.\<close>

fun sleep_of :: "agent_effect \<Rightarrow> rat list" where
  "sleep_of (Sleep d) = [d]"
| "sleep_of _ = []"

definition sleeps :: "agent_effect list \<Rightarrow> rat list" where
  "sleeps es = concat (map sleep_of es)"

lemma sleeps_append [simp]: "sleeps (a @ b) = sleeps a @ sleeps b"
  by (simp add: sleeps_def)

lemma sleeps_simps [simp]: "sleeps [] = []" "sleeps (e # es) = sleep_of e @ sleeps es"
  by (simp_all add: sleeps_def)

lemma sleeps_none: "\<forall>d. Sleep d \<notin> set l \<Longrightarrow> sleeps l = []"
proof (induction l)
  case (Cons e l)
  then show ?case by (cases e) auto
qed simp

text \<open>How an attempt ends: it registered, or it failed and may be repeated.\<close>

definition attempt_value :: "(http_response \<Rightarrow> unit res) \<Rightarrow> attempt \<Rightarrow> bool res" where
  "attempt_value rfs a = (case answer a of Raise e \<Rightarrow> Raise e | Ok r \<Rightarrow> register_value rfs r)"

definition repeatable :: "(http_response \<Rightarrow> unit res) \<Rightarrow> attempt \<Rightarrow> bool" where
  "repeatable rfs a \<longleftrightarrow> socket_answers (udp a) \<and> nap a = Ok () \<and>
     (case attempt_value rfs a of Ok _ \<Rightarrow> False | Raise e \<Rightarrow> is_HTTPError e)"

definition registers_now :: "(http_response \<Rightarrow> unit res) \<Rightarrow> attempt \<Rightarrow> bool" where
  "registers_now rfs a \<longleftrightarrow> socket_answers (udp a) \<and> is_ok (attempt_value rfs a)"

lemma attempts_repeat:
  assumes "repeatable rfs a"
  obtains t' where "attempts rfs s k (backoff j) (a # as) t = attempts rfs s (k + 1) (backoff (Suc j)) as t'"
    and "sleeps t' = sleeps t @ [backoff j]"
proof -
  obtain e where e: "attempt_value rfs a = Raise e" "is_HTTPError e" "nap a = Ok ()" "socket_answers (udp a)"
    using assms by (auto simp: repeatable_def split: res.splits)
  obtain ip l where r: "register rfs s (udp a) (answer a) t = (attempt_value rfs a,
      t @ [Socket_Close, Post ''/api/v1/nodes'' (register_payload s ip)] @ l)" and l: "\<forall>d. Sleep d \<notin> set l"
    using register_eq [OF e(4), of rfs s "answer a" t] unfolding attempt_value_def by blast
  show thesis
    by (rule that [of "t @ [Socket_Close, Post ''/api/v1/nodes'' (register_payload s ip)] @ l @
          [Agent_Log ''heartbeat'' Warning ''register_failed'' [(''attempt'', PInt k), (''error'', PStr (str_exc e))],
           Sleep (backoff j)]"])
       (simp_all add: r e act_simps backoff_next sleeps_none [OF l])
qed

lemma attempts_success:
  assumes "registers_now rfs a"
  shows "fst (attempts rfs s k d (a # as) t) = Ok ()" and "sleeps (snd (attempts rfs s k d (a # as) t)) = sleeps t"
proof -
  obtain b where b: "attempt_value rfs a = Ok b" "socket_answers (udp a)"
    using assms by (auto simp: registers_now_def elim: is_ok.elims)
  obtain ip l where r: "register rfs s (udp a) (answer a) t = (attempt_value rfs a,
      t @ [Socket_Close, Post ''/api/v1/nodes'' (register_payload s ip)] @ l)" and l: "\<forall>d. Sleep d \<notin> set l"
    using register_eq [OF b(2), of rfs s "answer a" t] unfolding attempt_value_def by blast
  show "fst (attempts rfs s k d (a # as) t) = Ok ()" "sleeps (snd (attempts rfs s k d (a # as) t)) = sleeps t"
    by (simp_all add: r b sleeps_none [OF l])
qed

lemma attempts_after:
  assumes "\<forall>a \<in> set as. repeatable rfs a"
  shows "\<exists>t'. attempts rfs s k (backoff j) (as @ bs) t =
      attempts rfs s (k + int (length as)) (backoff (j + length as)) bs t' \<and>
    sleeps t' = sleeps t @ map backoff [j..<j + length as]"
  using assms
proof (induction as arbitrary: k j t)
  case Nil
  show ?case by (rule exI [of _ t]) simp
next
  case (Cons a as)
  obtain t1 where t1: "attempts rfs s k (backoff j) (a # as @ bs) t = attempts rfs s (k + 1) (backoff (Suc j)) (as @ bs) t1"
    "sleeps t1 = sleeps t @ [backoff j]"
    using attempts_repeat [of rfs a] Cons.prems by (metis list.set_intros(1))
  obtain t2 where "attempts rfs s (k + 1) (backoff (Suc j)) (as @ bs) t1 =
      attempts rfs s (k + 1 + int (length as)) (backoff (Suc j + length as)) bs t2"
    "sleeps t2 = sleeps t1 @ map backoff [Suc j..<Suc j + length as]"
    using Cons.IH [of "k + 1" "Suc j" t1] Cons.prems by auto
  moreover have "[j..<j + length (a # as)] = j # [Suc j..<Suc j + length as]"
    by (subst upt_conv_Cons) simp_all
  ultimately show ?case using t1
    by (intro exI [of _ t2]) (simp add: algebra_simps del: attempts.simps)
qed

text \<open>
  Whatever an attempt meets: the value of its registration; whether it is followed by a sleep; and how
  it ends the loop, if it does: by a return, by what is no \<open>HTTPError\<close>, or by its sleep.
\<close>

definition attempt_outcome :: "(http_response \<Rightarrow> unit res) \<Rightarrow> attempt \<Rightarrow> bool res" where
  "attempt_outcome rfs a =
     (case udp a of
        Raise e \<Rightarrow> if e = OtherException ''OSError'' then attempt_value rfs a else Raise e
      | Ok _ \<Rightarrow> attempt_value rfs a)"

definition followed_by_sleep :: "(http_response \<Rightarrow> unit res) \<Rightarrow> attempt \<Rightarrow> bool" where
  "followed_by_sleep rfs a \<longleftrightarrow> (case attempt_outcome rfs a of Ok _ \<Rightarrow> False | Raise e \<Rightarrow> is_HTTPError e)"

definition ends_with :: "(http_response \<Rightarrow> unit res) \<Rightarrow> attempt \<Rightarrow> unit res option" where
  "ends_with rfs a =
     (case attempt_outcome rfs a of
        Ok _ \<Rightarrow> Some (Ok ())
      | Raise e \<Rightarrow>
          if is_HTTPError e then (case nap a of Ok _ \<Rightarrow> None | Raise x \<Rightarrow> Some (Raise x)) else Some (Raise e))"

lemma register_outcome:
  "fst (register rfs s (udp a) (answer a) t) = attempt_outcome rfs a"
  "sleeps (snd (register rfs s (udp a) (answer a) t)) = sleeps t"
proof -
  have "fst (register rfs s (udp a) (answer a) t) = attempt_outcome rfs a \<and>
    sleeps (snd (register rfs s (udp a) (answer a) t)) = sleeps t"
  proof (cases "socket_answers (udp a)")
    case True
    obtain ip l where "register rfs s (udp a) (answer a) t = (attempt_value rfs a,
        t @ [Socket_Close, Post ''/api/v1/nodes'' (register_payload s ip)] @ l)" and "\<forall>d. Sleep d \<notin> set l"
      using register_eq [OF True, of rfs s "answer a" t] unfolding attempt_value_def by blast
    then show ?thesis
      using True by (simp add: attempt_outcome_def socket_answers_def sleeps_none split: res.splits)
  next
    case False
    then show ?thesis
      by (auto simp: attempt_outcome_def socket_answers_def register_def bnd_def primary_ip_eq split: res.splits)
  qed
  then show "fst (register rfs s (udp a) (answer a) t) = attempt_outcome rfs a"
    "sleeps (snd (register rfs s (udp a) (answer a) t)) = sleeps t" by simp_all
qed

lemma attempts_end:
  fixes rfs :: "http_response \<Rightarrow> unit res"
  defines "n as \<equiv> length (takeWhile (\<lambda>a. ends_with rfs a = None) as)"
  shows "fst (attempts rfs s k (backoff j) as t) =
      (if n as < length as then the (ends_with rfs (as ! n as)) else Raise (RuntimeError ''could not register after 10 attempts'')) \<and>
    sleeps (snd (attempts rfs s k (backoff j) as t)) = sleeps t @
      map backoff [j..<j + n as + (if n as < length as \<and> followed_by_sleep rfs (as ! n as) then 1 else 0)]"
proof (induction as arbitrary: k j t)
  case Nil
  then show ?case by (simp add: n_def throw_def)
next
  case (Cons a as)
  obtain t' where r: "register rfs s (udp a) (answer a) t = (attempt_outcome rfs a, t')" "sleeps t' = sleeps t"
    using register_outcome [of rfs s a t] by (metis prod.collapse)
  show ?case
  proof (cases "ends_with rfs a")
    case None
    then obtain e where e: "attempt_outcome rfs a = Raise e" "is_HTTPError e" "nap a = Ok ()"
      by (auto simp: ends_with_def split: res.splits if_splits)
    obtain t'' where "attempts rfs s k (backoff j) (a # as) t = attempts rfs s (k + 1) (backoff (Suc j)) as t''"
      "sleeps t'' = sleeps t @ [backoff j]"
      by (rule that [of "t' @ [Agent_Log ''heartbeat'' Warning ''register_failed'' [(''attempt'', PInt k), (''error'', PStr (str_exc e))],
           Sleep (backoff j)]"]) (simp_all add: r e act_simps backoff_next)
    then show ?thesis
      using Cons.IH [of "k + 1" "Suc j" t''] None by (simp add: n_def upt_conv_Cons del: attempts.simps upt_Suc)
  next
    case (Some q)
    then show ?thesis
      by (auto simp: n_def r followed_by_sleep_def ends_with_def act_simps split: res.splits if_splits)
  qed
qed

section \<open>Beats\<close>

text \<open>A beat that does not end the loop: any answer but a 2xx without JSON, no cancellation.\<close>

definition beat_harmless :: "(http_response \<Rightarrow> unit res) \<Rightarrow> beat \<Rightarrow> bool" where
  "beat_harmless rfs b \<longleftrightarrow> beat_nap b = Ok () \<and>
     (case beat_answer b of
        Raise e \<Rightarrow> is_HTTPError e
      | Ok r \<Rightarrow> (case rfs r of Raise e \<Rightarrow> is_HTTPError e | Ok _ \<Rightarrow> is_ok (json r)))"

definition beat_ok :: "(http_response \<Rightarrow> unit res) \<Rightarrow> beat \<Rightarrow> bool" where
  "beat_ok rfs b \<longleftrightarrow> (case beat_answer b of
      Raise e \<Rightarrow> False | Ok r \<Rightarrow> is_ok (rfs r) \<and> is_ok (json r))"

definition beat_result :: "(http_response \<Rightarrow> unit res) \<Rightarrow> beat \<Rightarrow> string" where
  "beat_result rfs b = (if beat_ok rfs b then ''success'' else ''failure'')"

lemma beat_pass_harmless:
  assumes "beat_harmless rfs b"
  shows "fst (beat_pass rfs s b t) = Ok ()"
    and "count_list (snd (beat_pass rfs s b t)) (Heartbeats_Inc x) =
      count_list t (Heartbeats_Inc x) + (if x = beat_result rfs b then 1 else 0)"
    and "sleeps (snd (beat_pass rfs s b t)) = sleeps t @ [of_int (heartbeat_interval s) + uniform b]"
proof -
  let ?p = "post_heartbeat rfs s None (beat_answer b) t"
  have p: "?p = (fst ?p, t @ [Post (heartbeat_path s) []])"
    using post_heartbeat_snd by (metis prod.collapse)
  have "beat_ok rfs b \<and> is_ok (fst ?p) \<or> \<not> beat_ok rfs b \<and> (\<exists>e. fst ?p = Raise e \<and> is_HTTPError e)"
    using assms unfolding post_heartbeat_fst
    by (auto simp: beat_ok_def beat_harmless_def split: res.splits)
  then consider (ok) j where "beat_ok rfs b" "?p = (Ok j, t @ [Post (heartbeat_path s) []])"
    | (fail) e where "\<not> beat_ok rfs b" "is_HTTPError e" "?p = (Raise e, t @ [Post (heartbeat_path s) []])"
    using p by (cases "fst ?p") auto
  then have "fst (beat_pass rfs s b t) = Ok () \<and>
    count_list (snd (beat_pass rfs s b t)) (Heartbeats_Inc x) =
      count_list t (Heartbeats_Inc x) + (if x = beat_result rfs b then 1 else 0) \<and>
    sleeps (snd (beat_pass rfs s b t)) = sleeps t @ [of_int (heartbeat_interval s) + uniform b]"
  proof cases
    case ok
    with assms show ?thesis
      by (auto simp: beat_pass_def pause_def act_simps beat_result_def beat_harmless_def)
  next
    case fail
    with assms show ?thesis
      by (auto simp: beat_pass_def pause_def act_simps beat_result_def beat_harmless_def)
  qed
  then show "fst (beat_pass rfs s b t) = Ok ()"
    "count_list (snd (beat_pass rfs s b t)) (Heartbeats_Inc x) =
      count_list t (Heartbeats_Inc x) + (if x = beat_result rfs b then 1 else 0)"
    "sleeps (snd (beat_pass rfs s b t)) = sleeps t @ [of_int (heartbeat_interval s) + uniform b]"
    by blast+
qed

lemma beat_pass_prefix: "prefix t (snd (beat_pass rfs s b t))"
proof -
  let ?p = "post_heartbeat rfs s None (beat_answer b) t"
  have p: "?p = (fst ?p, t @ [Post (heartbeat_path s) []])"
    using post_heartbeat_snd by (metis prod.collapse)
  have "prefix t (snd (case (q, t @ [Post (heartbeat_path s) []]) of
        (Ok _, t') \<Rightarrow> seqn (perform (Heartbeats_Inc ''success'')) (pause s b) t'
      | (Raise e, t') \<Rightarrow>
          if is_HTTPError e
          then seqn (perform (Heartbeats_Inc ''failure''))
              (seqn (perform (Agent_Log ''heartbeat'' Error ''heartbeat_failed'' [(''error'', PStr (str_exc e))]))
                    (pause s b)) t'
          else (Raise e, t')))" for q :: "pyval res"
    by (cases q) (simp_all add: pause_def act_simps)
  then show ?thesis unfolding beat_pass_def by (subst p)
qed

interpretation beats: background_pass "beat_pass rfs s" "beat_harmless rfs" prefix for rfs s
  by unfold_locales (auto simp: beat_pass_harmless(1) beat_pass_prefix intro: prefix_order.trans)

lemma beats_count:
  assumes "\<forall>b \<in> set bs. beat_harmless rfs b"
  shows "fst (every (beat_pass rfs s) bs t) = Ok ()"
    and "count_list (snd (every (beat_pass rfs s) bs t)) (Heartbeats_Inc x) =
      count_list t (Heartbeats_Inc x) + length (filter (\<lambda>b. beat_result rfs b = x) bs)"
    and "sleeps (snd (every (beat_pass rfs s) bs t)) =
      sleeps t @ map (\<lambda>b. of_int (heartbeat_interval s) + uniform b) bs"
proof -
  show "fst (every (beat_pass rfs s) bs t) = Ok ()"
    by (rule beats.every_survives [OF assms])
  show "count_list (snd (every (beat_pass rfs s) bs t)) (Heartbeats_Inc x) =
      count_list t (Heartbeats_Inc x) + length (filter (\<lambda>b. beat_result rfs b = x) bs)"
    using assms
  proof (induction bs arbitrary: t)
    case (Cons b bs)
    then show ?case
      by (simp del: every.simps add: beats.every_Cons beat_pass_harmless(2))
  qed (simp add: ret_def)
  show "sleeps (snd (every (beat_pass rfs s) bs t)) =
      sleeps t @ map (\<lambda>b. of_int (heartbeat_interval s) + uniform b) bs"
    using assms
  proof (induction bs arbitrary: t)
    case (Cons b bs)
    then show ?case
      by (simp del: every.simps add: beats.every_Cons beat_pass_harmless(3))
  qed (simp add: ret_def)
qed

end
