(* ===== verification/Cert_Guard.thy ===== *)
theory Cert_Guard
  imports Agent_Heartbeat Models
begin

text \<open>
  \<open>node-agent/app/cert_guard.py\<close>: the gate that lets the agent start only with a certificate it has
  read and found valid. The \<open>step\<close> process, the JSON parser, \<open>datetime.fromisoformat\<close>, the clock and
  \<open>round\<close> are parameters. An instant is in microseconds. The dashes of the messages are outside the
  characters of \<^typ>\<open>string\<close> and written as hyphens.
\<close>

definition STEP_BIN :: string where
  "STEP_BIN = ''/usr/local/bin/step''"

definition RENEW_WARN_HOURS :: rat where
  "RENEW_WARN_HOURS = 48"

text \<open>How \<open>subprocess.run\<close> ends.\<close>

datatype step_run =
    No_Step
  | Step_Timeout
  | Step_Raises exn
  | Completed int string string

text \<open>\<open>d[k]\<close> on a value of the JSON parser: a list or a string is no mapping.\<close>

fun py_index :: "pyval \<Rightarrow> string \<Rightarrow> pyval res" where
  "py_index (PDict d) k = (case map_of d k of None \<Rightarrow> Raise (KeyError k) | Some v \<Rightarrow> Ok v)"
| "py_index _ _ = Raise (TypeError ''not subscriptable by a string'')"

text \<open>\<open>end.replace("Z", "+00:00")\<close>; only a string has the method.\<close>

fun replace_Z :: "string \<Rightarrow> string" where
  "replace_Z [] = []"
| "replace_Z (c # cs) = (if c = CHR ''Z'' then ''+00:00'' @ replace_Z cs else c # replace_Z cs)"

fun py_replace_Z :: "pyval \<Rightarrow> string res" where
  "py_replace_Z (PStr s) = Ok (replace_Z s)"
| "py_replace_Z _ = Raise (OtherException ''AttributeError'')"

definition not_after :: "(string \<Rightarrow> pyval res) \<Rightarrow> (string \<Rightarrow> datetime res) \<Rightarrow> string \<Rightarrow> datetime res" where
  "not_after loads fromisoformat out =
     (case loads out of Raise e \<Rightarrow> Raise e | Ok v \<Rightarrow>
      (case py_index v ''validity'' of Raise e \<Rightarrow> Raise e | Ok v2 \<Rightarrow>
      (case py_index v2 ''end'' of Raise e \<Rightarrow> Raise e | Ok v3 \<Rightarrow>
      (case py_replace_Z v3 of Raise e \<Rightarrow> Raise e | Ok x \<Rightarrow> fromisoformat x))))"

text \<open>\<open>except (KeyError, ValueError, json.JSONDecodeError)\<close>; the last is a \<open>ValueError\<close>.\<close>

fun parse_caught :: "exn \<Rightarrow> bool" where
  "parse_caught (KeyError _) = True"
| "parse_caught (ValueError _) = True"
| "parse_caught _ = False"

definition guard_log :: "log_method \<Rightarrow> string \<Rightarrow> (string \<times> pyval) list \<Rightarrow> unit agent_act" where
  "guard_log m event kvs = perform (Agent_Log ''cert_guard'' m event kvs)"

definition exit_1 :: "unit agent_act" where
  "exit_1 = throw (SystemExit 1)"

text \<open>
  \<open>now\<close> is aware, and comparing it with a naive instant raises. \<open>isoformat\<close> prints the instant for
  the log, \<open>round_hours\<close> is \<open>round(seconds / 3600, 1)\<close> of a number of microseconds, and \<open>show_hours\<close>
  its form in the log.
\<close>

definition assert_cert_usable :: "(string \<Rightarrow> pyval res) \<Rightarrow> (string \<Rightarrow> datetime res) \<Rightarrow> (int \<Rightarrow> string)
    \<Rightarrow> (int \<Rightarrow> rat) \<Rightarrow> (rat \<Rightarrow> pyval) \<Rightarrow> agent_settings \<Rightarrow> step_run \<Rightarrow> int \<Rightarrow> unit agent_act" where
  "assert_cert_usable loads fromisoformat isoformat round_hours show_hours s proc t_now =
     (case proc of
        No_Step \<Rightarrow> seqn (guard_log Error ''cert_check_no_step''
            [(''step'', PStr STEP_BIN), (''action'', PStr ''cannot verify cert; refusing to start'')]) exit_1
      | Step_Timeout \<Rightarrow> seqn (guard_log Error ''cert_check_timeout'' [(''action'', PStr ''refusing to start'')]) exit_1
      | Step_Raises e \<Rightarrow> throw e
      | Completed code out err \<Rightarrow>
          if code \<noteq> 0
          then seqn (guard_log Error ''cert_unreadable''
                 [(''path'', PStr (client_cert s)), (''stderr'', PStr (take 200 (py_strip err))),
                  (''action'', PStr ''MANUAL RE-ENROLLMENT REQUIRED - see RUNBOOK-reenroll.md'')]) exit_1
          else
            (case not_after loads fromisoformat out of
               Raise e \<Rightarrow>
                 if parse_caught e
                 then seqn (guard_log Error ''cert_parse_failed''
                        [(''error'', PStr (str_exc e)), (''action'', PStr ''refusing to start'')]) exit_1
                 else throw e
             | Ok (Naive _) \<Rightarrow> throw (TypeError ''can't compare offset-naive and offset-aware datetimes'')
             | Ok (Aware t) \<Rightarrow>
                 if t \<le> t_now
                 then seqn (guard_log Error ''cert_expired''
                        [(''expired_at'', PStr (isoformat t)),
                         (''action'', PStr (''renewal cannot recover an expired cert. MANUAL RE-ENROLLMENT '' @
                            ''REQUIRED - see RUNBOOK-reenroll.md. No automatic fallback by design.''))]) exit_1
                 else if round_hours (t - t_now) < RENEW_WARN_HOURS
                 then guard_log Warning ''cert_near_expiry''
                        [(''hours_left'', show_hours (round_hours (t - t_now))),
                         (''note'', PStr ''renewal timer should renew shortly'')]
                 else guard_log Info ''cert_valid'' [(''hours_left'', show_hours (round_hours (t - t_now)))]))"

section \<open>The gate fails closed\<close>

lemma seqn_guard_log: "seqn (guard_log m ev fs) f t = f (t @ [Agent_Log ''cert_guard'' m ev fs])"
  by (simp add: guard_log_def act_simps)

lemma guard_log_eq: "guard_log m ev fs t = (Ok (), t @ [Agent_Log ''cert_guard'' m ev fs])"
  by (simp add: guard_log_def act_simps)

lemma exit_1_eq: "exit_1 t = (Raise (SystemExit 1), t)"
  by (simp add: exit_1_def act_simps)

lemmas guard_simps = assert_cert_usable_def seqn_guard_log exit_1_eq throw_eq guard_log_eq

lemma assert_cert_usable_cases:
  obtains (usable) out err e l where "proc = Completed 0 out err" "not_after loads fromiso out = Ok (Aware e)" "c < e"
      "assert_cert_usable loads fromiso p r h s proc c t =
        (Ok (), t @ [if r (e - c) < 48
           then Agent_Log ''cert_guard'' Warning ''cert_near_expiry''
                  [(''hours_left'', h (r (e - c))), (''note'', PStr ''renewal timer should renew shortly'')]
           else Agent_Log ''cert_guard'' Info ''cert_valid'' [(''hours_left'', h (r (e - c)))]])"
  | (refused) x t' where "assert_cert_usable loads fromiso p r h s proc c t = (Raise x, t')"
      "\<nexists>out err e. proc = Completed 0 out err \<and> not_after loads fromiso out = Ok (Aware e) \<and> c < e"
proof (cases proc)
  case (Completed code out err)
  show thesis
  proof (cases "code = 0")
    case True
    show thesis
    proof (cases "not_after loads fromiso out")
      case (Raise e)
      with Completed True show thesis
        by (cases "parse_caught e") (auto simp: guard_simps intro!: refused)
    next
      case (Ok d)
      show thesis
      proof (cases d)
        case (Naive e)
        with Completed True Ok show thesis by (auto simp: guard_simps intro!: refused)
      next
        case (Aware e)
        show thesis
        proof (cases "c < e")
          case True
          with Completed \<open>code = 0\<close> Ok Aware show thesis
            by (intro usable [of out err e]) (simp_all add: guard_simps RENEW_WARN_HOURS_def)
        next
          case False
          with Completed \<open>code = 0\<close> Ok Aware show thesis by (auto simp: guard_simps intro!: refused)
        qed
      qed
    qed
  next
    case False
    with Completed show thesis by (auto simp: guard_simps intro!: refused)
  qed
qed (auto simp: guard_simps intro!: refused)

end
