(* ===== verification/Metrics_Server.thy ===== *)
theory Metrics_Server
  imports Cert_Guard
begin

text \<open>
  \<open>node-agent/app/metrics_server.py\<close> and \<open>node-agent/app/metrics.py\<close>: who may scrape, and what a
  scrape collects. The TLS stack's peer certificate, psutil's readings and the exposition format
  are parameters.
\<close>

section \<open>\_peer\_cn\<close>

text \<open>
  A peer certificate as \<open>getpeercert()\<close> gives it: a dictionary, whose \<open>subject\<close> is a list of relative
  distinguished names, each a list of pairs. The fields of other shapes play no role.
\<close>

type_synonym rdn = "(string \<times> string) list"
type_synonym peercert = "(string \<times> rdn list) list"

fun common_name_in :: "rdn \<Rightarrow> string option" where
  "common_name_in [] = None"
| "common_name_in ((key, val) # kvs) = (if key = ''commonName'' then Some val else common_name_in kvs)"

fun subject_cn :: "rdn list \<Rightarrow> string option" where
  "subject_cn [] = None"
| "subject_cn (rdn # rdns) = (case common_name_in rdn of Some v \<Rightarrow> Some v | None \<Rightarrow> subject_cn rdns)"

text \<open>\<open>transport\<close>, then its \<open>ssl_object\<close>, then the certificate, each possibly missing.\<close>

definition peer_cn :: "peercert option option option \<Rightarrow> string option" where
  "peer_cn transport =
     (case transport of
        None \<Rightarrow> None
      | Some ssl_object \<Rightarrow>
          (case ssl_object of
             None \<Rightarrow> None
           | Some peercert \<Rightarrow>
               (case peercert of
                  None \<Rightarrow> None
                | Some d \<Rightarrow>
                    if d = [] then None
                    else subject_cn (case map_of d ''subject'' of None \<Rightarrow> [] | Some rdns \<Rightarrow> rdns))))"

section \<open>cn\_allowlist\_middleware\<close>

record web_response =
  r_status :: int
  r_body :: string

definition forbidden :: web_response where
  "forbidden = \<lparr>r_status = 403, r_body = ''forbidden'' @ [CHR 0x0A]\<rparr>"

definition cn_allowlist_middleware :: "agent_settings \<Rightarrow> peercert option option option \<Rightarrow> string option
    \<Rightarrow> web_response agent_act \<Rightarrow> web_response agent_act" where
  "cn_allowlist_middleware s transport remote handler =
     (let allowed = allowed_cns_set s; cn = peer_cn transport in
      if (case cn of None \<Rightarrow> True | Some c \<Rightarrow> c \<notin> allowed)
      then seqn (perform (Agent_Log ''metrics_server'' Warning ''metrics_scrape_rejected''
                   [(''peer_cn'', py_opt_str cn), (''allowed'', PList (map PStr (sorted_list_of_set allowed))),
                    (''peer'', py_opt_str remote)]))
                (ret forbidden)
      else handler)"

section \<open>What a scrape collects\<close>

record sysinfo =
  cpu_percent :: rat
  vm_total :: int
  vm_available :: int
  vm_used :: int
  du_total :: int
  du_free :: int
  du_used :: int
  boot_time :: rat
  loadavg :: "rat \<times> rat \<times> rat"

record family =
  f_name :: string
  f_labels :: "string list"
  f_samples :: "(string list \<times> rat) list"

definition collect :: "sysinfo \<Rightarrow> family list" where
  "collect p =
     [\<lparr>f_name = ''thesis_node_cpu_percent'', f_labels = [], f_samples = [([], cpu_percent p)]\<rparr>,
      \<lparr>f_name = ''thesis_node_memory_bytes'', f_labels = [''state''],
       f_samples = [([''total''], of_int (vm_total p)), ([''available''], of_int (vm_available p)),
                    ([''used''], of_int (vm_used p))]\<rparr>,
      \<lparr>f_name = ''thesis_node_disk_bytes'', f_labels = [''state''],
       f_samples = [([''total''], of_int (du_total p)), ([''free''], of_int (du_free p)),
                    ([''used''], of_int (du_used p))]\<rparr>,
      \<lparr>f_name = ''thesis_node_boot_time_seconds'', f_labels = [], f_samples = [([], boot_time p)]\<rparr>,
      (case loadavg p of (la1, la5, la15) \<Rightarrow>
         \<lparr>f_name = ''thesis_node_load_average'', f_labels = [''window''],
          f_samples = [([''1m''], la1), ([''5m''], la5), ([''15m''], la15)]\<rparr>)]"

text \<open>The label set of the info metric.\<close>

definition node_info :: "agent_settings \<Rightarrow> (string \<times> string) list" where
  "node_info s =
     [(''node_id'', agent_node_id s), (''common_name'', node_common_name s), (''role'', node_role s)]"

text \<open>
  \<open>render\<close>: \<open>generate_latest\<close> of the registry, which holds the info, the counter of heartbeats (its
  value by label), the start time and what \<open>collect\<close> yields.
\<close>

record registry =
  reg_info :: "(string \<times> string) list"
  reg_heartbeats :: "string \<Rightarrow> nat"
  reg_start_time :: rat
  reg_families :: "family list"

definition render :: "(registry \<Rightarrow> string) \<Rightarrow> agent_settings \<Rightarrow> rat \<Rightarrow> agent_effect list \<Rightarrow> sysinfo \<Rightarrow> string" where
  "render generate_latest s start t p =
     generate_latest \<lparr>reg_info = node_info s, reg_heartbeats = (\<lambda>x. count_list t (Heartbeats_Inc x)),
                      reg_start_time = start, reg_families = collect p\<rparr>"

definition metrics_handler :: "(registry \<Rightarrow> string) \<Rightarrow> agent_settings \<Rightarrow> rat \<Rightarrow> sysinfo \<Rightarrow> web_response agent_act" where
  "metrics_handler generate_latest s start p t =
     (Ok \<lparr>r_status = 200, r_body = render generate_latest s start t p\<rparr>, t)"

text \<open>\<open>GET /metrics\<close> on the application \<open>build_app\<close> returns.\<close>

definition scrape :: "(registry \<Rightarrow> string) \<Rightarrow> agent_settings \<Rightarrow> rat \<Rightarrow> sysinfo \<Rightarrow> peercert option option option
    \<Rightarrow> string option \<Rightarrow> web_response agent_act" where
  "scrape generate_latest s start p transport remote =
     cn_allowlist_middleware s transport remote (metrics_handler generate_latest s start p)"

section \<open>build\_ssl\_context of the server\<close>

text \<open>TLS 1.3 at least, the own certificate, client certificates required of the CA.\<close>

record tls_server =
  minimum_version :: string
  verify_required :: bool
  server_cert :: "string \<times> string"
  client_ca :: string

definition build_server_context :: "(string \<Rightarrow> string \<Rightarrow> unit res) \<Rightarrow> (string \<Rightarrow> unit res) \<Rightarrow> agent_settings \<Rightarrow> tls_server res" where
  "build_server_context load_cert load_ca s =
     (case load_cert (client_cert s) (client_key s) of
        Raise e \<Rightarrow> Raise e
      | Ok _ \<Rightarrow>
          (case load_ca (controller_ca s) of
             Raise e \<Rightarrow> Raise e
           | Ok _ \<Rightarrow> Ok \<lparr>minimum_version = ''TLSv1.3'', verify_required = True,
                         server_cert = (client_cert s, client_key s), client_ca = controller_ca s\<rparr>))"

section \<open>Only a listed name is served\<close>

lemma common_name_in_map_of: "common_name_in rdn = map_of rdn ''commonName''"
  by (induction rdn rule: common_name_in.induct) auto

text \<open>The first common name of the subject, read in order.\<close>

lemma subject_cn_concat: "subject_cn rdns = map_of (concat rdns) ''commonName''"
  by (induction rdns) (auto simp: common_name_in_map_of map_add_def split: option.splits)

lemma scrape_cases:
  obtains (served) c where "peer_cn transport = Some c" "c \<in> allowed_cns_set s"
      "scrape g s start p transport remote t = metrics_handler g s start p t"
  | (rejected) l where "\<forall>c. peer_cn transport = Some c \<longrightarrow> c \<notin> allowed_cns_set s"
      "scrape g s start p transport remote t = (Ok forbidden, t @ [l])"
proof (cases "peer_cn transport")
  case None
  then show thesis by (intro rejected) (auto simp: scrape_def cn_allowlist_middleware_def Let_def act_simps)
next
  case (Some c)
  then show thesis
    by (cases "c \<in> allowed_cns_set s")
       (auto simp: scrape_def cn_allowlist_middleware_def Let_def act_simps intro: served rejected)
qed

lemma collect_labels: "\<forall>f \<in> set (collect p). \<forall>(ls, v) \<in> set (f_samples f). length ls = length (f_labels f)"
  by (simp add: collect_def split: prod.splits)

end
