(* ===== verification/Agent_Main.thy ===== *)
theory Agent_Main
  imports Metrics_Server Log_Levels
begin

text \<open>
  \<open>node-agent/app/main.py\<close>: the gate, the tasks, and what the process does when the first of them
  ends. asyncio is a parameter: the tasks that were done when \<open>asyncio.wait\<close> returned are an argument,
  in the order in which the set \<open>done\<close> is iterated.
\<close>

datatype task = Heartbeat_Task | Metrics_Task | Stopper

fun task_name :: "task \<Rightarrow> string" where
  "task_name Heartbeat_Task = ''heartbeat''"
| "task_name Metrics_Task = ''metrics_server''"
| "task_name Stopper = ''stopper''"

text \<open>
  The loop over \<open>done\<close>: the first task with an exception is logged and its exception raised; asking a
  cancelled task for its exception raises \<open>CancelledError\<close>.
\<close>

fun surface :: "(task \<times> unit res) list \<Rightarrow> unit agent_act" where
  "surface [] = ret ()"
| "surface ((t, r) # ds) =
     (if t = Stopper then surface ds
      else case r of
        Ok _ \<Rightarrow> surface ds
      | Raise e \<Rightarrow>
          if e = CancelledError then throw e
          else seqn (perform (Agent_Log ''main'' Error ''task_crashed''
                  [(''task'', PStr (task_name t)), (''error'', PStr (str_exc e))])) (throw e))"

definition after_wait :: "(task \<times> unit res) list \<Rightarrow> unit agent_act" where
  "after_wait done_tasks =
     (if Stopper \<in> fst ` set done_tasks
      then seqn (perform (Agent_Log ''main'' Info ''agent_stopped'' [(''reason'', PStr ''signal'')])) (ret ())
      else surface done_tasks)"

definition agent_starting :: "agent_settings \<Rightarrow> agent_effect" where
  "agent_starting s = Agent_Log ''main'' Info ''agent_starting''
     [(''node_id'', PStr (agent_node_id s)), (''common_name'', PStr (node_common_name s)),
      (''controller'', PStr (controller_url s))]"

definition agent_main :: "unit agent_act \<Rightarrow> agent_settings \<Rightarrow> (task \<times> unit res) list \<Rightarrow> unit agent_act" where
  "agent_main guard s done_tasks =
     seqn (perform (agent_starting s)) (seqn guard (after_wait done_tasks))"

definition listening :: "agent_settings \<Rightarrow> agent_effect" where
  "listening s = Agent_Log ''main'' Info ''metrics_server_listening''
     [(''bind'', PStr (metrics_bind s)), (''port'', PInt (metrics_port s)),
      (''allowed_scrapers'', PList (map PStr (sorted_list_of_set (allowed_cns_set s))))]"

text \<open>
  \<open>\_serve_metrics\<close> up to the wait for the stop event: set up, listen, log. \<open>cleanup\<close> runs in any case
  once the wait began; the outcomes of the aiohttp calls are arguments.
\<close>

definition serve_metrics :: "unit res \<Rightarrow> tls_server res \<Rightarrow> unit res \<Rightarrow> unit res \<Rightarrow> agent_settings \<Rightarrow> unit agent_act" where
  "serve_metrics setup context start_site stop_wait s =
     seqn (got setup)
    (seqn (got context)
    (seqn (got start_site)
    (seqn (perform (listening s))
          (finally_do (got stop_wait) (\<lambda>t. t @ [Runner_Cleanup])))))"

section \<open>How the process ends\<close>

lemma surface_Ok_iff:
  "fst (surface ds t) = Ok () \<longleftrightarrow> (\<forall>(k, r) \<in> set ds. k = Stopper \<or> is_ok r)"
  by (induction ds arbitrary: t rule: surface.induct) (auto simp: act_simps split: res.splits)

lemma surface_raises:
  "fst (surface ds t) = Raise e \<Longrightarrow> \<exists>k. (k, Raise e) \<in> set ds \<and> k \<noteq> Stopper"
  by (induction ds arbitrary: t rule: surface.induct) (auto simp: act_simps split: if_splits res.splits)

lemma after_wait_fst:
  "fst (after_wait ds t) = (if Stopper \<in> fst ` set ds then Ok () else fst (surface ds t))"
  by (simp add: after_wait_def act_simps)

end
