(* ===== verification/Responses.thy ===== *)
theory Responses
  imports Api
begin

text \<open>
  What FastAPI makes of a request's arguments before a handler runs and of its result afterwards, as
  the declarations of the code direct it: the lengths and bounds of the parameters, the
  \<open>response_model\<close> and \<open>status_code\<close> of each route, the response models \<open>NodeRead\<close> of
  \<open>app/models/node.py\<close> and \<open>AuditEventRead\<close> of \<open>app/models/audit.py\<close>.
\<close>

section \<open>Arguments\<close>

fun valid_request :: "request \<Rightarrow> bool" where
  "valid_request (POST_nodes p) = valid_node_create p"
| "valid_request (GET_audit p) = valid_audit_params p"
| "valid_request _ = True"

text \<open>
  \<open>NodeCreate\<close> and \<open>NodeHeartbeat\<close> of a JSON object, whose keys are distinct: strings where strings are
  declared, \<open>None\<close> or a string where that may be, the value of a member for the state, the defaults for
  what is missing, the declared lengths. What is no such object answers 422.
\<close>

fun state_field :: "pyval option \<Rightarrow> node_state option" where
  "state_field None = Some ONBOARDING"
| "state_field (Some (PStr v)) =
     find (\<lambda>st. node_state_value st = v) [ONBOARDING, ACTIVE, STALE, REVOKED, DECOMMISSIONED]"
| "state_field (Some _) = None"

fun str_field :: "pyval option \<Rightarrow> string option" where
  "str_field (Some (PStr v)) = Some v"
| "str_field _ = None"

fun optional_str_field :: "pyval option \<Rightarrow> string option option" where
  "optional_str_field None = Some None"
| "optional_str_field (Some PNone) = Some None"
| "optional_str_field (Some (PStr v)) = Some (Some v)"
| "optional_str_field (Some _) = None"

definition NodeCreate_of :: "(string \<times> pyval) list \<Rightarrow> node_create option" where
  "NodeCreate_of b =
     (case (str_field (map_of b ''node_id''), str_field (map_of b ''common_name''), str_field (map_of b ''role''),
            state_field (map_of b ''state''), optional_str_field (map_of b ''ip_address''), optional_str_field (map_of b ''notes'')) of
        (Some x, Some cn, Some r, Some st, Some ip, Some nt) \<Rightarrow>
          let p = \<lparr>node_id = x, common_name = cn, role = r, state = st, ip_address = ip, node_notes = nt\<rparr>
          in if valid_node_create p then Some p else None
      | _ \<Rightarrow> None)"

definition NodeHeartbeat_of :: "(string \<times> pyval) list \<Rightarrow> heartbeat_payload option" where
  "NodeHeartbeat_of b = map_option (\<lambda>n. \<lparr>status_note = n\<rparr>) (optional_str_field (map_of b ''status_note''))"

lemma NodeCreate_of_valid: "NodeCreate_of b = Some p \<Longrightarrow> valid_node_create p"
  by (auto simp: NodeCreate_of_def Let_def split: option.splits if_splits)

text \<open>A payload is read back from the object of its fields.\<close>

definition NodeCreate_json :: "node_create \<Rightarrow> (string \<times> pyval) list" where
  "NodeCreate_json p =
     [(''node_id'', PStr (node_id p)), (''common_name'', PStr (common_name p)), (''role'', PStr (role p)),
      (''state'', PStr (node_state_value (state p))), (''ip_address'', py_opt_str (ip_address p)),
      (''notes'', py_opt_str (node_notes p))]"

lemma state_field_value: "state_field (Some (PStr (node_state_value st))) = Some st"
  by (cases st) simp_all

lemma optional_str_field_json: "optional_str_field (Some (py_opt_str x)) = Some x"
  by (cases x) simp_all

lemma NodeCreate_roundtrip: "valid_node_create p \<Longrightarrow> NodeCreate_of (NodeCreate_json p) = Some p"
  by (cases p) (simp add: NodeCreate_of_def NodeCreate_json_def state_field_value optional_str_field_json Let_def
      del: state_field.simps optional_str_field.simps)

section \<open>Response models\<close>

record node_read = node_base +
  read_id :: int
  read_created_at :: datetime
  read_updated_at :: datetime
  read_last_heartbeat_at :: "datetime option"

text \<open>A response model is validated: the key must be there, and the lengths of \<open>NodeBase\<close> hold.\<close>

definition NodeRead_of :: "node \<Rightarrow> node_read option" where
  "NodeRead_of n =
     (case node_pk n of
        None \<Rightarrow> None
      | Some k \<Rightarrow>
          if valid_node_create (node_base.truncate n)
          then Some (node_base.extend (node_base.truncate n)
                 (node_read.fields k (created_at n) (updated_at n) (last_heartbeat_at n)))
          else None)"

record audit_event_read = audit_base +
  read_event_id :: int
  read_timestamp :: datetime
  read_details :: details

definition valid_audit_base :: "audit_base \<Rightarrow> bool" where
  "valid_audit_base e \<longleftrightarrow> length (actor_cn e) \<le> 255 \<and>
     (case target e of None \<Rightarrow> True | Some t \<Rightarrow> length t \<le> 255)"

definition AuditEventRead_of :: "audit_event \<Rightarrow> audit_event_read option" where
  "AuditEventRead_of e =
     (case event_pk e of
        None \<Rightarrow> None
      | Some k \<Rightarrow>
          if valid_audit_base (audit_base.truncate e)
          then Some (audit_base.extend (audit_base.truncate e)
                 (audit_event_read.fields k (timestamp e) (details e)))
          else None)"

section \<open>Answers\<close>

datatype body =
    Body_health health_response
  | Body_whoami whoami_response
  | Body_nodes "node_read list"
  | Body_node node_read
  | Body_events "audit_event_read list"

fun response_body :: "response \<Rightarrow> body option" where
  "response_body (R_health r) = Some (Body_health r)"
| "response_body (R_whoami r) = Some (Body_whoami r)"
| "response_body (R_nodes ns) = map_option Body_nodes (those (map NodeRead_of ns))"
| "response_body (R_node n) = map_option Body_node (NodeRead_of n)"
| "response_body (R_events es) = map_option Body_events (those (map AuditEventRead_of es))"

fun success_status :: "request \<Rightarrow> nat" where
  "success_status (POST_nodes _) = 201"
| "success_status _ = 200"

text \<open>
  A response that fails its model and an exception other than \<open>HTTPException\<close> answer 500; what is no
  \<open>Exception\<close> ends the connection without an answer.
\<close>

datatype answer = Answer nat body | Problem nat string | No_answer

fun answer_of :: "request \<Rightarrow> response res \<Rightarrow> answer" where
  "answer_of req (Ok r) =
     (case response_body r of
        Some b \<Rightarrow> Answer (success_status req) b
      | None \<Rightarrow> Problem 500 ''Internal Server Error'')"
| "answer_of req (Raise (HTTPException c d)) = Problem c d"
| "answer_of req (Raise e) =
     (if is_Exception e then Problem 500 ''Internal Server Error'' else No_answer)"

section \<open>Rows that can be answered\<close>

definition rows_valid :: "node list \<Rightarrow> bool" where
  "rows_valid ns \<longleftrightarrow> (\<forall>n \<in> set ns. valid_node_create (node_base.truncate n))"

lemma valid_node_create_fields:
  "valid_node_create (node_base.truncate n) \<longleftrightarrow>
     length (node_id n) \<le> 64 \<and> length (common_name n) \<le> 255 \<and> length (role n) \<le> 32 \<and>
     (case ip_address n of None \<Rightarrow> True | Some a \<Rightarrow> length a \<le> 45) \<and>
     (case node_notes n of None \<Rightarrow> True | Some x \<Rightarrow> length x \<le> 512)"
  by (simp add: valid_node_create_def node_base.truncate_def)

lemma those_Some: "\<forall>x \<in> set xs. f x \<noteq> None \<Longrightarrow> those (map f xs) \<noteq> None"
  by (induction xs) (auto split: option.splits)

lemma NodeRead_of_row: "node_table_ok ns \<Longrightarrow> rows_valid ns \<Longrightarrow> n \<in> set ns \<Longrightarrow> NodeRead_of n \<noteq> None"
  by (auto simp: NodeRead_of_def node_table_ok_def rows_valid_def)

lemma response_body_rows:
  assumes "node_table_ok ns" and "rows_valid ns"
  shows "n \<in> set ns \<Longrightarrow> response_body (R_node n) \<noteq> None"
    and "set ms \<subseteq> set ns \<Longrightarrow> response_body (R_nodes ms) \<noteq> None"
  using NodeRead_of_row [OF assms] those_Some [of ms NodeRead_of] by auto

lemma NodeRead_of_fields:
  "NodeRead_of n = Some r \<Longrightarrow> node_id r = node_id n \<and> common_name r = common_name n \<and> state r = state n \<and>
     Some (read_id r) = node_pk n"
  by (auto simp: NodeRead_of_def node_base.defs node_read.defs split: option.splits if_splits)

lemma those_None: "x \<in> set xs \<Longrightarrow> f x = None \<Longrightarrow> those (map f xs) = None"
  by (induction xs) (auto split: option.splits)

text \<open>A page of rows with keys is answered exactly when every row is within the bounds.\<close>

lemma audit_page_answer:
  assumes "\<forall>e \<in> set es. event_pk e \<noteq> None"
  shows "if list_all (\<lambda>e. valid_audit_base (audit_base.truncate e)) es
    then \<exists>b. answer_of req (Ok (R_events es)) = Answer (success_status req) b
    else answer_of req (Ok (R_events es)) = Problem 500 ''Internal Server Error''"
proof (cases "list_all (\<lambda>e. valid_audit_base (audit_base.truncate e)) es")
  case True
  then have "\<forall>e \<in> set es. AuditEventRead_of e \<noteq> None"
    using assms by (auto simp: AuditEventRead_of_def list_all_iff)
  then show ?thesis using True those_Some [of es AuditEventRead_of] by auto
next
  case False
  then obtain e where "e \<in> set es" "AuditEventRead_of e = None"
    by (auto simp: AuditEventRead_of_def list_all_iff split: option.splits)
  then show ?thesis using False those_None [of e es AuditEventRead_of] by simp
qed

text \<open>
  A row whose actor has a longer name than the response model allows, which the table accepts, spoils
  every page that holds it.
\<close>

lemma long_name_spoils_page:
  assumes "e \<in> set es" and "255 < length (actor_cn e)"
  shows "answer_of req (Ok (R_events es)) = Problem 500 ''Internal Server Error''"
proof -
  have "AuditEventRead_of e = None"
    using assms(2) by (simp add: AuditEventRead_of_def valid_audit_base_def audit_base.truncate_def split: option.splits)
  then show ?thesis using those_None [OF assms(1), of AuditEventRead_of] by simp
qed

end
