(* ===== verification/Enrolment.thy ===== *)
theory Enrolment
  imports Controller_Main Agent_Main Responses
begin

text \<open>
  The agent against the controller: the status the framework answers for a handler's result, the
  payload the agent's request body is validated to, and the agent's first two requests. nginx sets
  the headers from the agent's certificate; what they say is a hypothesis on them.
\<close>

text \<open>
  The route's status for a result (which passes its response model), the exception's own for an
  \<open>HTTPException\<close>, 500 for any other: the status of \<open>answer_of\<close>.
\<close>

definition status_of :: "request \<Rightarrow> response res \<Rightarrow> int" where
  "status_of req out =
     (case out of
        Ok _ \<Rightarrow> (case req of POST_nodes _ \<Rightarrow> 201 | _ \<Rightarrow> 200)
      | Raise (HTTPException c _) \<Rightarrow> int c
      | Raise _ \<Rightarrow> 500)"

text \<open>\<open>NodeCreate\<close> of the agent's body: the fields it leaves out take the model's defaults.\<close>

definition payload_of :: "agent_settings \<Rightarrow> string \<Rightarrow> node_create" where
  "payload_of s ip =
     \<lparr>node_id = agent_node_id s, common_name = node_common_name s, role = node_role s, state = ONBOARDING,
      ip_address = (if ip = [] then None else Some ip), node_notes = None\<rparr>"

text \<open>What the agent posts is read as this payload, if it is within the bounds.\<close>

lemma register_payload_parsed:
  "NodeCreate_of (register_payload s ip) = (if valid_node_create (payload_of s ip) then Some (payload_of s ip) else None)"
  by (simp add: NodeCreate_of_def register_payload_def payload_of_def Let_def)

lemma heartbeat_payload_parsed: "NodeHeartbeat_of [] = Some \<lparr>status_note = None\<rparr>"
  by (simp add: NodeHeartbeat_of_def)

text \<open>The answer the agent's client sees.\<close>

definition answer_to :: "request \<Rightarrow> response res \<Rightarrow> pyval \<Rightarrow> http_response" where
  "answer_to req out body = \<lparr>status_code = status_of req out, json = Ok body\<rparr>"

definition no_note :: heartbeat_payload where
  "no_note = \<lparr>status_note = None\<rparr>"

lemma status_of_simps [simp]:
  "status_of (POST_nodes p) (Ok r) = 201" "status_of (POST_heartbeat x q) (Ok r) = 200"
  "status_of req (Raise (HTTPException c d)) = int c"
  by (simp_all add: status_of_def)

lemma status_of_answer:
  "answer_of req (Ok r) = Answer c b \<Longrightarrow> status_of req (Ok r) = int c"
  "answer_of req (Raise e) = Problem c d \<Longrightarrow> status_of req (Raise e) = int c"
proof -
  show "answer_of req (Ok r) = Answer c b \<Longrightarrow> status_of req (Ok r) = int c"
    by (cases req) (auto simp: status_of_def split: option.splits)
  show "answer_of req (Raise e) = Problem c d \<Longrightarrow> status_of req (Raise e) = int c"
    by (cases e) (auto simp: status_of_def)
qed

context orm_live begin

lemma store_ok_after_request:
  assumes "store_ok (durable (abs (sess w)))" and "run_request S cfg h req w = (out, w')"
  shows "store_ok (durable (abs (sess w')))" and "revoked_serials w' = revoked_serials w" and "clock w' = clock w"
proof -
  note r = run_request_refines [OF assms(2)]
  then show "store_ok (durable (abs (sess w')))" using assms(1) spec_step_store_ok by metis
  show "revoked_serials w' = revoked_serials w" "clock w' = clock w"
    using r by (simp_all add: env_kept_def)
qed

text \<open>A fresh node is registered by its own certificate, and its first heartbeat activates it.\<close>

lemma enrol_and_beat:
  assumes "store_ok (durable (abs (sess w)))" and "identity_of h = Some i" and "live (revoked_serials w) i"
    and "is_node i" and "id_common_name i = node_common_name s"
    and "agent_node_id s \<notin> node_id ` set (fst (durable (abs (sess w))))"
  shows "\<exists>row w1 n w2 e1 e2.
    run_request S cfg h (POST_nodes (payload_of s ip)) w = (Ok (R_node row), w1) \<and>
    run_request S cfg h (POST_heartbeat (agent_node_id s) no_note) w1 = (Ok (R_node n), w2) \<and>
    (valid_node_create (payload_of s ip) \<longrightarrow> NodeRead_of row \<noteq> None \<and> NodeRead_of n \<noteq> None) \<and>
    fst (durable (abs (sess w2))) = fst (durable (abs (sess w))) @ [n] \<and>
    node_id n = agent_node_id s \<and> common_name n = node_common_name s \<and> state n = ACTIVE \<and>
    last_heartbeat_at n \<noteq> None \<and>
    snd (durable (abs (sess w2))) = snd (durable (abs (sess w))) @ [e1, e2] \<and>
    registers (agent_node_id s) e1 \<and> activates (agent_node_id s) e2"
proof -
  let ?p = "payload_of s ip"
  let ?ns = "fst (durable (abs (sess w)))" and ?es = "snd (durable (abs (sess w)))"
  have may: "may_register i ?p" "node_id ?p = agent_node_id s" "common_name ?p = node_common_name s" "state ?p = ONBOARDING"
    using assms(4,5) by (simp_all add: may_register_def payload_of_def)
  have new: "node_id ?p \<notin> node_id ` set ?ns" using assms(6) may by simp
  from request_register_live [OF assms(1-3) may(1) new, of cfg]
  obtain row t w1 where r1: "run_request S cfg h (POST_nodes ?p) w = (Ok (R_node row), w1)"
    and d1: "durable (abs (sess w1)) = (?ns @ [row], write_event ?es (register_event i ?p t))"
    and row: "row = new_row ?ns ?p (clock w (reads w)) (clock w (Suc (reads w)))"
    by auto
  have rf: "node_id row = agent_node_id s" "common_name row = node_common_name s" "state row = ONBOARDING" "node_pk row \<noteq> None"
    using row may by (simp_all add: new_row_def)
  note ok1 = store_ok_after_request [OF assms(1) r1]
  have "live (revoked_serials w1) i" using ok1(2) assms(3) by simp
  moreover have "row \<in> set (fst (durable (abs (sess w1))))" using d1 by simp
  moreover have "id_common_name i = common_name row" using assms(5) rf by simp
  ultimately obtain t1 t2 w2 where
    r2: "run_request S cfg h (POST_heartbeat (node_id row) no_note) w1 = (Ok (R_node (node_row (beaten row t1))), w2)"
    and d2: "durable (abs (sess w2)) = (write_node (?ns @ [row]) (beaten row t1),
      write_event (write_event ?es (register_event i ?p t)) (activation_event i row t2))"
    using request_heartbeat_own_live [OF ok1(1) assms(2), of row cfg no_note] rf(3) d1
    by (auto simp: Let_def)
  obtain k where k: "node_pk row = Some k" using rf(4) by blast
  have tab: "node_table_ok (?ns @ [row])" using ok1(1) d1 by (simp add: store_ok_def)
  then have "Some k \<notin> node_pk ` set ?ns" using k by (simp add: node_table_ok_def)
  then have "node_pk r \<noteq> Some k" if "r \<in> set ?ns" for r
    using that by (metis imageI)
  then have "map (\<lambda>r. if node_pk r = Some k then node_row (beaten row t1) else r) ?ns = ?ns"
    by (simp add: map_idI)
  then have "write_node (?ns @ [row]) (beaten row t1) = ?ns @ [node_row (beaten row t1)]"
    using k by (simp add: write_node_def)
  with d2 obtain k1 k2 where "snd (durable (abs (sess w2))) = ?es @
      [(register_event i ?p t)\<lparr>event_pk := k1, timestamp := naive (Aware t)\<rparr>,
       (activation_event i row t2)\<lparr>event_pk := k2, timestamp := naive (Aware t2)\<rparr>]"
    and "fst (durable (abs (sess w2))) = ?ns @ [node_row (beaten row t1)]"
    by (auto simp: write_event_def register_event_def activation_event_def)
  moreover have "registers (agent_node_id s) ((register_event i ?p t)\<lparr>event_pk := k1, timestamp := naive (Aware t)\<rparr>)"
    "activates (agent_node_id s) ((activation_event i row t2)\<lparr>event_pk := k2, timestamp := naive (Aware t2)\<rparr>)"
    using may rf by (simp_all add: registers_def register_event_def activates_def activation_event_def)
  moreover have "NodeRead_of row \<noteq> None \<and> NodeRead_of (node_row (beaten row t1)) \<noteq> None" if "valid_node_create ?p"
  proof -
    have "valid_node_create (node_base.truncate row) \<and> valid_node_create (node_base.truncate (node_row (beaten row t1)))"
      using that unfolding valid_node_create_fields by (simp add: valid_node_create_def row new_row_def node_row_def beaten_def)
    moreover have "node_pk (node_row (beaten row t1)) = Some k" using k by (simp add: node_row_def beaten_def)
    ultimately show ?thesis using k by (simp add: NodeRead_of_def)
  qed
  ultimately show ?thesis
    using r1 r2 rf by (intro exI [of _ row] exI [of _ w1] exI [of _ "node_row (beaten row t1)"] exI [of _ w2]
      exI conjI) (simp_all add: node_row_def)
qed

text \<open>Registering again is answered by 409, which the agent takes for registered.\<close>

lemma register_again:
  assumes "store_ok (durable (abs (sess w)))" and "identity_of h = Some i" and "live (revoked_serials w) i"
    and "is_node i" and "id_common_name i = node_common_name s"
    and "agent_node_id s \<in> node_id ` set (fst (durable (abs (sess w))))"
  shows "\<exists>out w1. run_request S cfg h (POST_nodes (payload_of s ip)) w = (out, w1) \<and>
    register_value rfs (answer_to (POST_nodes (payload_of s ip)) out body) = Ok False \<and>
    durable (abs (sess w1)) = durable (abs (sess w))"
proof -
  have "may_register i (payload_of s ip)" "node_id (payload_of s ip) \<in> node_id ` set (fst (durable (abs (sess w))))"
    using assms(4-6) by (simp_all add: may_register_def payload_of_def)
  from request_register_duplicate_live [OF assms(1-3) this, of cfg] show ?thesis
    by (auto simp: register_value_def answer_to_def)
qed

text \<open>
  The path the code leaves open: a node that registers another's \<open>node_id\<close> under its own common name.
  The owner's agent is then told it is registered, and its heartbeats are refused.
\<close>

lemma hijacked_node_id:
  assumes "store_ok (durable (abs (sess w)))"
    and "identity_of h = Some i" and "live (revoked_serials w) i" and "is_node i"
    and "common_name p = id_common_name i" and "node_id p = agent_node_id s"
    and "agent_node_id s \<notin> node_id ` set (fst (durable (abs (sess w))))"
    and "identity_of h2 = Some j" and "live (revoked_serials w) j" and "is_node j"
    and "id_common_name j = node_common_name s" and "id_common_name i \<noteq> id_common_name j"
  shows "\<exists>out0 w0 out1 w1 out2 w2.
    run_request S cfg h (POST_nodes p) w = (out0, w0) \<and> status_of (POST_nodes p) out0 = 201 \<and>
    run_request S cfg h2 (POST_nodes (payload_of s ip)) w0 = (out1, w1) \<and>
    register_value rfs (answer_to (POST_nodes (payload_of s ip)) out1 body) = Ok False \<and>
    run_request S cfg h2 (POST_heartbeat (agent_node_id s) no_note) w1 = (out2, w2) \<and>
    status_of (POST_heartbeat (agent_node_id s) no_note) out2 = 403"
proof -
  have p: "may_register i p" "node_id p \<notin> node_id ` set (fst (durable (abs (sess w))))"
    using assms(4-7) by (simp_all add: may_register_def)
  from request_register_live [OF assms(1-3) p, of cfg] obtain row t w0 where
    r0: "run_request S cfg h (POST_nodes p) w = (Ok (R_node row), w0)"
    and d0: "durable (abs (sess w0)) = (fst (durable (abs (sess w))) @ [row],
      write_event (snd (durable (abs (sess w)))) (register_event i p t))"
    and row: "node_id row = agent_node_id s" "common_name row = id_common_name i"
    using assms(5,6) by (auto simp: new_row_def)
  note ok0 = store_ok_after_request [OF assms(1) r0]
  have in0: "row \<in> set (fst (durable (abs (sess w0))))" using d0 by simp
  then have "agent_node_id s \<in> node_id ` set (fst (durable (abs (sess w0))))" using row(1) by (metis imageI)
  moreover have "live (revoked_serials w0) j" using ok0(2) assms(9) by simp
  ultimately obtain out1 w1 where
    r1: "run_request S cfg h2 (POST_nodes (payload_of s ip)) w0 = (out1, w1)"
      "register_value rfs (answer_to (POST_nodes (payload_of s ip)) out1 body) = Ok False"
      "durable (abs (sess w1)) = durable (abs (sess w0))"
    using register_again [OF ok0(1) assms(8) _ assms(10,11), of cfg ip rfs body] by blast
  note ok1 = store_ok_after_request [OF ok0(1) r1(1)]
  have "live (revoked_serials w1) j" "row \<in> set (fst (durable (abs (sess w1))))" "id_common_name j \<noteq> common_name row"
    using ok0(2) ok1(2) assms(9,12) in0 r1(3) row(2) by simp_all
  from request_heartbeat_refused_live [OF ok1(1) assms(8) this, of cfg no_note] row(1) obtain w2 where
    "run_request S cfg h2 (POST_heartbeat (agent_node_id s) no_note) w1 =
      (Raise (HTTPException 403 ''Cannot heartbeat on behalf of another node''), w2)"
    by auto
  with r0 r1 show ?thesis
    by (intro exI [of _ "Ok (R_node row)"] exI [of _ w0] exI [of _ out1] exI [of _ w1]
      exI [of _ "Raise (HTTPException 403 ''Cannot heartbeat on behalf of another node'')"] exI [of _ w2]) simp
qed

text \<open>
  The payload of a registration names the state of the node: one that registers in a state other than
  onboarding is enrolled in it, and its heartbeats are answered without an activation.
\<close>

lemma born_in_state:
  assumes "store_ok (durable (abs (sess w)))" and "identity_of h = Some i" and "live (revoked_serials w) i"
    and "is_node i" and "common_name p = id_common_name i" and "state p \<noteq> ONBOARDING"
    and "node_id p \<notin> node_id ` set (fst (durable (abs (sess w))))"
  shows "\<exists>row t w1 n w2. run_request S cfg h (POST_nodes p) w = (Ok (R_node row), w1) \<and> state row = state p \<and>
    run_request S cfg h (POST_heartbeat (node_id p) y) w1 = (Ok (R_node n), w2) \<and> state n = state p \<and>
    snd (durable (abs (sess w2))) = write_event (snd (durable (abs (sess w)))) (register_event i p t)"
proof -
  have may: "may_register i p" using assms(4,5) by (simp add: may_register_def)
  from request_register_live [OF assms(1-3) may assms(7), of cfg] obtain row t w1 where
    r1: "run_request S cfg h (POST_nodes p) w = (Ok (R_node row), w1)"
    and d1: "durable (abs (sess w1)) = (fst (durable (abs (sess w))) @ [row],
      write_event (snd (durable (abs (sess w)))) (register_event i p t))"
    and row: "node_id row = node_id p" "common_name row = common_name p" "state row = state p"
    by (auto simp: new_row_def)
  note ok1 = store_ok_after_request [OF assms(1) r1]
  have "live (revoked_serials w1) i" "row \<in> set (fst (durable (abs (sess w1))))" "id_common_name i = common_name row"
    using ok1(2) assms(3,5) d1 row(2) by simp_all
  from request_heartbeat_own_live [OF ok1(1) assms(2) this, of cfg y] row d1 assms(6)
  obtain u w2 where
    r2: "run_request S cfg h (POST_heartbeat (node_id p) y) w1 = (Ok (R_node (node_row (beaten row u))), w2)"
    and d2: "snd (durable (abs (sess w2))) = write_event (snd (durable (abs (sess w)))) (register_event i p t)"
    by auto
  have "state (node_row (beaten row u)) = state p" using row(3) assms(6) by (simp add: node_row_def beaten_def)
  then show ?thesis using r1 row(3) r2 d2 by blast
qed

end

end
