(* ===== verification/Lab.thy ===== *)
theory Lab
  imports Enrolment
begin

text \<open>
  The concrete system on which the properties are applied: one node enrolled, its certificate and
  a second node's, the in-memory session of \<open>Store\<close>.
\<close>

definition lab_node :: "node_state \<Rightarrow> datetime option \<Rightarrow> node" where
  "lab_node st hb =
     \<lparr>node_id = ''pi-01'', common_name = ''pi-01.thesis.local'', role = ''valid'', state = st,
      ip_address = None, node_notes = None,
      node_pk = Some 1, created_at = Naive 5, updated_at = Naive 5, last_heartbeat_at = hb\<rparr>"

definition lab_event :: audit_event where
  "lab_event =
     \<lparr>actor_cn = ''pi-01.thesis.local'', action = NODE_REGISTER, target = Some ''node:pi-01'', result = SUCCESS,
      event_pk = Some 1, timestamp = Naive 6, details = None\<rparr>"

definition lab_store :: "node list \<Rightarrow> audit_event list \<Rightarrow> store" where
  "lab_store ns es =
     \<lparr>db_nodes = ns, db_events = es, tx_nodes = ns, tx_events = es, new_nodes = [], new_events = []\<rparr>"

definition lab_world :: "'s \<Rightarrow> int set \<Rightarrow> 's world" where
  "lab_world s R =
     \<lparr>sess = s, revoked_serials = R, trace = [], clock = (\<lambda>n. 1000 + int n), reads = 0\<rparr>"

definition lab :: "int set \<Rightarrow> store world" where
  "lab R = lab_world (lab_store [lab_node ONBOARDING None] [lab_event]) R"

definition empty_lab :: "int set \<Rightarrow> store world" where
  "empty_lab R = lab_world (lab_store [] []) R"

text \<open>The headers nginx sets for the certificates of the two nodes, with serial numbers 26 and 43.\<close>

definition headers_1 :: headers where
  "headers_1 = \<lparr>x_client_verify = Some ''SUCCESS'', x_client_dn = Some ''CN=pi-01.thesis.local,O=Thesis'',
     x_client_serial = Some ''1A''\<rparr>"

definition headers_2 :: headers where
  "headers_2 = \<lparr>x_client_verify = Some ''SUCCESS'', x_client_dn = Some ''CN=pi-02.thesis.local,O=Thesis'',
     x_client_serial = Some ''2B''\<rparr>"

definition identity_1 :: mtls_identity where
  "identity_1 = \<lparr>id_common_name = ''pi-01.thesis.local'', full_dn = ''CN=pi-01.thesis.local,O=Thesis'',
     verified = True, serial = Some 26\<rparr>"

definition identity_2 :: mtls_identity where
  "identity_2 = \<lparr>id_common_name = ''pi-02.thesis.local'', full_dn = ''CN=pi-02.thesis.local,O=Thesis'',
     verified = True, serial = Some 43\<rparr>"

definition payload_2 :: node_create where
  "payload_2 = \<lparr>node_id = ''pi-02'', common_name = ''pi-02.thesis.local'', role = ''valid'', state = ONBOARDING,
     ip_address = None, node_notes = None\<rparr>"

lemma lab_identities [simp]:
  "identity_of headers_1 = Some identity_1" "identity_of headers_2 = Some identity_2"
  by code_simp+

lemma lab_live [simp]: "live {} i"
  by (simp add: live_def split: option.splits)

lemma lab_revoked [simp]: "serial identity_1 = Some 26" "serial identity_2 = Some 43"
  by (simp_all add: identity_1_def identity_2_def)

lemma lab_names [simp]:
  "id_common_name identity_1 = ''pi-01.thesis.local''" "id_common_name identity_2 = ''pi-02.thesis.local''"
  "is_node identity_1" "is_node identity_2" "\<not> is_controller identity_1"
  by (simp_all add: identity_1_def identity_2_def is_node_def is_controller_def)

lemma lab_payload [simp]:
  "node_id payload_2 = ''pi-02''" "common_name payload_2 = ''pi-02.thesis.local''"
  by (simp_all add: payload_2_def)

lemma lab_row [simp]:
  "node_id (lab_node st hb) = ''pi-01''" "common_name (lab_node st hb) = ''pi-01.thesis.local''"
  "state (lab_node st hb) = st" "node_pk (lab_node st hb) = Some 1" "last_heartbeat_at (lab_node st hb) = hb"
  by (simp_all add: lab_node_def)

lemma lab_fields [simp]:
  "durable (sess (lab R)) = ([lab_node ONBOARDING None], [lab_event])"
  "revoked_serials (lab R) = R" "trace (lab R) = []" "reads (lab R) = 0" "clock (lab R) n = 1000 + int n"
  by (simp_all add: lab_def lab_world_def lab_store_def durable_def)

lemma empty_lab_fields [simp]:
  "durable (sess (empty_lab R)) = ([], [])" "revoked_serials (empty_lab R) = R"
  "trace (empty_lab R) = []" "reads (empty_lab R) = 0" "clock (empty_lab R) n = 1000 + int n"
  by (simp_all add: empty_lab_def lab_world_def lab_store_def durable_def)

lemma lab_store_ok [simp]: "store_ok ([lab_node st hb], [lab_event])" "store_ok ([], [])"
  by (simp_all add: store_ok_def node_table_ok_def event_table_ok_def lab_event_def)

lemmas mem_live = mem.orm_live_axioms and mem_session = mem.orm_session_axioms
  and flaky_session = flaky.orm_session_axioms

end
