(* ===== verification/Audit_Trail.thy ===== *)
theory Audit_Trail
  imports Fleet
begin

text \<open>
  \<open>record_event\<close> promises three writes: a row, a log line, a count. Under any fault of the database,
  every audit row that a request commits has its log line, with the row's key, and its count in
  what the request emitted. The proof is a Hoare logic of actions: an action keeps an invariant
  while it goes on and a weaker one when it raises.
\<close>

section \<open>Actions that keep an invariant\<close>

definition keeps :: "('w \<Rightarrow> bool) \<Rightarrow> ('w \<Rightarrow> bool) \<Rightarrow> ('w, 'a) act \<Rightarrow> bool" where
  "keeps J D m \<longleftrightarrow> (\<forall>w. J w \<longrightarrow> (case m w of (Ok a, w') \<Rightarrow> J w' | (Raise e, w') \<Rightarrow> D w'))"

named_theorems keeps_intros "actions that keep an invariant"

lemma keepsI:
  assumes "\<And>w a w'. J w \<Longrightarrow> m w = (Ok a, w') \<Longrightarrow> J w'" and "\<And>w e w'. J w \<Longrightarrow> m w = (Raise e, w') \<Longrightarrow> D w'"
  shows "keeps J D m"
  using assms by (auto simp: keeps_def split: prod.splits res.splits)

lemma keepsD:
  assumes "keeps J D m" and "J w" and "m w = (out, w')"
  shows "case out of Ok a \<Rightarrow> J w' | Raise e \<Rightarrow> D w'"
  using assms by (auto simp: keeps_def split: prod.splits res.splits)

lemma keeps_bnd [keeps_intros]: "keeps J D m \<Longrightarrow> (\<And>a. keeps J D (f a)) \<Longrightarrow> keeps J D (bnd m f)"
proof (rule keepsI)
  assume k: "keeps J D m" "\<And>a. keeps J D (f a)"
  fix w b w' assume J: "J w" and r: "bnd m f w = (Ok b, w')"
  from r show "J w'"
    by (cases rule: bnd_cases) (use keepsD [OF k(1) J] keepsD [OF k(2)] in force)+
next
  assume k: "keeps J D m" "\<And>a. keeps J D (f a)"
  fix w e w' assume J: "J w" and r: "bnd m f w = (Raise e, w')"
  from r show "D w'"
    by (cases rule: bnd_cases) (use keepsD [OF k(1) J] keepsD [OF k(2)] in force)+
qed

lemma keeps_choice [keeps_intros]:
  "keeps J D m \<Longrightarrow> keeps J D k \<Longrightarrow> keeps J D (\<lambda>w. if P w then m w else k w)"
  by (simp add: keeps_def)

lemma keeps_seqn [keeps_intros]: "keeps J D m \<Longrightarrow> keeps J D k \<Longrightarrow> keeps J D (seqn m k)"
  unfolding seqn_def by (rule keeps_bnd)

lemma keeps_ret [keeps_intros]: "keeps J D (ret a)"
  by (simp add: keeps_def ret_def)

lemma keeps_act_map [keeps_intros]: "keeps J D m \<Longrightarrow> keeps J D (act_map f m)"
  unfolding act_map_def by (intro keeps_intros)

lemma keeps_if [keeps_intros]: "(b \<Longrightarrow> keeps J D m) \<Longrightarrow> (\<not> b \<Longrightarrow> keeps J D k) \<Longrightarrow> keeps J D (if b then m else k)"
  by simp

lemma keeps_option [keeps_intros]:
  "(x = None \<Longrightarrow> keeps J D m) \<Longrightarrow> (\<And>a. x = Some a \<Longrightarrow> keeps J D (f a)) \<Longrightarrow>
     keeps J D (case x of None \<Rightarrow> m | Some a \<Rightarrow> f a)"
  by (cases x) simp_all

lemma keeps_Let [keeps_intros]: "keeps J D (f x) \<Longrightarrow> keeps J D (let y = x in f y)"
  by simp

section \<open>Logged rows\<close>

definition logged :: "effect list \<Rightarrow> audit_event \<Rightarrow> bool" where
  "logged t e \<longleftrightarrow>
     audit_log_line (event_pk e) (actor_cn e) (action e) (target e) (result e) (details e) \<in> set t \<and>
     audit_counter (action e) (result e) \<in> set t"

definition all_logged :: "audit_event list \<Rightarrow> effect list \<Rightarrow> audit_event list \<Rightarrow> bool" where
  "all_logged es t es' \<longleftrightarrow> (\<exists>new. es' = es @ new \<and> (\<forall>e \<in> set new. logged t e))"

lemma all_logged_refl [simp]: "all_logged es t es"
  by (simp add: all_logged_def)

lemma all_logged_more: "all_logged es t es' \<Longrightarrow> all_logged es (t @ u) es'"
  by (auto simp: all_logged_def logged_def)

lemma all_logged_write:
  assumes "all_logged es t es'"
  shows "all_logged es (t @ [audit_log_line (event_pk (last (write_event es' (AuditEvent_of a c x r d i)))) a c x r d, audit_counter c r])
    (write_event es' (AuditEvent_of a c x r d i))"
  using assms by (auto simp: all_logged_def logged_def write_event_def)

context orm_session begin

text \<open>
  From \<open>es\<close> and the trace \<open>t0\<close> on: what is committed is logged; and while nothing has raised, also
  what the session's transaction sees, with no event left to be flushed.
\<close>

definition trail :: "audit_event list \<Rightarrow> effect list \<Rightarrow> 's world \<Rightarrow> bool" where
  "trail es t0 w \<longleftrightarrow> (\<exists>t. trace w = t0 @ t \<and> all_logged es t (snd (durable (abs (sess w)))))"

definition open_trail :: "audit_event list \<Rightarrow> effect list \<Rightarrow> 's world \<Rightarrow> bool" where
  "open_trail es t0 w \<longleftrightarrow> (\<exists>t. trace w = t0 @ t \<and> all_logged es t (snd (durable (abs (sess w)))) \<and>
     all_logged es t (tx_events (abs (sess w))) \<and> new_events (abs (sess w)) = [])"

abbreviation keeps_trail :: "audit_event list \<Rightarrow> effect list \<Rightarrow> ('s world, 'b) act \<Rightarrow> bool" where
  "keeps_trail es t0 \<equiv> keeps (open_trail es t0) (trail es t0)"

lemma open_trail_trail: "open_trail es t0 w \<Longrightarrow> trail es t0 w"
  by (auto simp: open_trail_def trail_def)

lemma keeps_throw [keeps_intros]: "keeps_trail es t0 (throw e)"
  by (simp add: keeps_def throw_def open_trail_trail)

lemma keeps_emit [keeps_intros]: "keeps_trail es t0 (emit e)"
proof (rule keepsI)
  fix w a w' assume "open_trail es t0 w" "emit e w = (Ok a, w')"
  then show "open_trail es t0 w'" by (auto simp: emit_def open_trail_def intro: all_logged_more)
qed (simp add: emit_def)

lemma keeps_now [keeps_intros]: "keeps_trail es t0 now"
  by (rule keepsI) (auto simp: now_def open_trail_def)

lemma keeps_db_read [keeps_intros]: "keeps_trail es t0 (db_read f)"
  by (rule keepsI) (auto simp: db_read_def open_trail_trail)

lemma keeps_add_node [keeps_intros]: "keeps_trail es t0 (db_do (orm_add_node S n))"
  by (rule keepsI) (auto simp: db_do_def open_trail_def add_node_law st_add_node_def durable_def)

lemma keeps_flush [keeps_intros]: "keeps_trail es t0 (db_run (orm_flush S))"
proof (rule keepsI)
  fix w a w' assume o: "open_trail es t0 w" and r: "db_run (orm_flush S) w = (Ok a, w')"
  obtain s where s: "orm_flush S (sess w) = (Ok a, s)" "w' = w\<lparr>sess := s\<rparr>"
    using r by (auto simp: db_run_def split: prod.splits)
  note f = flush_law [OF s(1)]
  show "open_trail es t0 w'"
    using o st_flush_SomeD(2,4) [OF f] durable_flush [OF f] by (auto simp: open_trail_def s(2))
next
  fix w e w' assume o: "open_trail es t0 w" and r: "db_run (orm_flush S) w = (Raise e, w')"
  obtain s where s: "orm_flush S (sess w) = (Raise e, s)" "w' = w\<lparr>sess := s\<rparr>"
    using r by (auto simp: db_run_def split: prod.splits)
  show "trail es t0 w'" using o flush_fails [OF s(1)] by (auto simp: trail_def open_trail_def s(2))
qed

lemma keeps_commit [keeps_intros]: "keeps_trail es t0 (db_run (orm_commit S))"
proof (rule keepsI)
  fix w a w' assume o: "open_trail es t0 w" and r: "db_run (orm_commit S) w = (Ok a, w')"
  obtain s where s: "orm_commit S (sess w) = (Ok a, s)" "w' = w\<lparr>sess := s\<rparr>"
    using r by (auto simp: db_run_def split: prod.splits)
  note c = st_commit_SomeD [OF commit_law [OF s(1)]]
  have "tx_events (abs s) = db_events (abs s)" "new_events (abs s) = []" using c(1) by (simp_all add: clean_def)
  then show "open_trail es t0 w'" using o c(2) by (auto simp: open_trail_def durable_def s(2))
next
  fix w e w' assume o: "open_trail es t0 w" and r: "db_run (orm_commit S) w = (Raise e, w')"
  obtain s where s: "orm_commit S (sess w) = (Raise e, s)" "w' = w\<lparr>sess := s\<rparr>"
    using r by (auto simp: db_run_def split: prod.splits)
  show "trail es t0 w'" using o commit_fails [OF s(1)] by (auto simp: trail_def open_trail_def s(2))
qed

text \<open>The triple write.\<close>

lemma keeps_record_event [keeps_intros]: "keeps_trail es t0 (record_event S a c x r d)"
proof (rule keepsI)
  fix w ev w' assume o: "open_trail es t0 w" and run: "record_event S a c x r d w = (Ok ev, w')"
  from o obtain t where t: "trace w = t0 @ t" "all_logged es t (snd (durable (abs (sess w))))"
    "all_logged es t (tx_events (abs (sess w)))" "new_events (abs (sess w)) = []"
    by (auto simp: open_trail_def)
  from run show "open_trail es t0 w'"
  proof (cases rule: record_event_cases)
    case (ok event s)
    let ?e = "AuditEvent_of a c x r d (clock w (reads w))"
    note f = st_flush_add_event [OF ok(2)]
    have tx: "tx_events (abs s) = write_event (tx_events (abs (sess w))) ?e" using f(3) t(4) by simp
    have "trace w' = t0 @ (t @ [audit_log_line (event_pk (last (tx_events (abs s)))) a c x r d, audit_counter c r])"
      using ok(3,4) t(1) by simp
    moreover have "all_logged es (t @ [audit_log_line (event_pk (last (tx_events (abs s)))) a c x r d, audit_counter c r]) (tx_events (abs s))"
      unfolding tx by (rule all_logged_write [OF t(3)])
    ultimately show ?thesis
      using f(1,5) t(2) ok(3) all_logged_more [OF t(2)] by (auto simp: open_trail_def)
  qed simp
next
  fix w e w' assume o: "open_trail es t0 w" and run: "record_event S a c x r d w = (Raise e, w')"
  from run show "trail es t0 w'"
  proof (cases rule: record_event_cases)
    case (fail e' s)
    then show ?thesis using o by (auto simp: trail_def open_trail_def)
  qed simp
qed

section \<open>The handlers and the whole request\<close>

lemma keeps_register [keeps_intros]: "keeps_trail es t0 (register_node S p i)"
  unfolding register_node_def create_node_def by (intro keeps_intros)

lemma keeps_heartbeat [keeps_intros]: "keeps_trail es t0 (heartbeat S x p i)"
  unfolding heartbeat_def heartbeat_record_def by (intro keeps_intros)

lemma keeps_reads [keeps_intros]:
  "keeps_trail es t0 (list_nodes S i)" "keeps_trail es t0 (get_node S x)" "keeps_trail es t0 (list_audit_events S q)"
  unfolding list_nodes_def get_node_def list_audit_events_def by (intro keeps_intros)+

lemma keeps_live [keeps_intros]: "keeps_trail es t0 (require_live_identity S i)"
proof (cases "serial i")
  case None
  then show ?thesis unfolding require_live_identity_def by (simp add: keeps_ret)
next
  case (Some n)
  then show ?thesis
    unfolding require_live_identity_def by (simp only: option.case) (intro keeps_intros)
qed

lemma keeps_handler:
  assumes "run_request S cfg h req = MTLSIdentityDep S cfg h handler"
    and "\<And>es t0 i. keeps_trail es t0 (handler i)" and "run_request S cfg h req w = (out, w')"
  shows "\<exists>t. trace w' = trace w @ t \<and> all_logged (snd (durable (abs (sess w)))) t (snd (durable (abs (sess w'))))"
proof -
  have run: "bnd (get_mtls_identity cfg h) (\<lambda>i. get_session S (bnd (require_live_identity S i) handler)) w = (out, w')"
    using assms(1,3) by (simp add: MTLSIdentityDep_def)
  then show ?thesis
  proof (cases rule: bnd_cases)
    case (raise e)
    then show ?thesis using get_mtls_identity_frame [OF raise(1)] by (auto simp: env_kept_def prefix_def)
  next
    case (ok i w1)
    note f = get_mtls_identity_frame [OF ok(1)]
    let ?es = "snd (durable (abs (sess w)))"
    from ok(2) show ?thesis
    proof (cases rule: get_session_cases)
      case (1 s out1 w2)
      have "open_trail ?es (trace w) (w1\<lparr>sess := s\<rparr>)"
        using f(1,3) 1(2,3) by (auto simp: open_trail_def env_kept_def prefix_def clean_def durable_def)
      moreover have "keeps_trail ?es (trace w) (bnd (require_live_identity S i) handler)"
        by (intro keeps_intros assms(2))
      ultimately have "case out1 of Ok a \<Rightarrow> open_trail ?es (trace w) w2 | Raise e \<Rightarrow> trail ?es (trace w) w2"
        using 1(1) by (intro keepsD)
      then have "trail ?es (trace w) w2" using open_trail_trail by (cases out1) simp_all
      then show ?thesis using 1(4,6) by (simp add: trail_def)
    qed
  qed
qed

lemma run_request_trail:
  assumes "run_request S cfg h req w = (out, w')"
  shows "\<exists>t. trace w' = trace w @ t \<and> all_logged (snd (durable (abs (sess w)))) t (snd (durable (abs (sess w'))))"
proof (cases req)
  case GET_health
  with assms show ?thesis by (auto simp: act_map_def health_def bnd_def now_def ret_def)
next
  case GET_whoami
  show ?thesis 
    by (rule keeps_handler [OF _ _ assms, where handler = "\<lambda>i. ret (R_whoami (whoami i))"])
       (simp_all add: GET_whoami fun_eq_iff keeps_ret)
next
  case GET_nodes
  show ?thesis
    by (rule keeps_handler [OF _ _ assms, where handler = "\<lambda>i. act_map R_nodes (list_nodes S i)"])
       (simp_all add: GET_nodes fun_eq_iff keeps_intros)
next
  case (POST_nodes p)
  show ?thesis
    by (rule keeps_handler [OF _ _ assms, where handler = "\<lambda>i. act_map R_node (register_node S p i)"])
       (simp_all add: POST_nodes fun_eq_iff keeps_intros)
next
  case (GET_node x)
  show ?thesis
    by (rule keeps_handler [OF _ _ assms, where handler = "\<lambda>i. act_map R_node (get_node S x)"])
       (simp_all add: GET_node fun_eq_iff keeps_intros)
next
  case (POST_heartbeat x p)
  show ?thesis
    by (rule keeps_handler [OF _ _ assms, where handler = "\<lambda>i. act_map R_node (heartbeat S x p i)"])
       (simp_all add: POST_heartbeat fun_eq_iff keeps_intros)
next
  case (GET_audit q)
  show ?thesis
    by (rule keeps_handler [OF _ _ assms, where handler = "\<lambda>i. act_map R_events (list_audit_events S q)"])
       (simp_all add: GET_audit fun_eq_iff keeps_intros)
qed

text \<open>Over a run, with the passes of the background loops.\<close>

lemma all_logged_trans: "all_logged es t es' \<Longrightarrow> all_logged es' u es'' \<Longrightarrow> all_logged es (t @ u) es''"
  by (fastforce simp: all_logged_def logged_def)

lemma serve_trail:
  "\<exists>t. trace (serve S cfg a w) = trace w @ t \<and>
     all_logged (snd (durable (abs (sess w)))) t (snd (durable (abs (sess (serve S cfg a w)))))"
proof (cases a)
  case (Request h r)
  obtain out w' where run: "run_request S cfg h r w = (out, w')" by (cases "run_request S cfg h r w")
  with run_request_trail [OF run] show ?thesis unfolding Request serve.simps by auto
next
  case (Crl_pass i)
  then show ?thesis using crl_iteration_frame(1) [of i w] crl_iteration_frame(5) [of w i] by (auto simp: prefix_def)
next
  case (Gauge_pass z)
  then show ?thesis using gauge_iteration_frame [of z w] by (auto simp: env_kept_def prefix_def)
qed

lemma serve_all_trail:
  "\<exists>t. trace (serve_all S cfg as w) = trace w @ t \<and>
     all_logged (snd (durable (abs (sess w)))) t (snd (durable (abs (sess (serve_all S cfg as w)))))"
proof (induction "as" arbitrary: w)
  case (Cons a as)
  obtain t where t: "trace (serve S cfg a w) = trace w @ t"
    "all_logged (snd (durable (abs (sess w)))) t (snd (durable (abs (sess (serve S cfg a w)))))"
    using serve_trail [of cfg a w] by blast
  obtain u where "trace (serve_all S cfg as (serve S cfg a w)) = trace (serve S cfg a w) @ u"
    "all_logged (snd (durable (abs (sess (serve S cfg a w))))) u (snd (durable (abs (sess (serve_all S cfg as (serve S cfg a w))))))"
    using Cons.IH [of "serve S cfg a w"] by blast
  then show ?case using t all_logged_trans [OF t(2)] by (intro exI [of _ "t @ u"]) simp
qed simp

end

end
