(* ===== verification/Controller_Properties.thy ===== *)
theory Controller_Properties
  imports Lab Audit_Trail
begin

text \<open>
  The properties of the controller, over any session that keeps the laws of \<open>orm_session\<close> (where
  faults are allowed) or of \<open>orm_live\<close> (where the answer is stated), each applied to the system of
  \<open>Lab\<close>.
\<close>

section \<open>What a request may change\<close>

text \<open>
  C1: A row of the node table that a request changed or added is the doing of an authenticated
  identity whose certificate is not revoked: an existing row changes only under the common name it
  is bound to and keeps its identity, a new row has no heartbeat yet and was one the identity is
  entitled to register. This holds also when any database call fails.
\<close>
theorem node_rows_only_by_entitled:
  assumes "orm_session S A" and "store_ok (durable (A (sess w)))" and "\<not> allow_unauthenticated cfg"
    and "run_request S cfg h req w = (out, w')"
    and "n' \<in> set (fst (durable (A (sess w'))))" and "n' \<notin> set (fst (durable (A (sess w))))"
  shows "\<exists>i. identity_of h = Some i \<and> live (revoked_serials w) i \<and>
    ((\<exists>n \<in> set (fst (durable (A (sess w)))). common_name n = id_common_name i \<and> same_node n n') \<or>
     last_heartbeat_at n' = None \<and> may_register i (node_base.truncate n'))"
  by (rule orm_session.run_request_rows [OF assms])

lemma lab_beat:
  "\<exists>w'. run_request mem_orm default_settings headers_1 (POST_heartbeat ''pi-01'' no_note) (lab {}) =
      (Ok (R_node (node_row (beaten (lab_node ONBOARDING None) 1000))), w') \<and>
    durable (sess w') = (write_node [lab_node ONBOARDING None] (beaten (lab_node ONBOARDING None) 1000),
      write_event [lab_event] (activation_event identity_1 (lab_node ONBOARDING None) 1001))"
  using orm_live.request_heartbeat_own_live [OF mem_live, of "lab {}" headers_1 identity_1 "lab_node ONBOARDING None" default_settings no_note]
  by simp

lemma lab_beat_row:
  "node_row (beaten (lab_node ONBOARDING None) 1000) \<in> set (write_node [lab_node ONBOARDING None] (beaten (lab_node ONBOARDING None) 1000))"
  by (rule mem.beaten_row_written) simp_all

theorem node_rows_only_by_entitled_witness:
  "\<exists>w' i. run_request mem_orm default_settings headers_1 (POST_heartbeat ''pi-01'' no_note) (lab {}) =
      (Ok (R_node (node_row (beaten (lab_node ONBOARDING None) 1000))), w') \<and>
    identity_of headers_1 = Some i \<and> live {} i"
proof -
  obtain w' where w': "run_request mem_orm default_settings headers_1 (POST_heartbeat ''pi-01'' no_note) (lab {}) =
      (Ok (R_node (node_row (beaten (lab_node ONBOARDING None) 1000))), w')"
    and d: "durable (sess w') = (write_node [lab_node ONBOARDING None] (beaten (lab_node ONBOARDING None) 1000),
      write_event [lab_event] (activation_event identity_1 (lab_node ONBOARDING None) 1001))"
    using lab_beat by blast
  have "state (node_row (beaten (lab_node ONBOARDING None) 1000)) \<noteq> state (lab_node ONBOARDING None)"
    by simp
  then have "node_row (beaten (lab_node ONBOARDING None) 1000) \<noteq> lab_node ONBOARDING None" by metis
  then have "\<exists>i. identity_of headers_1 = Some i \<and> live (revoked_serials (lab {})) i \<and>
    ((\<exists>n \<in> set (fst (durable (sess (lab {})))). common_name n = id_common_name i \<and>
        same_node n (node_row (beaten (lab_node ONBOARDING None) 1000))) \<or>
     last_heartbeat_at (node_row (beaten (lab_node ONBOARDING None) 1000)) = None \<and>
        may_register i (node_base.truncate (node_row (beaten (lab_node ONBOARDING None) 1000))))"
    using lab_beat_row d
    by (intro node_rows_only_by_entitled [OF mem_session _ _ w']) (simp_all add: default_settings_def)
  with w' show ?thesis by auto
qed

text \<open>
  C9: Whatever a request is and whatever the database does, it makes at most one step of the
  controller's specification, in one commit: it leaves what is committed as it was, or the identity
  of its headers (in dev mode the bypass identity) has made one refusal, enrolment, activation or
  heartbeat. The clock, the revoked serials and the past of the trace stay.
\<close>
theorem request_refines_spec:
  assumes "orm_session S A" and "run_request S cfg h req w = (out, w')"
  shows "env_kept w w' \<and>
    (durable (A (sess w')) = durable (A (sess w)) \<or>
     (\<exists>i w1. get_mtls_identity cfg h w = (Ok i, w1) \<and>
        spec_step (revoked_serials w) i (durable (A (sess w))) (durable (A (sess w')))))"
  by (rule orm_session.run_request_refines [OF assms])

text \<open>Applied to a registration whose second write, the audit row's flush, fails.\<close>
theorem request_refines_spec_witness:
  "\<exists>w'. run_request flaky_orm default_settings headers_2 (POST_nodes payload_2)
      (lab_world ([False, True], lab_store [] []) {}) = (Raise (DatabaseError ''database is locked''), w') \<and>
    env_kept (lab_world ([False, True], lab_store [] []) {}) w'"
proof -
  let ?w = "lab_world ([False, True], lab_store [] []) {} :: (bool list \<times> store) world"
  let ?r = "run_request flaky_orm default_settings headers_2 (POST_nodes payload_2) ?w"
  have "fst ?r = Raise (DatabaseError ''database is locked'')" by code_simp
  then have "?r = (Raise (DatabaseError ''database is locked''), snd ?r)" by (rule fst_snd_runs)
  with request_refines_spec [OF flaky_session this] show ?thesis by blast
qed

section \<open>What every run keeps\<close>

text \<open>
  C14: In every run of requests, revocation passes and gauge passes, on any database behaviour, the
  tables stay well-formed (unique node identifiers and keys, every row with its key); the audit log
  is append-only, what it held being a prefix of what it holds; and an enrolment is permanent: every
  row is still in its place, for the same node under the same common name, role and key, its state
  unchanged or changed from onboarding to active.
\<close>
theorem runs_keep_the_tables:
  assumes "orm_session S A" and "store_ok (durable (A (sess w)))"
  shows "store_ok (durable (A (sess (serve_all S cfg as w)))) \<and>
    prefix (snd (durable (A (sess w)))) (snd (durable (A (sess (serve_all S cfg as w))))) \<and>
    continues (fst (durable (A (sess w)))) (fst (durable (A (sess (serve_all S cfg as w)))))"
  using orm_session.serve_all_invariant [OF assms(1), of "\<lambda>_. True" w cfg as] assms(2)
    orm_session.serve_all_audit_prefix [OF assms] orm_session.serve_all_continues [OF assms] by simp

theorem runs_keep_the_tables_witness:
  "\<exists>n'. n' \<in> set (fst (durable (sess (serve_all mem_orm default_settings
     [Request headers_2 (POST_nodes payload_2), Request headers_1 (POST_heartbeat ''pi-01'' no_note), Gauge_pass (Ok ())] (lab {}))))) \<and>
     same_node (lab_node ONBOARDING None) n'"
proof -
  have "store_ok (durable (sess (lab {})))" by simp
  then have c: "continues (fst (durable (sess (lab {})))) (fst (durable (sess (serve_all mem_orm default_settings
      [Request headers_2 (POST_nodes payload_2), Request headers_1 (POST_heartbeat ''pi-01'' no_note), Gauge_pass (Ok ())] (lab {})))))"
    by (rule runs_keep_the_tables [OF mem_session, THEN conjunct2, THEN conjunct2])
  have "lab_node ONBOARDING None \<in> set (fst (durable (sess (lab {}))))" by simp
  from continuesD [OF c this] show ?thesis by blast
qed

text \<open>
  C15: An audit row that is committed has been logged and counted: over any run, under any fault, every
  row the audit log has gained has its log line, with the row's key and fields, and its increment of
  the counter among what the run emitted. (The converse fails: a row is logged before its commit.)
\<close>
theorem committed_audit_rows_are_logged:
  assumes "orm_session S A"
  shows "\<exists>t. trace (serve_all S cfg as w) = trace w @ t \<and>
    all_logged (snd (durable (A (sess w)))) t (snd (durable (A (sess (serve_all S cfg as w)))))"
  by (rule orm_session.serve_all_trail [OF assms])

theorem committed_audit_rows_are_logged_witness:
  "all_logged [] (trace (serve_all mem_orm default_settings [Request headers_2 (POST_nodes payload_2)] (empty_lab {})))
     (snd (durable (sess (serve_all mem_orm default_settings [Request headers_2 (POST_nodes payload_2)] (empty_lab {})))))"
proof -
  have "durable (sess (empty_lab {})) = ([], [])" "trace (empty_lab {}) = []" by simp_all
  with committed_audit_rows_are_logged [OF mem_session, of default_settings "[Request headers_2 (POST_nodes payload_2)]" "empty_lab {}"]
  show ?thesis by (metis snd_conv append_Nil)
qed

text \<open>A registration whose commit fails: the row is lost, its log line and its count are not.\<close>

lemma lost_row_is_logged:
  "(let w' = snd (run_request flaky_orm default_settings headers_2 (POST_nodes payload_2)
      (lab_world ([False, False, True], lab_store [] []) {})) in
    durable (snd (sess w')) = ([], []) \<and>
    audit_counter NODE_REGISTER SUCCESS \<in> set (trace w'))"
  by code_simp

text \<open>
  Every node in the table has its registration in the audit log: a run that starts so (an empty
  database does) never commits a node without the audit row of its registration.
\<close>
theorem nodes_accounted_for:
  assumes "orm_session S A" and "store_ok (durable (A (sess w)))" and "accounted (durable (A (sess w)))"
  shows "accounted (durable (A (sess (serve_all S cfg as w))))"
  by (rule orm_session.serve_all_accounted [OF assms])

theorem nodes_accounted_for_witness:
  "accounted (durable (sess (serve_all mem_orm default_settings [Request headers_2 (POST_nodes payload_2)] (empty_lab {}))))"
  by (rule nodes_accounted_for [OF mem_session]) (simp_all add: accounted_def)

text \<open>
  C16: A node is activated at most once: over any run from a log with that property there is at most
  one state-change row per node, and none for a node still onboarding or not enrolled.
\<close>
theorem activated_at_most_once:
  assumes "orm_session S A" and "store_ok (durable (A (sess w)))" and "activated_once (durable (A (sess w)))"
  shows "activated_once (durable (A (sess (serve_all S cfg as w))))"
  by (rule orm_session.serve_all_activated_once [OF assms])

theorem activated_at_most_once_witness:
  "activated_once (durable (sess (serve_all mem_orm default_settings
     [Request headers_2 (POST_nodes payload_2), Request headers_2 (POST_heartbeat ''pi-02'' no_note),
      Request headers_2 (POST_heartbeat ''pi-02'' no_note)] (empty_lab {}))))"
  by (rule activated_at_most_once [OF mem_session]) (simp_all add: activated_once_def activations_def)

end
