(* ===== verification/Request_Properties.thy ===== *)
theory Request_Properties
  imports Controller_Properties
begin

text \<open>
  What each request answers and commits on a database in order, branch by branch; the identity and
  the revocation check before it; the audit query and the gauges.
\<close>

section \<open>Registration\<close>

text \<open>
  C2: A registration the identity is not entitled to is answered by 403, and although the request
  ends in an exception, which rolls its session back, its audit row is durable: exactly one refusal
  is appended and the node table is as before.
\<close>
theorem refused_registration_is_audited:
  assumes "orm_live S A" and "store_ok (durable (A (sess w)))" and "identity_of h = Some i"
    and "live (revoked_serials w) i" and "\<not> may_register i p"
  shows "\<exists>w'. run_request S cfg h (POST_nodes p) w =
      (Raise (HTTPException 403 ''Cannot register a node on behalf of another identity''), w') \<and>
    durable (A (sess w')) = (fst (durable (A (sess w))), write_event (snd (durable (A (sess w))))
      (refusal_event i (''node:'' @ node_id p)
         [(''reason'', PStr ''actor not authorized to register this node'')] (clock w (reads w))))"
  by (rule orm_live.request_register_refused_live [OF assms])

theorem refused_registration_is_audited_witness:
  "\<exists>w'. run_request mem_orm default_settings headers_1 (POST_nodes payload_2) (lab {}) =
      (Raise (HTTPException 403 ''Cannot register a node on behalf of another identity''), w') \<and>
    length (snd (durable (sess w'))) = 2 \<and> length (fst (durable (sess w'))) = 1"
proof -
  have "\<not> may_register identity_1 payload_2" by (simp add: may_register_def)
  from refused_registration_is_audited [OF mem_live _ lab_identities(1) _ this, of "lab {}" default_settings]
  show ?thesis by (auto simp: write_event_def)
qed

text \<open>
  C4: A registration the identity is entitled to, of a \<open>node_id\<close> not in the table, answers the new
  row and commits it together with its audit row: the payload's fields under the next key, both time
  stamps, no heartbeat.
\<close>
theorem registration_commits_row_and_audit:
  assumes "orm_live S A" and "store_ok (durable (A (sess w)))" and "identity_of h = Some i"
    and "live (revoked_serials w) i" and "may_register i p"
    and "node_id p \<notin> node_id ` set (fst (durable (A (sess w))))"
  shows "\<exists>w'. run_request S cfg h (POST_nodes p) w =
      (Ok (R_node (new_row (fst (durable (A (sess w)))) p (clock w (reads w)) (clock w (reads w + 1)))), w') \<and>
    durable (A (sess w')) =
      (fst (durable (A (sess w))) @ [new_row (fst (durable (A (sess w)))) p (clock w (reads w)) (clock w (reads w + 1))],
       write_event (snd (durable (A (sess w)))) (register_event i p (clock w (reads w + 2))))"
  using orm_live.request_register_live [OF assms, of cfg] by simp

theorem registration_commits_row_and_audit_witness:
  "\<exists>w' row. run_request mem_orm default_settings headers_2 (POST_nodes payload_2) (lab {}) = (Ok (R_node row), w') \<and>
    fst (durable (sess w')) = [lab_node ONBOARDING None, row] \<and> node_pk row = Some 2 \<and> created_at row = Naive 1000 \<and>
    length (snd (durable (sess w'))) = 2"
proof -
  have "may_register identity_2 payload_2" by (simp add: may_register_def)
  from registration_commits_row_and_audit [OF mem_live _ lab_identities(2) _ this, of "lab {}" default_settings]
  show ?thesis by (auto simp: write_event_def new_row_def node_row_def naive_def)
qed

text \<open>
  A registration of a \<open>node_id\<close> that is in the table already, even under another common name, is
  answered by 409 and commits nothing, not even an audit row.
\<close>
theorem duplicate_registration_changes_nothing:
  assumes "orm_live S A" and "store_ok (durable (A (sess w)))" and "identity_of h = Some i"
    and "live (revoked_serials w) i" and "may_register i p"
    and "node_id p \<in> node_id ` set (fst (durable (A (sess w))))"
  shows "\<exists>w'. run_request S cfg h (POST_nodes p) w =
      (Raise (HTTPException 409 (''Node '' @ quoted (node_id p) @ '' is already registered'')), w') \<and>
    durable (A (sess w')) = durable (A (sess w))"
  by (rule orm_live.request_register_duplicate_live [OF assms])

theorem duplicate_registration_changes_nothing_witness:
  "\<exists>w'. run_request mem_orm default_settings headers_2 (POST_nodes (payload_2\<lparr>node_id := ''pi-01''\<rparr>)) (lab {}) =
      (Raise (HTTPException 409 (''Node '' @ quoted ''pi-01'' @ '' is already registered'')), w') \<and>
    durable (sess w') = ([lab_node ONBOARDING None], [lab_event])"
proof -
  have "may_register identity_2 (payload_2\<lparr>node_id := ''pi-01''\<rparr>)" by (simp add: may_register_def)
  from duplicate_registration_changes_nothing [OF mem_live _ lab_identities(2) _ this, of "lab {}" default_settings]
  show ?thesis by simp
qed

section \<open>Heartbeats\<close>

text \<open>
  C5: A heartbeat of the certificate a node is bound to answers and commits the row with its new
  times; a node still onboarding becomes active, with one audit row of the change, and in any other
  state, revoked and decommissioned included, the state stays and no audit row is written.
\<close>
theorem own_heartbeat:
  assumes "orm_live S A" and "store_ok (durable (A (sess w)))" and "identity_of h = Some i"
    and "live (revoked_serials w) i" and "n \<in> set (fst (durable (A (sess w))))"
    and "id_common_name i = common_name n"
  shows "\<exists>w'. run_request S cfg h (POST_heartbeat (node_id n) p) w =
      (Ok (R_node (node_row (beaten n (clock w (reads w))))), w') \<and>
    durable (A (sess w')) = (write_node (fst (durable (A (sess w)))) (beaten n (clock w (reads w))),
      if state n = ONBOARDING
      then write_event (snd (durable (A (sess w)))) (activation_event i n (clock w (reads w + 1)))
      else snd (durable (A (sess w))))"
  using orm_live.request_heartbeat_own_live [OF assms, of cfg p] by simp

theorem own_heartbeat_witness:
  "\<exists>w' row. run_request mem_orm default_settings headers_1 (POST_heartbeat ''pi-01'' no_note) (lab {}) = (Ok (R_node row), w') \<and>
    state row = ACTIVE \<and> last_heartbeat_at row = Some (Naive 1000) \<and> fst (durable (sess w')) = [row] \<and>
    length (snd (durable (sess w'))) = 2"
  using own_heartbeat [OF mem_live _ lab_identities(1), of "lab {}" "lab_node ONBOARDING None" default_settings no_note]
  by (auto simp: write_event_def write_node_def node_row_def naive_def)

text \<open>
  C6: A heartbeat for a node bound to another common name is answered by 403, with the attempt
  durable in the audit log and the node's row untouched.
\<close>
theorem foreign_heartbeat_is_audited:
  assumes "orm_live S A" and "store_ok (durable (A (sess w)))" and "identity_of h = Some i"
    and "live (revoked_serials w) i" and "n \<in> set (fst (durable (A (sess w))))"
    and "id_common_name i \<noteq> common_name n"
  shows "\<exists>w'. run_request S cfg h (POST_heartbeat (node_id n) p) w =
      (Raise (HTTPException 403 ''Cannot heartbeat on behalf of another node''), w') \<and>
    durable (A (sess w')) = (fst (durable (A (sess w))), write_event (snd (durable (A (sess w))))
      (refusal_event i (''node:'' @ node_id n)
         [(''reason'', PStr ''heartbeat from non-matching identity''), (''claimed_node'', PStr (node_id n))]
         (clock w (reads w))))"
  by (rule orm_live.request_heartbeat_refused_live [OF assms])

theorem foreign_heartbeat_is_audited_witness:
  "\<exists>w'. run_request mem_orm default_settings headers_2 (POST_heartbeat ''pi-01'' no_note) (lab {}) =
      (Raise (HTTPException 403 ''Cannot heartbeat on behalf of another node''), w') \<and>
    fst (durable (sess w')) = [lab_node ONBOARDING None] \<and> length (snd (durable (sess w'))) = 2"
  using foreign_heartbeat_is_audited [OF mem_live _ lab_identities(2), of "lab {}" "lab_node ONBOARDING None" default_settings no_note]
  by (auto simp: write_event_def)

text \<open>
  The lookups, and beating for an unknown node, commit nothing: the list answers every row of the
  table in the order of \<open>node_id\<close>, a read the row of that \<open>node_id\<close> or 404, a heartbeat for a
  \<open>node_id\<close> without row 404.
\<close>
theorem lookups_change_nothing:
  assumes "orm_live S A" and "store_ok (durable (A (sess w)))" and "identity_of h = Some i"
    and "live (revoked_serials w) i" and "x \<notin> node_id ` set (fst (durable (A (sess w))))"
  shows "(\<exists>w'. run_request S cfg h (GET_node y) w =
      (case find (\<lambda>n. node_id n = y) (fst (durable (A (sess w)))) of
         None \<Rightarrow> Raise (HTTPException 404 (''Node '' @ quoted y @ '' not found''))
       | Some n \<Rightarrow> Ok (R_node n), w') \<and> durable (A (sess w')) = durable (A (sess w))) \<and>
    (\<exists>w'. run_request S cfg h (POST_heartbeat x p) w =
      (Raise (HTTPException 404 (''Node '' @ quoted x @ '' not found'')), w') \<and>
      durable (A (sess w')) = durable (A (sess w))) \<and>
    (\<exists>w'. run_request S cfg h GET_nodes w =
      (Ok (R_nodes (sort_key node_id (fst (durable (A (sess w)))))), w') \<and>
      durable (A (sess w')) = durable (A (sess w)))"
  using orm_live.request_get_node_live [OF assms(1-4)] orm_live.request_heartbeat_unknown_live [OF assms]
    orm_live.request_list_live [OF assms(1-4)]
  by blast

theorem lookups_change_nothing_witness:
  "fst (run_request mem_orm default_settings headers_1 (GET_node ''pi-01'') (lab {})) =
      Ok (R_node (lab_node ONBOARDING None)) \<and>
   fst (run_request mem_orm default_settings headers_1 (POST_heartbeat ''pi-09'' no_note) (lab {})) =
      Raise (HTTPException 404 (''Node '' @ quoted ''pi-09'' @ '' not found''))"
  using lookups_change_nothing [OF mem_live _ lab_identities(1), of "lab {}" "''pi-09''" default_settings "''pi-01''" no_note]
  by auto

section \<open>Revocation\<close>

text \<open>
  C3: A protected request with a revoked certificate is refused before its handler runs: 403, one
  durable refusal in the audit log naming the serial in hexadecimal, the node table untouched; the
  attempt is counted both as a success and as revoked, in this order.
\<close>
theorem revoked_certificate_is_refused:
  assumes "orm_live S A" and "store_ok (durable (A (sess w)))" and "identity_of h = Some i"
    and "serial i = Some n" and "n \<in> revoked_serials w" and "protected req"
  shows "\<exists>w'. run_request S cfg h req w =
      (Raise (HTTPException 403 ''Client certificate has been revoked''), w') \<and>
    durable (A (sess w')) = (fst (durable (A (sess w))), write_event (snd (durable (A (sess w))))
      (refusal_event i (''cert:'' @ py_hex n)
         [(''reason'', PStr ''certificate revoked''), (''serial'', PStr (py_hex n))] (clock w (reads w)))) \<and>
    (\<exists>t. trace w' = trace w @ t \<and>
       filter (\<lambda>e. \<exists>x. e = Mtls_Auth_Inc x) t = [Mtls_Auth_Inc ''success'', Mtls_Auth_Inc ''revoked''])"
  by (rule orm_live.request_revoked_live [OF assms])

theorem revoked_certificate_is_refused_witness:
  "\<exists>w'. run_request mem_orm default_settings headers_1 (POST_heartbeat ''pi-01'' no_note) (lab {26}) =
      (Raise (HTTPException 403 ''Client certificate has been revoked''), w') \<and>
    fst (durable (sess w')) = [lab_node ONBOARDING None] \<and>
    (\<exists>e. snd (durable (sess w')) = [lab_event, e] \<and> target e = Some ''cert:1a'')"
proof -
  have h: "py_hex 26 = ''1a''" by code_simp
  from revoked_certificate_is_refused [OF mem_live _ lab_identities(1) lab_revoked(1), of "lab {26}"
      "POST_heartbeat ''pi-01'' no_note" default_settings]
  show ?thesis by (auto simp: h write_event_def refusal_event_def)
qed

text \<open>
  C22: Revocation takes effect with the next fetch: once a pass of the loop has got a list, answered
  with success and parsed, that has a certificate's serial number, a request with that certificate,
  whose serial nginx writes in upper-case hexadecimal, is refused.
\<close>
theorem revocation_takes_effect:
  assumes "orm_live S A" and "store_ok (durable (A (sess w)))"
    and "x_client_verify h = Some ''SUCCESS''" and "x_client_dn h = Some dn" and "cn_search dn = Some g"
    and "x_client_serial h = Some (HEX_serial n)" and "protected req"
    and "raise_for_status resp = Ok ()" and "load_crl resp = Ok ss" and "int n \<in> set ss"
  shows "fst (run_request S cfg h req
      (serve S cfg (Crl_pass (fetch_revoked_serials (Ok resp) raise_for_status load_crl, nap_outcome)) w)) =
    Raise (HTTPException 403 ''Client certificate has been revoked'')"
proof -
  let ?w = "serve S cfg (Crl_pass (fetch_revoked_serials (Ok resp) raise_for_status load_crl, nap_outcome)) w"
  have "HEX_serial n \<noteq> []" by (simp add: HEX_serial_def)
  then have i: "identity_of h = Some \<lparr>id_common_name = py_strip g, full_dn = dn, verified = True, serial = Some (int n)\<rparr>"
    using assms(3-6) by (simp add: identity_of_def parsed_serial_def py_int16_HEX_serial)
  have "store_ok (durable (A (sess ?w)))" "int n \<in> revoked_serials ?w"
    using assms(2,8-10) by (simp_all add: crl_iteration_frame fetch_revoked_serials_def)
  from orm_live.request_revoked_live [OF assms(1) this(1) i _ this(2) assms(7), of cfg]
  show ?thesis by auto
qed

theorem revocation_takes_effect_witness:
  "fst (run_request mem_orm default_settings headers_1 GET_nodes
      (serve mem_orm default_settings
        (Crl_pass (fetch_revoked_serials (Ok ''DER'') (\<lambda>_. Ok ()) (\<lambda>_. Ok [26, 99]), Ok ())) (lab {}))) =
    Raise (HTTPException 403 ''Client certificate has been revoked'')"
proof -
  have "HEX_serial 26 = ''1A''" "cn_search ''CN=pi-01.thesis.local,O=Thesis'' = Some ''pi-01.thesis.local''"
    by code_simp+
  then show ?thesis
    by (intro revocation_takes_effect [OF mem_live, where n = 26 and g = "''pi-01.thesis.local''" and ss = "[26, 99]"])
       (simp_all add: headers_1_def del: cn_search.simps)
qed

text \<open>
  The cache holds the last list that was fetched, through any number of failed fetches; before the
  first success it holds what it started with, nothing. The loop ends at no fetch that merely fails.
\<close>
theorem cache_is_last_fetched_list:
  assumes "\<forall>i \<in> set is. crl_harmless i"
  shows "fst (periodic_crl_refresh cfg iv is w) = Ok () \<and>
    revoked_serials (snd (periodic_crl_refresh cfg iv is w)) = last_fetched (revoked_serials w) (map fst is)"
  by (simp add: periodic_crl_refresh_def act_simps crl_loop_total [OF assms])

theorem cache_is_last_fetched_list_witness:
  "revoked_serials (snd (periodic_crl_refresh default_settings None
     [(Raise (HTTPError ''down''), Ok ()), (Ok {7}, Ok ()), (Raise (ValueError ''bad DER''), Ok ())] (lab {}))) = {7}"
proof -
  have "\<forall>i \<in> set [(Raise (HTTPError ''down''), Ok ()), (Ok {7}, Ok ()), (Raise (ValueError ''bad DER''), Ok ())]. crl_harmless i"
    by (simp add: crl_harmless_def)
  from cache_is_last_fetched_list [OF this, of default_settings None "lab {}"] show ?thesis by simp
qed

text \<open>
  The check fails open: a request whose serial header is missing, empty or not a hexadecimal
  number passes it whatever the revocation list holds.
\<close>
theorem unreadable_serial_is_never_revoked:
  assumes "orm_live S A" and "identity_of h = Some i"
    and "truthy (x_client_serial h) = None \<or> (\<exists>r. truthy (x_client_serial h) = Some r \<and> py_int16 r = None)"
  shows "fst (run_request S cfg h GET_whoami w) = Ok (R_whoami (whoami i))"
proof -
  have "serial i = None"
    using assms(2,3) by (auto simp: identity_of_def parsed_serial_def split: option.splits if_splits)
  then have "live (revoked_serials w) i" by (simp add: live_def)
  with orm_live.request_whoami_live [OF assms(1,2), of w cfg] show ?thesis by auto
qed

theorem unreadable_serial_is_never_revoked_witness:
  "fst (run_request mem_orm default_settings (headers_1\<lparr>x_client_serial := Some ''1A:2B''\<rparr>) GET_whoami (lab {26})) =
    Ok (R_whoami (whoami (identity_1\<lparr>serial := None\<rparr>)))"
proof -
  have "identity_of (headers_1\<lparr>x_client_serial := Some ''1A:2B''\<rparr>) = Some (identity_1\<lparr>serial := None\<rparr>)"
    "py_int16 ''1A:2B'' = None" by code_simp+
  then show ?thesis
    by (intro unreadable_serial_is_never_revoked [OF mem_live]) simp_all
qed

section \<open>The identity\<close>

text \<open>
  C29: Outside dev mode a request has an identity exactly when nginx verified its certificate and a
  common name is found in its subject; the identity is the stripped name, the subject, and the serial
  number if it could be read.
\<close>
theorem identity_exactly_when_verified:
  assumes "\<not> allow_unauthenticated cfg"
  shows "fst (get_mtls_identity cfg h w) = Ok i \<longleftrightarrow>
    x_client_verify h = Some ''SUCCESS'' \<and>
    (\<exists>dn g. x_client_dn h = Some dn \<and> cn_search dn = Some g \<and>
       i = \<lparr>id_common_name = py_strip g, full_dn = dn, verified = True, serial = parsed_serial (x_client_serial h)\<rparr>)"
proof -
  have "fst (get_mtls_identity cfg h w) = Ok i \<longleftrightarrow> identity_of h = Some i"
  proof (cases "identity_of h")
    case None
    with get_mtls_identity_None [of h cfg w] assms show ?thesis by auto
  next
    case (Some j)
    with get_mtls_identity_verified [of h j cfg w] show ?thesis by auto
  qed
  also have "\<dots> \<longleftrightarrow> x_client_verify h = Some ''SUCCESS'' \<and>
    (\<exists>dn g. x_client_dn h = Some dn \<and> cn_search dn = Some g \<and>
       i = \<lparr>id_common_name = py_strip g, full_dn = dn, verified = True, serial = parsed_serial (x_client_serial h)\<rparr>)"
    by (auto simp: identity_of_def split: option.splits)
  finally show ?thesis .
qed

theorem identity_exactly_when_verified_witness:
  "fst (get_mtls_identity default_settings headers_1 (lab {})) = Ok identity_1"
proof -
  have "cn_search ''CN=pi-01.thesis.local,O=Thesis'' = Some ''pi-01.thesis.local''"
    "py_strip ''pi-01.thesis.local'' = ''pi-01.thesis.local''" "parsed_serial (Some ''1A'') = Some 26" by code_simp+
  then show ?thesis
    using identity_exactly_when_verified [of default_settings headers_1 "lab {}" identity_1]
    by (simp add: default_settings_def headers_1_def identity_1_def del: cn_search.simps)
qed

text \<open>
  Outside dev mode a protected request without identity touches no session: it is refused by 401
  when a header is missing, 403 when nginx did not verify, 400 when no common name is found, and
  counted once, under the label of its cause.
\<close>
theorem request_without_identity_is_refused:
  assumes "identity_of h = None" and "\<not> allow_unauthenticated cfg" and "protected req"
  shows "\<exists>t. run_request S cfg h req w =
      (Raise (snd (auth_refusal h)), w\<lparr>trace := trace w @ Mtls_Auth_Inc (fst (auth_refusal h)) # t\<rparr>) \<and>
    (\<forall>x. Mtls_Auth_Inc x \<notin> set t)"
proof -
  obtain handler where "run_request S cfg h req = MTLSIdentityDep S cfg h handler"
    by (rule protected_request [OF assms(3)])
  then show ?thesis using MTLSIdentityDep_refused [OF assms(1,2), of S handler w] by simp
qed

theorem request_without_identity_is_refused_witness:
  "\<exists>w'. run_request mem_orm default_settings (headers_1\<lparr>x_client_verify := Some ''NONE''\<rparr>) GET_nodes (lab {}) =
      (Raise (HTTPException 403 ''Client certificate verification failed: NONE''), w') \<and>
    times (Mtls_Auth_Inc ''verify_failed'') w' = 1"
proof -
  let ?h = "headers_1\<lparr>x_client_verify := Some ''NONE''\<rparr>"
  have "identity_of ?h = None" by (simp add: identity_of_def headers_1_def)
  from request_without_identity_is_refused [OF this, of default_settings GET_nodes mem_orm "lab {}"]
  obtain t where "run_request mem_orm default_settings ?h GET_nodes (lab {}) =
      (Raise (snd (auth_refusal ?h)), lab {}\<lparr>trace := trace (lab {}) @ Mtls_Auth_Inc (fst (auth_refusal ?h)) # t\<rparr>)"
    "\<forall>x. Mtls_Auth_Inc x \<notin> set t" by (auto simp: default_settings_def)
  then show ?thesis
    by (simp add: auth_refusal_def headers_1_def times_def count_list_0_iff)
qed

text \<open>
  The common name taken from a subject is the leftmost match of the expression: the longest
  non-empty run without comma and slash after the first \<open>CN=\<close> that has one, wherever that is in the
  string, so also inside another attribute's value.
\<close>
theorem common_name_is_leftmost_match:
  "cn_search dn = Some v \<longleftrightarrow>
     (\<exists>pre t. dn = pre @ t \<and> cn_at t v \<and>
        (\<forall>p q u. pre = p @ q \<and> q \<noteq> [] \<longrightarrow> \<not> cn_at (q @ t) u))"
  by (rule cn_search_Some_iff)

theorem common_name_is_leftmost_match_witness:
  "\<exists>pre t. ''O=CN=controller.x,CN=pi-01'' = pre @ t \<and> cn_at t ''controller.x''"
proof -
  have "cn_search ''O=CN=controller.x,CN=pi-01'' = Some ''controller.x''" by code_simp
  then show ?thesis unfolding common_name_is_leftmost_match by blast
qed

text \<open>
  The serial number of a certificate survives its way through the header: what nginx prints in
  upper-case hexadecimal is read back as the same number, and nothing is logged.
\<close>
theorem serial_header_roundtrip:
  "parse_serial (Some (HEX_serial n)) w = (Ok (Some (int n)), w)"
proof -
  have "HEX_serial n \<noteq> []" by (simp add: HEX_serial_def)
  then show ?thesis by (simp add: parse_serial_def py_int16_HEX_serial act_simps)
qed

section \<open>The audit query\<close>



section \<open>The gauges\<close>

text \<open>
  C39: After a refresh a scrape reads, for every state and role, the number of nodes of the table with
  them, and no sample where there is none, whatever the gauge showed before and whether or not any
  node has beaten; for every node that has beaten the time since its last heartbeat, although the
  table gives back instants without time zone (the subtraction never raises); and for every other
  \<open>node_id\<close> what the freshness gauge showed before, since that one is not cleared.
\<close>
theorem gauges_match_the_table:
  assumes "orm_live S A" and "store_ok (durable (A (sess w)))" and "ns = fst (durable (A (sess w)))"
    and "refresh_node_gauges S w = (out, w')"
  shows "out = Ok () \<and>
    (\<forall>k. nodes_gauge (trace w') k = (if count_by k ns = 0 then None else Some (count_by k ns))) \<and>
    (\<forall>n \<in> set ns. \<forall>hb. last_heartbeat_at n = Some hb \<longrightarrow>
      age_gauge (trace w') (node_id n) = Some (clock w (reads w) - dt_micros hb)) \<and>
    (\<forall>x. (\<forall>n \<in> set ns. node_id n = x \<longrightarrow> last_heartbeat_at n = None) \<longrightarrow>
      age_gauge (trace w') x = age_gauge (trace w) x)"
proof -
  note live = orm_live.refresh_node_gauges_live [OF assms(1), of w, unfolded assms(4) fst_conv snd_conv]
  have "ns = db_nodes (A (sess w))" and "distinct (map node_id ns)"
    using assms(2,3) by (simp_all add: durable_def store_ok_def node_table_ok_def)
  then show ?thesis using live by blast
qed

text \<open>A sample of a state no node is in goes, in a table whose node has not beaten; ages are read in another.\<close>

theorem gauges_match_the_table_witness:
  "nodes_gauge (trace (snd (refresh_node_gauges mem_orm
     (lab {}\<lparr>trace := [Nodes_Total_Set ''stale'' ''valid'' 3]\<rparr>)))) (''stale'', ''valid'') = None \<and>
   nodes_gauge (trace (snd (refresh_node_gauges mem_orm (lab {})))) (''onboarding'', ''valid'') = Some 1 \<and>
   nodes_gauge (trace (snd (refresh_node_gauges mem_orm
     (lab_world (lab_store [lab_node ACTIVE (Some (Naive 400))] [lab_event]) {}\<lparr>trace := [Nodes_Total_Set ''stale'' ''valid'' 3]\<rparr>))))
     (''stale'', ''valid'') = None \<and>
   age_gauge (trace (snd (refresh_node_gauges mem_orm
     (lab_world (lab_store [lab_node ACTIVE (Some (Naive 400))] [lab_event]) {}\<lparr>trace := [Nodes_Total_Set ''stale'' ''valid'' 3]\<rparr>))))
     ''pi-01'' = Some 600"
proof -
  let ?s = "lab_world (lab_store [lab_node ACTIVE (Some (Naive 400))] [lab_event]) {}\<lparr>trace := [Nodes_Total_Set ''stale'' ''valid'' 3]\<rparr>"
  let ?t = "lab {}\<lparr>trace := [Nodes_Total_Set ''stale'' ''valid'' 3]\<rparr>"
  note g = gauges_match_the_table [OF mem_live, OF _ _ prod.collapse [symmetric]]
  have d: "durable (sess (lab_world (lab_store [lab_node ACTIVE (Some (Naive 400))] [lab_event]) {})) = ([lab_node ACTIVE (Some (Naive 400))], [lab_event])"
    by (simp add: lab_world_def lab_store_def durable_def)
  have "store_ok (durable (sess ?s))" "store_ok (durable (sess ?t))" "store_ok (durable (sess (lab {})))"
    by (simp_all add: d)
  have r: "role (lab_node st hb) = ''valid''" for st hb by (simp add: lab_node_def)
  note g = g [OF \<open>store_ok (durable (sess ?s))\<close> refl] g [OF \<open>store_ok (durable (sess ?t))\<close> refl]
    g [OF \<open>store_ok (durable (sess (lab {})))\<close> refl]
  have "nodes_gauge (trace (snd (refresh_node_gauges mem_orm ?t))) (''stale'', ''valid'') = None"
    and "nodes_gauge (trace (snd (refresh_node_gauges mem_orm (lab {})))) (''onboarding'', ''valid'') = Some 1"
    and "nodes_gauge (trace (snd (refresh_node_gauges mem_orm ?s))) (''stale'', ''valid'') = None"
    using g(2) [THEN conjunct2, THEN conjunct1, THEN spec, of "(''stale'', ''valid'')"]
      g(3) [THEN conjunct2, THEN conjunct1, THEN spec, of "(''onboarding'', ''valid'')"]
      g(1) [THEN conjunct2, THEN conjunct1, THEN spec, of "(''stale'', ''valid'')"]
    by (simp_all add: d r count_by_def)
  moreover have "age_gauge (trace (snd (refresh_node_gauges mem_orm ?s))) ''pi-01'' = Some 600"
    using g(1) [THEN conjunct2, THEN conjunct2, THEN conjunct1, rule_format, of "lab_node ACTIVE (Some (Naive 400))" "Naive 400"]
    by (simp add: d) (simp add: lab_world_def)
  ultimately show ?thesis by blast
qed

section \<open>Shutdown\<close>

text \<open>
  C40: The service lives between a complete start and a clean end. If a call of \<open>init_db\<close> on the engine
  raises (connecting, a pragma, the creation of the tables, the commit), the start ends with that
  exception, or that of the rollback if it raises too, after two log lines: nothing is served and no task is awaited.
  Otherwise it serves; and if nothing but a cancellation can leave the two loops' fetches, reads and
  sleeps past an \<open>except Exception\<close>, both cancelled tasks are awaited and raise nothing.
\<close>
theorem lifespan_starts_serves_and_stops:
  fixes v :: "'v world"
  assumes "\<forall>s e. orm_nodes S s = Raise e \<longrightarrow> is_Exception e \<or> e = CancelledError"
    and "\<forall>z \<in> set zs. cancellation_only z"
    and "\<forall>i \<in> set is. cancellation_only (snd i) \<and> (\<forall>e. fst i = Raise e \<longrightarrow> is_Exception e \<or> e = CancelledError)"
  shows "lifespan cfg E served
      (fst (periodic_gauge_refresh S iv zs w)) (fst (periodic_crl_refresh cfg j is v)) u =
    (case init_failure E of
       Some e \<Rightarrow> (Raise e, u\<lparr>trace := trace u @ start_lines cfg\<rparr>)
     | None \<Rightarrow>
         (case served (u\<lparr>trace := trace u @ start_lines cfg @ [Log ''db'' Info ''db_initialized'' []]\<rparr>) of
            (Raise e, u') \<Rightarrow> (Raise e, u')
          | (Ok _, u') \<Rightarrow> (Ok 2, u'\<lparr>trace := trace u' @ [Log ''startup'' Info ''controller_stopping'' []]\<rparr>)))"
proof -
  have g: "cancellation_only (fst (periodic_gauge_refresh S iv zs w))"
  proof -
    have "cancellation_only (fst (gauge_iteration S z w'))" if "z \<in> set zs" for z w'
      unfolding gauge_iteration_def
    proof (rule guarded_pass_outcome)
      show "cancellation_only z" using assms(2) that by blast
      show "e = CancelledError" if "fst (refresh_node_gauges S w') = Raise e" "\<not> is_Exception e" for e
        using that assms(1)
        by (auto simp: refresh_node_gauges_def read_nodes_def act_simps finally_do_def db_read_def bnd_def
            set_counts_def seqn_def emit_all_eq set_ages_eq emit_def now_def split: res.splits)
    qed
    then show ?thesis
      using every_outcome [of zs "gauge_iteration S"] by (simp add: periodic_gauge_refresh_def act_simps)
  qed
  have c: "cancellation_only (fst (periodic_crl_refresh cfg j is v))"
  proof -
    have "cancellation_only (fst (crl_iteration i w'))" if "i \<in> set is" for i and w' :: "'v world"
      unfolding crl_iteration_def
      by (rule guarded_pass_outcome) (use assms(3) that in \<open>auto simp: bnd_def crl_store_def split: res.splits\<close>)
    then have "cancellation_only (fst (every crl_iteration is u))" for u :: "'v world"
      by (rule every_outcome)
    then show ?thesis by (simp add: periodic_crl_refresh_def act_simps crl_loop_def)
  qed
  show ?thesis by (rule lifespan_eq [OF g c])
qed

theorem lifespan_starts_serves_and_stops_witness:
  "fst (lifespan default_settings
      \<lparr>begin_call = Ok (), execute_call = (\<lambda>q. if q = ''PRAGMA journal_mode=WAL'' then Raise (DatabaseError ''database is locked'') else Ok ()),
        create_all_call = Ok (), commit_call = Ok (), rollback_call = Ok ()\<rparr>
      (throw CancelledError)
      (fst (periodic_gauge_refresh mem_orm 30 [Ok (), Raise CancelledError] (lab {})))
      (fst (periodic_crl_refresh default_settings None [(Raise (HTTPError ''down''), Ok ()), (Raise CancelledError, Ok ())] (lab {})))
      (lab {})) = Raise (DatabaseError ''database is locked'')"
  by (subst lifespan_starts_serves_and_stops)
     (auto simp: mem_orm_def cancellation_only_def init_failure_def init_pragmas_def rolled_back_def)

end
