(* ===== verification/Agent_Properties.thy ===== *)
theory Agent_Properties
  imports Agent_Main
begin

text \<open>
  The properties of the node agent: its registration and its beats, its settings, the certificate
  gate, the scrape endpoint and the end of the process.
\<close>

section \<open>Registration\<close>

text \<open>
  The agent's registration call returns exactly on an answer 201 with a JSON body (newly
  registered), on 409 and on any other 2xx (already known); everything else raises.
\<close>
theorem register_returns_exactly_on:
  assumes "http_status rfs" and "socket_answers sock"
  shows "fst (register rfs s sock (Ok r) t) = Ok b \<longleftrightarrow>
    status_code r = 201 \<and> is_ok (json r) \<and> b \<or>
    (status_code r = 409 \<or> 200 \<le> status_code r \<and> status_code r < 300 \<and> status_code r \<noteq> 201) \<and> \<not> b"
proof -
  obtain ip l where "register rfs s sock (Ok r) t =
    (register_value rfs r, t @ [Socket_Close, Post ''/api/v1/nodes'' (register_payload s ip)] @ l)"
    by (rule register_eq [OF assms(2), of rfs s "Ok r" t]) simp
  then show ?thesis using http_status.register_value_Ok_iff [OF assms(1)] by simp
qed

theorem register_returns_exactly_on_witness:
  "fst (register status_check agent_defaults (Ok ''10.50.20.11'') (Ok \<lparr>status_code = 409, json = Ok PNone\<rparr>) []) = Ok False"
  by (subst register_returns_exactly_on [OF status_check.http_status_axioms]) (simp_all add: socket_answers_def)

text \<open>
  The agent is registered as soon as one of its ten attempts is: after \<open>k - 1\<close> failed attempts it
  has slept \<open>k - 1\<close> times, two seconds first and 1.8 times longer each time up to a minute, and the
  attempts after the \<open>k\<close>-th are not made.
\<close>
theorem registration_retries_with_backoff:
  assumes "1 \<le> k" and "k \<le> 10" and "\<forall>j \<in> {1..<k}. repeatable rfs (env j)" and "registers_now rfs (env k)"
  shows "fst (attempt_register rfs s env t) = Ok () \<and>
    sleeps (snd (attempt_register rfs s env t)) = sleeps t @ map backoff [0..<k - 1]"
proof -
  have split: "[1..<11] = [1..<k] @ k # [Suc k..<11]"
  proof -
    have "[1..<11] = [1..<k] @ [k..<11]" using assms(1,2) upt_add_eq_append [of 1 k "11 - k"] by simp
    then show ?thesis using assms(2) by (simp add: upt_conv_Cons)
  qed
  have rep: "\<forall>a \<in> set (map env [1..<k]). repeatable rfs a" using assms(3) by auto
  obtain t' where t': "attempts rfs s 1 (backoff 0) (map env [1..<k] @ env k # map env [Suc k..<11]) t =
      attempts rfs s (1 + int (k - 1)) (backoff (k - 1)) (env k # map env [Suc k..<11]) t'"
    "sleeps t' = sleeps t @ map backoff [0..<k - 1]"
    using attempts_after [OF rep, of s 1 0 "env k # map env [Suc k..<11]" t] by auto
  have "attempt_register rfs s env t =
      attempts rfs s (1 + int (k - 1)) (backoff (k - 1)) (env k # map env [Suc k..<11]) t'"
    unfolding attempt_register_def split using t'(1) by (simp add: backoff_0 del: attempts.simps)
  then show ?thesis using attempts_success [OF assms(4)] t'(2) by (simp del: attempts.simps)
qed

definition unreachable_then_created :: "nat \<Rightarrow> attempt" where
  "unreachable_then_created j =
     \<lparr>udp = Ok ''10.50.20.11'',
      answer = (if j < 3 then Raise (HTTPError ''connect timeout'') else Ok \<lparr>status_code = 201, json = Ok PNone\<rparr>),
      nap = Ok ()\<rparr>"

theorem registration_retries_with_backoff_witness:
  "fst (attempt_register status_check agent_defaults unreachable_then_created []) = Ok () \<and>
   sleeps (snd (attempt_register status_check agent_defaults unreachable_then_created [])) = [2, 18 / 5]"
proof -
  have "fst (attempt_register status_check agent_defaults unreachable_then_created []) = Ok () \<and>
    sleeps (snd (attempt_register status_check agent_defaults unreachable_then_created [])) = sleeps [] @ map backoff [0..<3 - 1]"
    by (rule registration_retries_with_backoff)
       (auto simp: repeatable_def registers_now_def attempt_value_def register_value_def socket_answers_def unreachable_then_created_def)
  moreover have "map backoff [0..<3 - 1] = [2, 18 / 5]" by (simp add: backoff_def upt_rec)
  ultimately show ?thesis by simp
qed

text \<open>
  An agent whose ten attempts all fail gives up with a \<open>RuntimeError\<close>, after ten sleeps (the
  last one before giving up, with no attempt after it), less than 323 seconds in all.
\<close>
theorem registration_gives_up:
  assumes "\<forall>j \<in> {1..10}. repeatable rfs (env j)"
  shows "fst (attempt_register rfs s env t) = Raise (RuntimeError ''could not register after 10 attempts'') \<and>
    sleeps (snd (attempt_register rfs s env t)) = sleeps t @ map backoff [0..<10] \<and>
    sum_list (map backoff [0..<10]) < 323"
proof -
  have rep: "\<forall>a \<in> set (map env [1..<11]). repeatable rfs a" using assms by auto
  from attempts_after [OF rep, of s 1 0 "[]" t] show ?thesis
    by (auto simp: attempt_register_def backoff_0 act_simps) (simp add: backoff_def upt_rec)
qed

theorem registration_gives_up_witness:
  "fst (attempt_register status_check agent_defaults
      (\<lambda>_. \<lparr>udp = Raise (OtherException ''OSError''), answer = Ok \<lparr>status_code = 403, json = Ok PNone\<rparr>, nap = Ok ()\<rparr>) []) =
    Raise (RuntimeError ''could not register after 10 attempts'')"
  using registration_gives_up [of status_check
      "\<lambda>_. \<lparr>udp = Raise (OtherException ''OSError''), answer = Ok \<lparr>status_code = 403, json = Ok PNone\<rparr>, nap = Ok ()\<rparr>"]
  by (simp add: repeatable_def attempt_value_def register_value_def socket_answers_def status_check_def)

text \<open>
  C28: Registration ends in every case, whatever the socket, the network, the controller and the sleeps
  do. Attempts that fail by an \<open>HTTPError\<close> and whose sleep passes are followed by another one, ten in
  all, with sleeps of two seconds first and 1.8 times longer each time, up to a minute. The first that is
  not ends it: it returns if the attempt registered, and raises what the attempt or its sleep raised
  otherwise, with no attempt after it. If there is none it raises a \<open>RuntimeError\<close> after ten sleeps.
\<close>
theorem registration_ends_in_ten_attempts:
  "let n = length (takeWhile (\<lambda>j. ends_with rfs (env j) = None) [1..<11]) in n \<le> 10 \<and>
    fst (attempt_register rfs s env t) =
      (if n < 10 then the (ends_with rfs (env (n + 1))) else Raise (RuntimeError ''could not register after 10 attempts'')) \<and>
    sleeps (snd (attempt_register rfs s env t)) =
      sleeps t @ map backoff [0..<n + (if n < 10 \<and> followed_by_sleep rfs (env (n + 1)) then 1 else 0)]"
proof -
  define n where "n = length (takeWhile (\<lambda>j. ends_with rfs (env j) = None) [1..<11])"
  have n: "length (takeWhile (\<lambda>a. ends_with rfs a = None) (map env [1..<11])) = n"
    by (simp add: n_def takeWhile_map comp_def del: upt_Suc)
  have le: "n \<le> 10" unfolding n_def using length_takeWhile_le [of _ "[1..<11]"] by (simp del: upt_Suc)
  have "map env [1..<11] ! n = env (n + 1)" if "n < 10" using that by (simp del: upt_Suc)
  then show ?thesis
    unfolding n_def [symmetric] Let_def using le attempts_end [of rfs s 1 0 "map env [1..<11]" t] unfolding n
    by (simp add: attempt_register_def backoff_0 del: upt_Suc attempts.simps)
qed

definition unreachable_then_cancelled :: "nat \<Rightarrow> attempt" where
  "unreachable_then_cancelled j =
     \<lparr>udp = Ok ''10.50.20.11'', answer = (if j < 3 then Raise (HTTPError ''connect timeout'') else Raise CancelledError), nap = Ok ()\<rparr>"

text \<open>A cancellation in the third attempt.\<close>

lemma cancelled_in_third_attempt:
  "fst (attempt_register status_check agent_defaults unreachable_then_cancelled []) = Raise CancelledError"
  by code_simp

section \<open>Heartbeats\<close>

text \<open>
  C32: No failure of the network and no error answer ends the heartbeat loop: every beat is counted
  once, as success or failure by its answer, and followed by its sleep.
\<close>
theorem failed_beats_do_not_stop_the_loop:
  assumes "\<forall>b \<in> set bs. beat_harmless rfs b"
  shows "fst (every (beat_pass rfs s) bs t) = Ok () \<and>
    count_list (snd (every (beat_pass rfs s) bs t)) (Heartbeats_Inc x) =
      count_list t (Heartbeats_Inc x) + length (filter (\<lambda>b. beat_result rfs b = x) bs) \<and>
    length (sleeps (snd (every (beat_pass rfs s) bs t))) = length (sleeps t) + length bs"
  using beats_count [OF assms] by simp

definition lab_beats :: "beat list" where
  "lab_beats =
     [\<lparr>beat_answer = Ok \<lparr>status_code = 200, json = Ok PNone\<rparr>, uniform = 3, beat_nap = Ok ()\<rparr>,
      \<lparr>beat_answer = Raise (HTTPError ''read timeout''), uniform = -5, beat_nap = Ok ()\<rparr>,
      \<lparr>beat_answer = Ok \<lparr>status_code = 403, json = Raise (ValueError ''no JSON'')\<rparr>, uniform = 0, beat_nap = Ok ()\<rparr>]"

lemma lab_beats_harmless: "\<forall>b \<in> set lab_beats. beat_harmless status_check b"
  by (simp add: lab_beats_def beat_harmless_def status_check_def)

theorem failed_beats_do_not_stop_the_loop_witness:
  "count_list (snd (every (beat_pass status_check agent_defaults) lab_beats [])) (Heartbeats_Inc ''failure'') = 2"
proof -
  have "length (filter (\<lambda>b. beat_result status_check b = ''failure'') lab_beats) = 2"
    by (simp add: lab_beats_def beat_result_def beat_ok_def status_check_def)
  then show ?thesis
    using failed_beats_do_not_stop_the_loop [OF lab_beats_harmless, of agent_defaults "[]" "''failure''"] by simp
qed

lemma jitter_may_exceed_interval:
  "\<exists>s b. Settings (agent_defaults\<lparr>heartbeat_interval := 5, heartbeat_jitter := 10\<rparr>) = Ok s \<and>
    - of_int (heartbeat_jitter s) \<le> uniform b \<and> uniform b \<le> of_int (heartbeat_jitter s) \<and>
    (\<exists>d \<in> set (sleeps (snd (beat_pass status_check s b []))). d < 0)"
proof -
  let ?s = "agent_defaults\<lparr>heartbeat_interval := 5, heartbeat_jitter := 10\<rparr>"
  let ?b = "\<lparr>beat_answer = Raise (HTTPError ''refused''), uniform = - 7, beat_nap = Ok ()\<rparr>"
  have s: "Settings ?s = Ok (?s\<lparr>controller_url := strip_trailing_slash (controller_url ?s)\<rparr>)" (is "_ = Ok ?s'")
    by (simp add: Settings_def agent_bounds_def agent_defaults_def)
  have "sleeps (snd (beat_pass status_check ?s' ?b [])) = [- 2]"
    by (subst beat_pass_harmless(3)) (simp_all add: beat_harmless_def)
  then show ?thesis using s by (intro exI [of _ ?s'] exI [of _ ?b]) simp
qed

text \<open>
  With a draw in the range asked for, every sleep of the loop is within the jitter of the interval.
  The settings' bounds do not tie the one to the other: with admissible settings and a draw in range
  the loop may sleep a negative time, that is, not at all.
\<close>
theorem beat_sleeps_within_jitter:
  assumes "\<forall>b \<in> set bs. beat_harmless rfs b"
    and "\<forall>b \<in> set bs. - of_int (heartbeat_jitter s) \<le> uniform b \<and> uniform b \<le> of_int (heartbeat_jitter s)"
    and "d \<in> set (sleeps (snd (every (beat_pass rfs s) bs [])))"
  shows "of_int (heartbeat_interval s - heartbeat_jitter s) \<le> d \<and>
    d \<le> of_int (heartbeat_interval s + heartbeat_jitter s) \<and>
    (\<exists>s' b. Settings (agent_defaults\<lparr>heartbeat_interval := 5, heartbeat_jitter := 10\<rparr>) = Ok s' \<and>
       - of_int (heartbeat_jitter s') \<le> uniform b \<and> uniform b \<le> of_int (heartbeat_jitter s') \<and>
       (\<exists>d \<in> set (sleeps (snd (beat_pass status_check s' b []))). d < 0))"
  using assms(2,3) beats_count(3) [OF assms(1), of s "[]"] jitter_may_exceed_interval by auto

theorem beat_sleeps_within_jitter_witness:
  "33 \<in> set (sleeps (snd (every (beat_pass status_check agent_defaults) lab_beats []))) \<and>
   of_int (heartbeat_interval agent_defaults - heartbeat_jitter agent_defaults) \<le> (33 :: rat) \<and>
   (33 :: rat) \<le> of_int (heartbeat_interval agent_defaults + heartbeat_jitter agent_defaults)"
proof -
  have d: "33 \<in> set (sleeps (snd (every (beat_pass status_check agent_defaults) lab_beats [])))"
    using beats_count(3) [OF lab_beats_harmless, of agent_defaults "[]"] by (simp add: lab_beats_def agent_defaults_def)
  have "\<forall>b \<in> set lab_beats. - of_int (heartbeat_jitter agent_defaults) \<le> uniform b \<and>
      uniform b \<le> of_int (heartbeat_jitter agent_defaults)"
    by (simp add: lab_beats_def agent_defaults_def)
  from beat_sleeps_within_jitter [OF lab_beats_harmless this d] d show ?thesis by blast
qed

section \<open>The certificate gate\<close>

text \<open>
  C30: The gate fails closed: it lets the agent start exactly when \<open>step\<close> read the certificate, its end
  of validity parses to an instant with time zone, and that instant is in the future; in every other
  case it raises.
\<close>
theorem cert_gate_fails_closed:
  "fst (assert_cert_usable loads fromiso p r h s proc c t) = Ok () \<longleftrightarrow>
     (\<exists>out err e. proc = Completed 0 out err \<and> not_after loads fromiso out = Ok (Aware e) \<and> c < e)"
  by (rule assert_cert_usable_cases [of proc loads fromiso c p r h s t]) auto

text \<open>
  A certificate that expires within two days is announced: if the rounding of the hours left is
  off by at most a tenth, less than 47.9 hours warn and 48.1 hours or more do not.
\<close>
theorem near_expiry_is_announced:
  assumes "proc = Completed 0 out err" and "not_after loads fromiso out = Ok (Aware e)" and "c < e"
    and "\<forall>m. \<bar>r m - of_int m / 3600000000\<bar> \<le> 1 / 10"
  shows "(of_int (e - c) / 3600000000 < (479 / 10 :: rat) \<longrightarrow>
      (\<exists>kvs. assert_cert_usable loads fromiso p r h s proc c t =
         (Ok (), t @ [Agent_Log ''cert_guard'' Warning ''cert_near_expiry'' kvs]))) \<and>
    ((481 / 10 :: rat) \<le> of_int (e - c) / 3600000000 \<longrightarrow>
      (\<exists>kvs. assert_cert_usable loads fromiso p r h s proc c t =
         (Ok (), t @ [Agent_Log ''cert_guard'' Info ''cert_valid'' kvs])))"
proof -
  define v :: rat where "v = of_int (e - c) / 3600000000"
  have "\<bar>r (e - c) - v\<bar> \<le> 1 / 10" unfolding v_def using assms(4) by blast
  then have "r (e - c) - v \<le> 1 / 10" "v - r (e - c) \<le> 1 / 10" by linarith+
  then have "v < 479 / 10 \<Longrightarrow> r (e - c) < 48" and "481 / 10 \<le> v \<Longrightarrow> \<not> r (e - c) < 48"
    by linarith+
  then show ?thesis
    unfolding v_def [symmetric] using assms(1-3) by (auto simp: guard_simps RENEW_WARN_HOURS_def)
qed

theorem near_expiry_is_announced_witness:
  "\<exists>kvs. assert_cert_usable (\<lambda>_. Ok (PDict [(''validity'', PDict [(''end'', PStr ''2026-06-02T00:00:00Z'')])]))
      (\<lambda>x. if x = ''2026-06-02T00:00:00+00:00'' then Ok (Aware 86400000000) else Raise (ValueError x)) (\<lambda>_. [])
      (\<lambda>m. of_int m / 3600000000) (\<lambda>_. PNone) agent_defaults (Completed 0 [] []) 0 [] =
    (Ok (), [Agent_Log ''cert_guard'' Warning ''cert_near_expiry'' kvs])"
proof -
  have "not_after (\<lambda>_. Ok (PDict [(''validity'', PDict [(''end'', PStr ''2026-06-02T00:00:00Z'')])]))
      (\<lambda>x. if x = ''2026-06-02T00:00:00+00:00'' then Ok (Aware 86400000000) else Raise (ValueError x)) [] = Ok (Aware 86400000000)"
    by (simp add: not_after_def)
  from near_expiry_is_announced [OF refl this, where c = 0 and r = "\<lambda>m. of_int m / 3600000000"
      and p = "\<lambda>_. []" and h = "\<lambda>_. PNone" and s = agent_defaults and err = "[]" and t = "[]"]
  show ?thesis by simp
qed

section \<open>The scrape endpoint\<close>

text \<open>
  C31: Only a scraper whose verified common name is in the list is served: it gets the rendering of the
  current metrics, anybody else a 403 and a line in the log, and nothing is collected for them.
\<close>
theorem only_listed_scraper_is_served:
  "fst (scrape g s start p transport remote t) =
     Ok (if (\<exists>c. peer_cn transport = Some c \<and> c \<in> allowed_cns_set s)
         then \<lparr>r_status = 200, r_body = render g s start t p\<rparr> else forbidden)"
  by (rule scrape_cases [of transport s g start p remote t]) (auto simp: metrics_handler_def)

text \<open>
  The list of scrapers reads back as written: names joined by commas give exactly the set of
  those names.
\<close>
theorem scraper_list_roundtrip:
  assumes "cns \<noteq> []" and "\<forall>c \<in> set cns. listable c"
  shows "allowed_cns_set (s\<lparr>allowed_scraper_cns := py_join (CHR '','') cns\<rparr>) = set cns"
  by (rule allowed_cns_join [OF assms])

theorem scraper_list_roundtrip_witness:
  "allowed_cns_set (agent_defaults\<lparr>allowed_scraper_cns := ''prometheus.thesis.local,backup.thesis.local''\<rparr>) =
    {''prometheus.thesis.local'', ''backup.thesis.local''}"
proof -
  have "\<forall>c \<in> set [''prometheus.thesis.local'', ''backup.thesis.local'']. listable c"
    unfolding listable_def by code_simp
  from scraper_list_roundtrip [OF _ this, of agent_defaults] show ?thesis by simp
qed

section \<open>The end of the process\<close>

text \<open>
  The agent ends without an exception exactly when the gate let it start and either a signal
  stopped it, even if a worker crashed at the same time, or no task that was done had an exception.
\<close>
theorem agent_ends_cleanly_exactly_when:
  "fst (agent_main guard s ds t) = Ok () \<longleftrightarrow>
    is_ok (fst (guard (t @ [Agent_Log ''main'' Info ''agent_starting''
             [(''node_id'', PStr (agent_node_id s)), (''common_name'', PStr (node_common_name s)),
              (''controller'', PStr (controller_url s))]]))) \<and>
    (Stopper \<in> fst ` set ds \<or> list_all (\<lambda>(k, r). is_ok r) ds)"
proof -
  let ?t = "t @ [Agent_Log ''main'' Info ''agent_starting''
             [(''node_id'', PStr (agent_node_id s)), (''common_name'', PStr (node_common_name s)),
              (''controller'', PStr (controller_url s))]]"
  obtain q t' where g: "guard ?t = (q, t')" by (cases "guard ?t")
  have "Stopper \<notin> fst ` set ds \<Longrightarrow> (\<forall>(k, r) \<in> set ds. k = Stopper \<or> is_ok r) \<longleftrightarrow> list_all (\<lambda>(k, r). is_ok r) ds"
    by (force simp: list_all_iff)
  then show ?thesis
    using g by (cases q) (auto simp: agent_main_def agent_starting_def act_simps seqn_def bnd_def perform_def after_wait_fst surface_Ok_iff)
qed

end
