(* ===== verification/Agent_Tasks.thy ===== *)
theory Agent_Tasks
  imports Agent_Main
begin

text \<open>
  The three tasks of the agent as the event loop runs them: each is a state, the \<open>await\<close> at which it
  is suspended, and a step, what it does from there to its next \<open>await\<close>. Cancellation throws
  \<open>CancelledError\<close> at the \<open>await\<close>. The heartbeat task stepped on what its awaited calls gave is
  \<open>run_heartbeat\<close>.
\<close>

section \<open>What a step is given\<close>

text \<open>What an awaited call gave: the answer to a request, or just its end; and what a step meets outside.\<close>

datatype reply = Woken | Answered http_response

record outside =
  new_client :: "http_client res"
  sock_name :: "string res"
  jitter_draw :: rat
  tls_context :: "tls_server res"

section \<open>The heartbeat task\<close>

text \<open>\<open>register\<close> up to its \<open>await\<close> and from there.\<close>

definition register_begins :: "agent_settings \<Rightarrow> string res \<Rightarrow> unit agent_act" where
  "register_begins s sock =
     bnd (primary_ip sock) (\<lambda>ip. perform (Post ''/api/v1/nodes'' (register_payload s ip)))"

definition register_ends :: "(http_response \<Rightarrow> unit res) \<Rightarrow> agent_settings \<Rightarrow> http_response \<Rightarrow> bool agent_act" where
  "register_ends raise_for_status s r =
     (if status_code r = 201
      then bnd (got (json r)) (\<lambda>j.
           seqn (perform (Agent_Log ''http_client'' Info ''registered''
                            [(''node_id'', PStr (agent_node_id s)), (''response'', j)]))
                (ret True))
      else if status_code r = 409
      then seqn (perform (Agent_Log ''http_client'' Info ''already_registered''
                            [(''node_id'', PStr (agent_node_id s))]))
                (ret False)
      else seqn (got (raise_for_status r)) (ret False))"

definition heartbeat_ends :: "(http_response \<Rightarrow> unit res) \<Rightarrow> http_response \<Rightarrow> pyval res" where
  "heartbeat_ends raise_for_status r =
     (case raise_for_status r of Raise e \<Rightarrow> Raise e | Ok _ \<Rightarrow> json r)"

datatype hb_state =
    HB_New
  | HB_Registering nat rat
  | HB_Backing_Off nat rat
  | HB_Beating
  | HB_Pausing
  | HB_Closing exn
  | HB_Ended exn

text \<open>The block of \<open>async with\<close> is left, always by an exception: its client is closed first.\<close>

definition leave :: "exn \<Rightarrow> agent_effect list \<Rightarrow> hb_state \<times> agent_effect list" where
  "leave e t = (HB_Closing e, t @ [Client_Close])"

definition attempt_failed :: "nat \<Rightarrow> rat \<Rightarrow> exn \<Rightarrow> agent_effect list \<Rightarrow> hb_state \<times> agent_effect list" where
  "attempt_failed k d e t =
     (if is_HTTPError e
      then (HB_Backing_Off k d,
            t @ [Agent_Log ''heartbeat'' Warning ''register_failed''
                   [(''attempt'', PInt (int k)), (''error'', PStr (str_exc e))], Sleep d])
      else leave e t)"

definition begin_attempt :: "agent_settings \<Rightarrow> outside \<Rightarrow> nat \<Rightarrow> rat \<Rightarrow> agent_effect list \<Rightarrow> hb_state \<times> agent_effect list" where
  "begin_attempt s x k d t =
     (case register_begins s (sock_name x) t of
        (Ok _, t') \<Rightarrow> (HB_Registering k d, t')
      | (Raise e, t') \<Rightarrow> attempt_failed k d e t')"

definition begin_beat :: "agent_settings \<Rightarrow> agent_effect list \<Rightarrow> hb_state \<times> agent_effect list" where
  "begin_beat s t = (HB_Beating, t @ [Post (heartbeat_path s) []])"

definition begin_pause :: "agent_settings \<Rightarrow> outside \<Rightarrow> agent_effect list \<Rightarrow> hb_state \<times> agent_effect list" where
  "begin_pause s x t = (HB_Pausing, t @ [Sleep (of_int (heartbeat_interval s) + jitter_draw x)])"

definition beat_failed :: "agent_settings \<Rightarrow> outside \<Rightarrow> exn \<Rightarrow> agent_effect list \<Rightarrow> hb_state \<times> agent_effect list" where
  "beat_failed s x e t =
     (if is_HTTPError e
      then begin_pause s x (t @ [Heartbeats_Inc ''failure'',
             Agent_Log ''heartbeat'' Error ''heartbeat_failed'' [(''error'', PStr (str_exc e))]])
      else leave e t)"

text \<open>A reply of the wrong kind does not occur, and leaves the task where it is.\<close>

fun hb_step :: "(http_response \<Rightarrow> unit res) \<Rightarrow> agent_settings \<Rightarrow> outside \<Rightarrow> hb_state \<Rightarrow> reply res
    \<Rightarrow> agent_effect list \<Rightarrow> hb_state \<times> agent_effect list" where
  "hb_step rfs s x HB_New (Ok _) t =
     (case new_client x of Raise e \<Rightarrow> (HB_Ended e, t) | Ok _ \<Rightarrow> begin_attempt s x 1 2 t)"
| "hb_step rfs s x HB_New (Raise e) t = (HB_Ended e, t)"
| "hb_step rfs s x (HB_Registering k d) (Ok (Answered r)) t =
     (case register_ends rfs s r t of
        (Ok _, t') \<Rightarrow> begin_beat s (t' @ [loop_starting s])
      | (Raise e, t') \<Rightarrow> attempt_failed k d e t')"
| "hb_step rfs s x (HB_Registering k d) (Raise e) t = attempt_failed k d e t"
| "hb_step rfs s x (HB_Backing_Off k d) (Ok Woken) t =
     (if k < 10 then begin_attempt s x (k + 1) (min (d * (9 / 5)) 60) t
      else leave (RuntimeError ''could not register after 10 attempts'') t)"
| "hb_step rfs s x (HB_Backing_Off k d) (Raise e) t = leave e t"
| "hb_step rfs s x HB_Beating (Ok (Answered r)) t =
     (case heartbeat_ends rfs r of
        Ok _ \<Rightarrow> begin_pause s x (t @ [Heartbeats_Inc ''success''])
      | Raise e \<Rightarrow> beat_failed s x e t)"
| "hb_step rfs s x HB_Beating (Raise e) t = beat_failed s x e t"
| "hb_step rfs s x HB_Pausing (Ok Woken) t = begin_beat s t"
| "hb_step rfs s x HB_Pausing (Raise e) t = leave e t"
| "hb_step rfs s x (HB_Closing e) (Ok Woken) t = (HB_Ended e, t)"
| "hb_step rfs s x (HB_Closing _) (Raise e) t = (HB_Ended e, t)"
| "hb_step rfs s x st _ t = (st, t)"

section \<open>The metrics server and the stopper\<close>

text \<open>
  \<open>\_serve\_metrics\<close>: \<open>stop\<close> is the state of the stop event, whose \<open>wait\<close> does not suspend once it is set.
  Only the wait is inside the \<open>try\<close>: what fails before it does not run \<open>cleanup\<close>.
\<close>

datatype ms_state =
    MS_New
  | MS_Setup
  | MS_Starting
  | MS_Serving
  | MS_Cleaning "unit res"
  | MS_Ended "unit res"

definition clean_up :: "unit res \<Rightarrow> agent_effect list \<Rightarrow> ms_state \<times> agent_effect list" where
  "clean_up q t = (MS_Cleaning q, t @ [Runner_Cleanup])"

fun ms_step :: "agent_settings \<Rightarrow> outside \<Rightarrow> bool \<Rightarrow> ms_state \<Rightarrow> reply res \<Rightarrow> agent_effect list
    \<Rightarrow> ms_state \<times> agent_effect list" where
  "ms_step s x stop MS_New (Ok _) t = (MS_Setup, t)"
| "ms_step s x stop MS_New (Raise e) t = (MS_Ended (Raise e), t)"
| "ms_step s x stop MS_Setup (Ok Woken) t =
     (case tls_context x of Raise e \<Rightarrow> (MS_Ended (Raise e), t) | Ok _ \<Rightarrow> (MS_Starting, t))"
| "ms_step s x stop MS_Setup (Raise e) t = (MS_Ended (Raise e), t)"
| "ms_step s x stop MS_Starting (Ok Woken) t =
     (if stop then clean_up (Ok ()) (t @ [listening s]) else (MS_Serving, t @ [listening s]))"
| "ms_step s x stop MS_Starting (Raise e) t = (MS_Ended (Raise e), t)"
| "ms_step s x stop MS_Serving (Ok _) t = clean_up (Ok ()) t"
| "ms_step s x stop MS_Serving (Raise e) t = clean_up (Raise e) t"
| "ms_step s x stop (MS_Cleaning q) (Ok Woken) t = (MS_Ended q, t)"
| "ms_step s x stop (MS_Cleaning _) (Raise e) t = (MS_Ended (Raise e), t)"
| "ms_step s x stop st _ t = (st, t)"

text \<open>The task of \<open>stop\_event.wait()\<close>.\<close>

datatype st_state = ST_New | ST_Waiting | ST_Ended "unit res"

fun st_step :: "bool \<Rightarrow> st_state \<Rightarrow> reply res \<Rightarrow> st_state" where
  "st_step stop ST_New (Ok _) = (if stop then ST_Ended (Ok ()) else ST_Waiting)"
| "st_step stop ST_Waiting (Ok _) = ST_Ended (Ok ())"
| "st_step stop (ST_Ended q) _ = ST_Ended q"
| "st_step stop _ (Raise e) = ST_Ended (Raise e)"

section \<open>The task is \<open>run\_heartbeat\<close>\<close>

text \<open>The steps on a list of replies, until the block of the client is left.\<close>

fun left_client :: "hb_state \<Rightarrow> bool" where
  "left_client (HB_Closing e) = True"
| "left_client (HB_Ended e) = True"
| "left_client st = False"

fun hb_run :: "(http_response \<Rightarrow> unit res) \<Rightarrow> agent_settings \<Rightarrow> (outside \<times> reply res) list
    \<Rightarrow> hb_state \<times> agent_effect list \<Rightarrow> hb_state \<times> agent_effect list" where
  "hb_run rfs s [] c = c"
| "hb_run rfs s ((x, r) # xs) (st, t) =
     (if left_client st then (st, t) else hb_run rfs s xs (hb_step rfs s x st r t))"

text \<open>What \<open>run\_heartbeat\<close> is given, in the order in which the steps take it.\<close>

fun answered :: "http_response res \<Rightarrow> reply res" where
  "answered (Ok r) = Ok (Answered r)"
| "answered (Raise e) = Raise e"

fun woken :: "unit res \<Rightarrow> reply res" where
  "woken (Ok _) = Ok Woken"
| "woken (Raise e) = Raise e"

definition meets :: "http_client res \<Rightarrow> string res \<Rightarrow> rat \<Rightarrow> outside" where
  "meets c u q = \<lparr>new_client = c, sock_name = u, jitter_draw = q, tls_context = Raise CancelledError\<rparr>"

lemma meets_simps [simp]:
  "new_client (meets c u q) = c" "sock_name (meets c u q) = u" "jitter_draw (meets c u q) = q"
  by (simp_all add: meets_def)

fun attempt_feed :: "(http_response \<Rightarrow> unit res) \<Rightarrow> http_client res \<Rightarrow> attempt list \<Rightarrow> (outside \<times> reply res) list" where
  "attempt_feed rfs c [] = []"
| "attempt_feed rfs c (a # as) = (meets c (Ok []) 0, answered (answer a)) #
     (if is_ok (attempt_value rfs a) then []
      else (meets c (case as of [] \<Rightarrow> Ok [] | b # _ \<Rightarrow> udp b) 0, woken (nap a)) # attempt_feed rfs c as)"

definition beat_feed :: "http_client res \<Rightarrow> beat \<Rightarrow> (outside \<times> reply res) list" where
  "beat_feed c b = [(meets c (Ok []) (uniform b), answered (beat_answer b)), (meets c (Ok []) 0, woken (beat_nap b))]"

definition heartbeat_feed :: "(http_response \<Rightarrow> unit res) \<Rightarrow> http_client res \<Rightarrow> (nat \<Rightarrow> attempt) \<Rightarrow> beat list
    \<Rightarrow> (outside \<times> reply res) list" where
  "heartbeat_feed rfs c env beats =
     (meets c (udp (env 1)) 0, Ok Woken) # attempt_feed rfs c (map env [1..<11]) @ concat (map (beat_feed c) beats)"

lemma register_split:
  "register rfs s sock resp = seqn (register_begins s sock) (bnd (got resp) (register_ends rfs s))"
  by (rule ext) (simp add: register_def register_begins_def register_ends_def [abs_def] seqn_def bnd_assoc http_post_def)

lemma register_begins_eq:
  assumes "socket_answers sock"
  obtains ip where "\<And>t. register_begins s sock t = (Ok (), t @ [Socket_Close, Post ''/api/v1/nodes'' (register_payload s ip)])"
proof -
  obtain ip where "\<And>t. primary_ip sock t = (Ok ip, t @ [Socket_Close])"
    using assms by (cases sock) (auto simp: primary_ip_eq socket_answers_def)
  then show thesis by (intro that [of ip]) (simp add: register_begins_def bnd_Ok perform_def)
qed

lemma register_ends_fst: "fst (register_ends rfs s r t) = register_value rfs r"
  by (simp add: register_ends_def register_value_def seqn_def bnd_def got_def perform_def ret_def split: res.splits)

lemma post_heartbeat_ends:
  "post_heartbeat rfs s None resp t =
    (case resp of Raise e \<Rightarrow> Raise e | Ok r \<Rightarrow> heartbeat_ends rfs r, t @ [Post (heartbeat_path s) []])"
  by (simp add: prod_eq_iff post_heartbeat_fst post_heartbeat_snd heartbeat_ends_def split: res.splits)

lemma hb_run_left [simp]: "left_client st \<Longrightarrow> hb_run rfs s xs (st, t) = (st, t)"
  by (cases xs) auto

lemma hb_run_leave [simp]: "hb_run rfs s xs (leave e t) = leave e t"
  by (simp add: leave_def)

text \<open>One attempt, from its first request to the next attempt or to the loop.\<close>

lemma attempt_begun:
  assumes "socket_answers u"
  obtains t1 where "register_begins s u t = (Ok (), t1)"
    and "\<And>resp. register rfs s u resp t =
      (case resp of Raise e \<Rightarrow> (Raise e, t1) | Ok r \<Rightarrow> register_ends rfs s r t1)"
  using register_begins_eq [OF assms] by (simp add: register_split act_simps) metis

lemma hb_run_failed_attempt:
  assumes "k + length as = 10" and "\<forall>b \<in> set as. socket_answers (udp b)"
    and "\<And>b bs (x :: outside) d t. as = b # bs \<Longrightarrow> sock_name x = udp b \<Longrightarrow>
      hb_run rfs s (attempt_feed rfs c as @ ys) (begin_attempt s x (Suc k) d t) =
      (case attempts rfs s (int k + 1) d as t of
         (Ok _, t') \<Rightarrow> hb_run rfs s ys (begin_beat s (t' @ [loop_starting s]))
       | (Raise e, t') \<Rightarrow> leave e t')"
  shows "hb_run rfs s ((meets c (case as of [] \<Rightarrow> Ok [] | b # _ \<Rightarrow> udp b) 0, woken n) # attempt_feed rfs c as @ ys)
      (attempt_failed k d e t) =
    (case (if is_HTTPError e
           then seqn (perform (Agent_Log ''heartbeat'' Warning ''register_failed''
                                 [(''attempt'', PInt (int k)), (''error'', PStr (str_exc e))]))
               (seqn (perform (Sleep d))
               (seqn (got n)
                     (attempts rfs s (int k + 1) (min (d * (9 / 5)) 60) as)))
           else throw e) t of
       (Ok _, t') \<Rightarrow> hb_run rfs s ys (begin_beat s (t' @ [loop_starting s]))
     | (Raise e, t') \<Rightarrow> leave e t')"
proof (cases "is_HTTPError e")
  case False
  then show ?thesis by (simp add: attempt_failed_def throw_def)
next
  case True
  show ?thesis
  proof (cases n)
    case (Raise e')
    with True show ?thesis by (simp add: attempt_failed_def act_simps)
  next
    case (Ok u)
    show ?thesis
    proof (cases as)
      case Nil
      with True Ok assms(1) show ?thesis by (simp add: attempt_failed_def act_simps)
    next
      case (Cons b bs)
      then have "k < 10" using assms(1) by simp
      with True Ok Cons show ?thesis
        by (simp add: attempt_failed_def act_simps assms(3) [OF Cons, unfolded Cons] del: attempts.simps attempt_feed.simps)
    qed
  qed
qed

lemma hb_run_one_attempt:
  assumes "k + length as = 10" and "\<forall>b \<in> set (a # as). socket_answers (udp b)" and "sock_name x = udp a"
    and rest: "\<And>b bs (x :: outside) d t. as = b # bs \<Longrightarrow> sock_name x = udp b \<Longrightarrow>
      hb_run rfs s (attempt_feed rfs c as @ ys) (begin_attempt s x (Suc k) d t) =
      (case attempts rfs s (int k + 1) d as t of
         (Ok _, t') \<Rightarrow> hb_run rfs s ys (begin_beat s (t' @ [loop_starting s]))
       | (Raise e, t') \<Rightarrow> leave e t')"
  shows "hb_run rfs s (attempt_feed rfs c (a # as) @ ys) (begin_attempt s x k d t) =
    (case attempts rfs s (int k) d (a # as) t of
       (Ok _, t') \<Rightarrow> hb_run rfs s ys (begin_beat s (t' @ [loop_starting s]))
     | (Raise e, t') \<Rightarrow> leave e t')"
proof -
  have "socket_answers (udp a)" using assms(2) by simp
  then obtain t1 where t1: "register_begins s (udp a) t = (Ok (), t1)"
    and r: "\<And>resp. register rfs s (udp a) resp t =
      (case resp of Raise e \<Rightarrow> (Raise e, t1) | Ok r \<Rightarrow> register_ends rfs s r t1)"
    by (rule attempt_begun [of "udp a" s t]) blast
  have "\<forall>b \<in> set as. socket_answers (udp b)" using assms(2) by simp
  note f = hb_run_failed_attempt [OF assms(1) this rest]
  show ?thesis
  proof (cases "answer a")
    case (Raise e)
    with t1 assms(3) show ?thesis
      by (simp add: begin_attempt_def attempt_value_def r f throw_def)
  next
    case (Ok h)
    obtain q t2 where q: "register_ends rfs s h t1 = (q, t2)" by (cases "register_ends rfs s h t1")
    then have v: "attempt_value rfs a = (case q of Ok b \<Rightarrow> Ok b | Raise e \<Rightarrow> Raise e)"
      using register_ends_fst [of rfs s h t1] Ok by (simp add: attempt_value_def split: res.splits)
    with t1 q assms(3) Ok show ?thesis
      by (cases q) (simp_all add: begin_attempt_def r f throw_def)
  qed
qed

lemma hb_run_attempts:
  assumes "\<forall>b \<in> set (a # as). socket_answers (udp b)" and "sock_name x = udp a" and "k + length as = 10"
  shows "hb_run rfs s (attempt_feed rfs c (a # as) @ ys) (begin_attempt s x k d t) =
    (case attempts rfs s (int k) d (a # as) t of
       (Ok _, t') \<Rightarrow> hb_run rfs s ys (begin_beat s (t' @ [loop_starting s]))
     | (Raise e, t') \<Rightarrow> leave e t')"
  using assms
proof (induction as arbitrary: a k d t x)
  case Nil
  then show ?case by (intro hb_run_one_attempt) simp_all
next
  case (Cons b as)
  show ?case
  proof (rule hb_run_one_attempt [OF Cons.prems(3,1,2)])
    fix b' bs d' t' and x' :: outside
    assume "b # as = b' # bs" and "sock_name x' = udp b'"
    with Cons.prems Cons.IH [of b x' "Suc k" d' t']
    show "hb_run rfs s (attempt_feed rfs c (b # as) @ ys) (begin_attempt s x' (Suc k) d' t') =
      (case attempts rfs s (int k + 1) d' (b # as) t' of
         (Ok _, t') \<Rightarrow> hb_run rfs s ys (begin_beat s (t' @ [loop_starting s]))
       | (Raise e, t') \<Rightarrow> leave e t')"
      by (simp add: add.commute del: attempts.simps attempt_feed.simps)
  qed
qed

text \<open>The beats.\<close>

lemma hb_run_beat:
  "hb_run rfs s (beat_feed c b @ ys) (begin_beat s t) =
    (case beat_pass rfs s b t of
       (Ok _, t') \<Rightarrow> hb_run rfs s ys (begin_beat s t')
     | (Raise e, t') \<Rightarrow> leave e t')"
  by (cases "beat_answer b"; cases "beat_nap b")
     (auto simp: beat_feed_def begin_beat_def beat_pass_def post_heartbeat_ends pause_def act_simps
       begin_pause_def beat_failed_def split: res.splits)

lemma hb_run_beats:
  "hb_run rfs s (concat (map (beat_feed c) bs)) (begin_beat s t) =
    (case every (beat_pass rfs s) bs t of
       (Ok _, t') \<Rightarrow> begin_beat s t'
     | (Raise e, t') \<Rightarrow> leave e t')"
proof (induction bs arbitrary: t)
  case Nil
  then show ?case by (simp add: ret_def)
next
  case (Cons b bs)
  then show ?case
    by (simp add: hb_run_beat seqn_def bnd_def split: prod.splits res.splits)
qed

lemma hb_run_is_run_heartbeat:
  assumes "\<forall>j \<in> {1..10}. socket_answers (udp (env j))"
  shows "hb_run rfs s (heartbeat_feed rfs (Ok c) env bs) (HB_New, t) =
    (case run_heartbeat rfs (Ok c) s env bs t of
       (Ok _, t') \<Rightarrow> begin_beat s t'
     | (Raise e, t') \<Rightarrow> (HB_Closing e, t'))"
proof -
  obtain as where as: "map env [1..<11] = env 1 # as" and len: "length as = 9"
  proof
    have "[1..<11] = (1::nat) # [Suc 1..<11]" by (rule upt_conv_Cons) simp
    then show "map env [1..<11] = env 1 # map env [Suc 1..<11]" by (simp only: list.map)
  qed simp
  have "set (env 1 # as) = env ` {1..10}" unfolding as [symmetric] by auto
  then have "\<forall>b \<in> set (env 1 # as). socket_answers (udp b)" using assms by auto
  then have a: "hb_run rfs s (attempt_feed rfs (Ok c) (env 1 # as) @ concat (map (beat_feed (Ok c)) bs))
      (begin_attempt s (meets (Ok c) (udp (env 1)) 0) 1 2 t) =
    (case attempts rfs s 1 2 (env 1 # as) t of
       (Ok _, t') \<Rightarrow> hb_run rfs s (concat (map (beat_feed (Ok c)) bs)) (begin_beat s (t' @ [loop_starting s]))
     | (Raise e, t') \<Rightarrow> leave e t')"
    using hb_run_attempts [of "env 1" as "meets (Ok c) (udp (env 1)) 0" 1] len by (simp del: attempts.simps attempt_feed.simps)
  obtain q t1 where q: "attempts rfs s 1 2 (env 1 # as) t = (q, t1)" by (cases "attempts rfs s 1 2 (env 1 # as) t")
  have feed: "heartbeat_feed rfs (Ok c) env bs =
      (meets (Ok c) (udp (env 1)) 0, Ok Woken) # attempt_feed rfs (Ok c) (env 1 # as) @ concat (map (beat_feed (Ok c)) bs)"
    by (simp only: heartbeat_feed_def as)
  have reg: "attempt_register rfs s env = attempts rfs s 1 2 (env 1 # as)"
    by (simp only: attempt_register_def as)
  have "hb_run rfs s (heartbeat_feed rfs (Ok c) env bs) (HB_New, t) =
    (case (q, t1) of
       (Ok _, t') \<Rightarrow> hb_run rfs s (concat (map (beat_feed (Ok c)) bs)) (begin_beat s (t' @ [loop_starting s]))
     | (Raise e, t') \<Rightarrow> leave e t')"
    unfolding feed using a q by (simp del: attempts.simps attempt_feed.simps)
  moreover have "run_heartbeat rfs (Ok c) s env bs t = within_client
      (seqn (\<lambda>_. (q, t1)) (seqn (perform (loop_starting s)) (every (beat_pass rfs s) bs))) t"
    using q by (simp add: run_heartbeat_def reg bnd_got within_client_def seqn_def bnd_def got_def del: attempts.simps)
  ultimately show ?thesis
    by (cases q) (simp_all add: within_client_def act_simps hb_run_beats leave_def split: prod.splits res.splits)
qed

end
