(* ===== verification/Agent_Loop.thy ===== *)
theory Agent_Loop
  imports Agent_Tasks
begin

text \<open>
  The event loop of the agent (\<open>main.py\<close>): a first-in first-out queue of callbacks, as asyncio keeps it,
  that holds the steps of the three tasks and what \<open>asyncio.wait\<close> and \<open>asyncio.gather\<close> are told when a
  task is done. What happens outside is an event: the signal handler, the end of an awaited call, a
  turn of the loop.
\<close>

section \<open>The state\<close>

text \<open>\<open>main\<close> waits for the first task, woken or not; then for the tasks it cancelled, some still to come.\<close>

datatype main_state =
    M_Waiting bool
  | M_Gathering nat "(task \<times> unit res) list"
  | M_Ended "unit res"

fun main_ended :: "main_state \<Rightarrow> bool" where
  "main_ended (M_Ended q) = True"
| "main_ended _ = False"

datatype callback =
    Step task "reply res"
  | On_Completion
  | On_Child
  | Main_Step

record process =
  heartbeat_task :: hb_state
  metrics_task :: ms_state
  stopper :: st_state
  main_at :: main_state
  stop_set :: bool
  waiters :: "task list"
  ready :: "callback list"
  must_cancel :: "task set"
  performed :: "agent_effect list"

text \<open>After \<open>create\_task\<close> three times, at the first suspension of \<open>main\<close>.\<close>

definition process_start :: "agent_effect list \<Rightarrow> process" where
  "process_start t =
     \<lparr>heartbeat_task = HB_New, metrics_task = MS_New, stopper = ST_New, main_at = M_Waiting False,
      stop_set = False, waiters = [],
      ready = [Step Heartbeat_Task (Ok Woken), Step Metrics_Task (Ok Woken), Step Stopper (Ok Woken)],
      must_cancel = {}, performed = t\<rparr>"

text \<open>\<open>main\<close> up to there: the first log line, then the gate, which may end the process.\<close>

definition agent_process :: "unit agent_act \<Rightarrow> agent_settings \<Rightarrow> agent_effect list \<Rightarrow> exn + process" where
  "agent_process guard s t =
     (case seqn (perform (agent_starting s)) guard t of
        (Ok _, t') \<Rightarrow> Inr (process_start t')
      | (Raise e, t') \<Rightarrow> Inl e)"

fun outcome :: "process \<Rightarrow> task \<Rightarrow> unit res option" where
  "outcome p Heartbeat_Task = (case heartbeat_task p of HB_Ended e \<Rightarrow> Some (Raise e) | _ \<Rightarrow> None)"
| "outcome p Metrics_Task = (case metrics_task p of MS_Ended q \<Rightarrow> Some q | _ \<Rightarrow> None)"
| "outcome p Stopper = (case stopper p of ST_Ended q \<Rightarrow> Some q | _ \<Rightarrow> None)"

fun is_step_of :: "task \<Rightarrow> callback \<Rightarrow> bool" where
  "is_step_of k (Step j r) = (j = k)"
| "is_step_of k _ = False"

lemma is_step_of_iff: "is_step_of k c \<longleftrightarrow> (\<exists>r. c = Step k r)"
  by (cases c) auto

definition scheduled :: "task \<Rightarrow> process \<Rightarrow> bool" where
  "scheduled k p \<longleftrightarrow> list_ex (is_step_of k) (ready p)"

definition schedule :: "callback list \<Rightarrow> process \<Rightarrow> process" where
  "schedule cs p = p\<lparr>ready := ready p @ cs\<rparr>"

section \<open>A step of a task\<close>

definition advance :: "(http_response \<Rightarrow> unit res) \<Rightarrow> agent_settings \<Rightarrow> outside \<Rightarrow> task \<Rightarrow> reply res \<Rightarrow> process \<Rightarrow> process" where
  "advance rfs s x k r p =
     (case k of
        Heartbeat_Task \<Rightarrow>
          (case hb_step rfs s x (heartbeat_task p) r (performed p) of
             (st, t) \<Rightarrow> p\<lparr>heartbeat_task := st, performed := t\<rparr>)
      | Metrics_Task \<Rightarrow>
          (case ms_step s x (stop_set p) (metrics_task p) r (performed p) of
             (st, t) \<Rightarrow> p\<lparr>metrics_task := st, performed := t,
                           waiters := waiters p @ (if st = MS_Serving \<and> metrics_task p \<noteq> MS_Serving then [Metrics_Task] else [])\<rparr>)
      | Stopper \<Rightarrow>
          (let st = st_step (stop_set p) (stopper p) r in
           p\<lparr>stopper := st,
             waiters := waiters p @ (if st = ST_Waiting \<and> stopper p \<noteq> ST_Waiting then [Stopper] else [])\<rparr>))"

text \<open>A task that is done tells the one that waits for it: \<open>wait\<close> at first, \<open>gather\<close> later.\<close>

definition tell :: "process \<Rightarrow> callback list" where
  "tell p = (case main_at p of M_Waiting _ \<Rightarrow> [On_Completion] | M_Gathering _ _ \<Rightarrow> [On_Child] | M_Ended _ \<Rightarrow> [])"

text \<open>A task that was cancelled with a step scheduled gets \<open>CancelledError\<close> at that step.\<close>

definition step_task :: "(http_response \<Rightarrow> unit res) \<Rightarrow> agent_settings \<Rightarrow> outside \<Rightarrow> task \<Rightarrow> reply res \<Rightarrow> process \<Rightarrow> process" where
  "step_task rfs s x k r p =
     (let p' = advance rfs s x k (if k \<in> must_cancel p then Raise CancelledError else r)
                 (p\<lparr>must_cancel := must_cancel p - {k}\<rparr>)
      in if outcome p k = None \<and> outcome p' k \<noteq> None then schedule (tell p') p' else p')"

text \<open>
  \<open>Task.cancel\<close>: nothing for a task that is done; a task whose step is scheduled is marked; for any
  other the awaited call is cancelled, which schedules its step with \<open>CancelledError\<close>.
\<close>

definition cancel :: "task \<Rightarrow> process \<Rightarrow> process" where
  "cancel k p =
     (if outcome p k \<noteq> None then p
      else if scheduled k p then p\<lparr>must_cancel := insert k (must_cancel p)\<rparr>
      else schedule [Step k (Raise CancelledError)] (p\<lparr>waiters := filter (\<lambda>j. j \<noteq> k) (waiters p)\<rparr>))"

section \<open>A step of \<open>main\<close>\<close>

definition finish :: "(task \<times> unit res) list \<Rightarrow> process \<Rightarrow> process" where
  "finish ds p = (case after_wait ds (performed p) of (q, t) \<Rightarrow> p\<lparr>main_at := M_Ended q, performed := t\<rparr>)"

text \<open>
  \<open>wait\<close> returns: the tasks that are done by now, with their outcomes, and the others, which are
  cancelled and gathered. \<open>order\<close> is the order in which the two sets are iterated. Gathering
  nothing does not suspend.
\<close>

definition done_tasks :: "task list \<Rightarrow> process \<Rightarrow> (task \<times> unit res) list" where
  "done_tasks order p = concat (map (\<lambda>k. case outcome p k of None \<Rightarrow> [] | Some q \<Rightarrow> [(k, q)]) order)"

definition pending_tasks :: "task list \<Rightarrow> process \<Rightarrow> task list" where
  "pending_tasks order p = filter (\<lambda>k. outcome p k = None) order"

definition wait_returns :: "task list \<Rightarrow> process \<Rightarrow> process" where
  "wait_returns order p =
     (let ds = done_tasks order p; ps = pending_tasks order p; p' = fold cancel ps p
      in if ps = [] then finish ds p' else p'\<lparr>main_at := M_Gathering (length ps) ds\<rparr>)"

definition main_step :: "task list \<Rightarrow> process \<Rightarrow> process" where
  "main_step order p =
     (case main_at p of
        M_Waiting _ \<Rightarrow> wait_returns order p
      | M_Gathering _ ds \<Rightarrow> finish ds p
      | M_Ended _ \<Rightarrow> p)"

text \<open>The first completion wakes \<open>wait\<close>; the last child wakes \<open>gather\<close>.\<close>

definition on_completion :: "process \<Rightarrow> process" where
  "on_completion p =
     (if main_at p = M_Waiting False then schedule [Main_Step] (p\<lparr>main_at := M_Waiting True\<rparr>) else p)"

definition on_child :: "process \<Rightarrow> process" where
  "on_child p =
     (case main_at p of
        M_Gathering n ds \<Rightarrow>
          (if n = 1 then schedule [Main_Step] else id) (p\<lparr>main_at := M_Gathering (n - 1) ds\<rparr>)
      | _ \<Rightarrow> p)"

fun run_callback :: "(http_response \<Rightarrow> unit res) \<Rightarrow> agent_settings \<Rightarrow> task list \<Rightarrow> outside \<Rightarrow> callback \<Rightarrow> process \<Rightarrow> process" where
  "run_callback rfs s order x (Step k r) p = step_task rfs s x k r p"
| "run_callback rfs s order x On_Completion p = on_completion p"
| "run_callback rfs s order x On_Child p = on_child p"
| "run_callback rfs s order x Main_Step p = main_step order p"

section \<open>Events\<close>

text \<open>Whether a task is suspended in a call that may give this: an answer, a mere end, or an exception.\<close>

fun may_answer :: "reply res \<Rightarrow> bool" where
  "may_answer (Ok Woken) = False"
| "may_answer _ = True"

fun may_wake :: "reply res \<Rightarrow> bool" where
  "may_wake (Ok (Answered _)) = False"
| "may_wake _ = True"

fun hb_awaits :: "hb_state \<Rightarrow> reply res \<Rightarrow> bool" where
  "hb_awaits (HB_Registering k d) r = may_answer r"
| "hb_awaits HB_Beating r = may_answer r"
| "hb_awaits (HB_Backing_Off k d) r = may_wake r"
| "hb_awaits HB_Pausing r = may_wake r"
| "hb_awaits (HB_Closing e) r = may_wake r"
| "hb_awaits _ r = False"

fun ms_awaits :: "ms_state \<Rightarrow> reply res \<Rightarrow> bool" where
  "ms_awaits MS_Setup r = may_wake r"
| "ms_awaits MS_Starting r = may_wake r"
| "ms_awaits (MS_Cleaning q) r = may_wake r"
| "ms_awaits _ r = False"

fun awaits :: "process \<Rightarrow> task \<Rightarrow> reply res \<Rightarrow> bool" where
  "awaits p Heartbeat_Task r \<longleftrightarrow> hb_awaits (heartbeat_task p) r"
| "awaits p Metrics_Task r \<longleftrightarrow> ms_awaits (metrics_task p) r"
| "awaits p Stopper r \<longleftrightarrow> False"

datatype loop_event =
    Signal
  | Completes task "reply res"
  | Turn outside

text \<open>
  The signal handler sets the stop event, which wakes those who wait for it, once. A call ends that is
  awaited and whose end is not yet scheduled. A turn of the loop runs the first callback. Once
  \<open>main\<close> has ended the loop is closed.
\<close>

fun process_step :: "(http_response \<Rightarrow> unit res) \<Rightarrow> agent_settings \<Rightarrow> task list \<Rightarrow> loop_event \<Rightarrow> process \<Rightarrow> process" where
  "process_step rfs s order Signal p =
     (if stop_set p \<or> main_ended (main_at p) then p
      else schedule (map (\<lambda>k. Step k (Ok Woken)) (waiters p)) (p\<lparr>stop_set := True, waiters := []\<rparr>))"
| "process_step rfs s order (Completes k r) p =
     (if main_ended (main_at p) \<or> \<not> awaits p k r \<or> scheduled k p then p
      else schedule [Step k r] p)"
| "process_step rfs s order (Turn x) p =
     (case ready p of
        [] \<Rightarrow> p
      | c # cs \<Rightarrow> if main_ended (main_at p) then p else run_callback rfs s order x c (p\<lparr>ready := cs\<rparr>))"

fun process_run :: "(http_response \<Rightarrow> unit res) \<Rightarrow> agent_settings \<Rightarrow> task list \<Rightarrow> loop_event list \<Rightarrow> process \<Rightarrow> process" where
  "process_run rfs s order [] p = p"
| "process_run rfs s order (e # es) p = process_run rfs s order es (process_step rfs s order e p)"

end
