(* ===== verification/Agent_Loop_Safe.thy ===== *)
theory Agent_Loop_Safe
  imports Agent_Loop
begin

text \<open>
  Invariants of the agent's event loop, kept by every event: the queue holds at most one step of each
  task, the tasks are where their effects say, and the end of \<open>main\<close> is the outcome of a task that
  was done.
\<close>

section \<open>Fields after the operations\<close>

named_theorems loop_simps "fields of the process after its operations"

lemma schedule_simps [loop_simps]:
  "heartbeat_task (schedule cs p) = heartbeat_task p" "metrics_task (schedule cs p) = metrics_task p"
  "stopper (schedule cs p) = stopper p" "main_at (schedule cs p) = main_at p"
  "stop_set (schedule cs p) = stop_set p" "waiters (schedule cs p) = waiters p"
  "ready (schedule cs p) = ready p @ cs" "must_cancel (schedule cs p) = must_cancel p"
  "performed (schedule cs p) = performed p"
  by (simp_all add: schedule_def)

lemma outcome_cong:
  "heartbeat_task p = heartbeat_task q \<Longrightarrow> metrics_task p = metrics_task q \<Longrightarrow> stopper p = stopper q \<Longrightarrow>
    outcome p k = outcome q k"
  by (cases k) simp_all

lemma outcome_schedule [loop_simps]: "outcome (schedule cs p) k = outcome p k"
  by (rule outcome_cong) (simp_all add: loop_simps)

lemma outcome_updates [simp]:
  "outcome (p\<lparr>main_at := m\<rparr>) k = outcome p k" "outcome (p\<lparr>stop_set := b\<rparr>) k = outcome p k"
  "outcome (p\<lparr>waiters := w\<rparr>) k = outcome p k" "outcome (p\<lparr>ready := c\<rparr>) k = outcome p k"
  "outcome (p\<lparr>must_cancel := d\<rparr>) k = outcome p k" "outcome (p\<lparr>performed := t\<rparr>) k = outcome p k"
  by (rule outcome_cong; simp)+

lemma advance_simps [loop_simps]:
  "main_at (advance rfs s x k r p) = main_at p" "stop_set (advance rfs s x k r p) = stop_set p"
  "ready (advance rfs s x k r p) = ready p" "must_cancel (advance rfs s x k r p) = must_cancel p"
  by (simp_all add: advance_def Let_def split: task.splits prod.splits)

lemma outcome_advance [loop_simps]: "j \<noteq> k \<Longrightarrow> outcome (advance rfs s x k r p) j = outcome p j"
  by (cases j; cases k) (simp_all add: advance_def Let_def split: prod.splits)

lemma finish_simps [loop_simps]:
  "heartbeat_task (finish ds p) = heartbeat_task p" "metrics_task (finish ds p) = metrics_task p"
  "stopper (finish ds p) = stopper p" "main_at (finish ds p) = M_Ended (fst (after_wait ds (performed p)))"
  "stop_set (finish ds p) = stop_set p" "waiters (finish ds p) = waiters p"
  "ready (finish ds p) = ready p" "must_cancel (finish ds p) = must_cancel p"
  "performed (finish ds p) = snd (after_wait ds (performed p))"
  by (simp_all add: finish_def split: prod.splits)

lemma outcome_finish [loop_simps]: "outcome (finish ds p) k = outcome p k"
  by (rule outcome_cong) (simp_all add: loop_simps)

lemma cancel_simps [loop_simps]:
  "heartbeat_task (cancel k p) = heartbeat_task p" "metrics_task (cancel k p) = metrics_task p"
  "stopper (cancel k p) = stopper p" "main_at (cancel k p) = main_at p"
  "stop_set (cancel k p) = stop_set p" "performed (cancel k p) = performed p"
  by (simp_all add: cancel_def loop_simps)

lemma outcome_cancel [loop_simps]: "outcome (cancel j p) k = outcome p k"
  by (rule outcome_cong) (simp_all add: loop_simps)

lemma cancels_simps [loop_simps]:
  "heartbeat_task (fold cancel ks p) = heartbeat_task p" "metrics_task (fold cancel ks p) = metrics_task p"
  "stopper (fold cancel ks p) = stopper p" "main_at (fold cancel ks p) = main_at p"
  "stop_set (fold cancel ks p) = stop_set p" "performed (fold cancel ks p) = performed p"
  by (induction ks arbitrary: p) (simp_all add: loop_simps)

lemma outcome_cancels [loop_simps]: "outcome (fold cancel ks p) k = outcome p k"
  by (rule outcome_cong) (simp_all add: loop_simps)

text \<open>A run keeps what every event keeps.\<close>

lemma process_run_keeps:
  assumes "P p" and "\<And>e q. P q \<Longrightarrow> P (process_step rfs s order e q)"
  shows "P (process_run rfs s order es p)"
  using assms(1) by (induction es arbitrary: p) (simp_all add: assms(2))

lemma process_turn:
  assumes "P p"
    and "\<And>c cs. ready p = c # cs \<Longrightarrow> \<not> main_ended (main_at p) \<Longrightarrow> P (run_callback rfs s order x c (p\<lparr>ready := cs\<rparr>))"
  shows "P (process_step rfs s order (Turn x) p)"
  using assms by (cases "ready p") simp_all

section \<open>The queue\<close>

definition steps_in :: "task \<Rightarrow> process \<Rightarrow> nat" where
  "steps_in k p = length (filter (is_step_of k) (ready p))"

lemma scheduled_iff: "scheduled k p \<longleftrightarrow> 0 < steps_in k p"
  by (auto simp: scheduled_def steps_in_def list_ex_iff filter_empty_conv)

lemma steps_in_schedule: "steps_in k (schedule cs p) = steps_in k p + length (filter (is_step_of k) cs)"
  by (simp add: steps_in_def loop_simps)

lemma tell_steps [simp]: "filter (is_step_of k) (tell p) = []"
  by (simp add: tell_def split: main_state.splits)

text \<open>
  At most one step of each task is scheduled, none of a task that is done or waits for the stop
  event; only those wait for it who are at its \<open>wait\<close>, while it is not set.
\<close>

definition queue_ok :: "process \<Rightarrow> bool" where
  "queue_ok p \<longleftrightarrow>
     (\<forall>k. steps_in k p \<le> (if outcome p k = None \<and> k \<notin> set (waiters p) then 1 else 0)) \<and>
     distinct (waiters p) \<and> (stop_set p \<longrightarrow> waiters p = []) \<and>
     (\<forall>k \<in> set (waiters p). k = Metrics_Task \<and> metrics_task p = MS_Serving \<or> k = Stopper \<and> stopper p = ST_Waiting)"

lemma queue_okD:
  assumes "queue_ok p"
  shows "steps_in k p \<le> 1" and "outcome p k \<noteq> None \<Longrightarrow> steps_in k p = 0"
    and "k \<in> set (waiters p) \<Longrightarrow> steps_in k p = 0" and "distinct (waiters p)" and "stop_set p \<Longrightarrow> waiters p = []"
    and "k \<in> set (waiters p) \<Longrightarrow> outcome p k = None"
    and "k \<in> set (waiters p) \<Longrightarrow> k = Metrics_Task \<and> metrics_task p = MS_Serving \<or> k = Stopper \<and> stopper p = ST_Waiting"
proof -
  have st: "steps_in k p \<le> (if outcome p k = None \<and> k \<notin> set (waiters p) then 1 else 0)" for k
    using assms by (simp add: queue_ok_def)
  show w: "k \<in> set (waiters p) \<Longrightarrow> k = Metrics_Task \<and> metrics_task p = MS_Serving \<or> k = Stopper \<and> stopper p = ST_Waiting"
    "distinct (waiters p)" "stop_set p \<Longrightarrow> waiters p = []"
    using assms by (auto simp: queue_ok_def)
  show "k \<in> set (waiters p) \<Longrightarrow> outcome p k = None" using w(1) by auto
  show "steps_in k p \<le> 1" "outcome p k \<noteq> None \<Longrightarrow> steps_in k p = 0" "k \<in> set (waiters p) \<Longrightarrow> steps_in k p = 0"
    using st [of k] by (auto split: if_splits)
qed

lemma count_waiters:
  "distinct ws \<Longrightarrow> length (filter (is_step_of k \<circ> (\<lambda>k. Step k r)) ws) = (if k \<in> set ws then 1 else 0)"
  by (induction ws) auto

lemma queue_okI:
  assumes "\<And>k. steps_in k p \<le> 1" and "\<And>k. outcome p k \<noteq> None \<or> k \<in> set (waiters p) \<Longrightarrow> steps_in k p = 0"
    and "distinct (waiters p)" and "stop_set p \<Longrightarrow> waiters p = []"
    and "\<And>k. k \<in> set (waiters p) \<Longrightarrow> k = Metrics_Task \<and> metrics_task p = MS_Serving \<or> k = Stopper \<and> stopper p = ST_Waiting"
  shows "queue_ok p"
  using assms by (simp add: queue_ok_def)

lemma queue_ok_Signal:
  assumes "queue_ok p"
  shows "queue_ok (process_step rfs s order Signal p)"
proof (cases "stop_set p \<or> main_ended (main_at p)")
  case False
  let ?q = "process_step rfs s order Signal p"
  have n: "steps_in k ?q = steps_in k p + (if k \<in> set (waiters p) then 1 else 0)" for k
    using False count_waiters [OF queue_okD(4) [OF assms], of k "Ok Woken"] by (simp add: steps_in_def loop_simps)
  show ?thesis
  proof (rule queue_okI)
    fix k
    show "steps_in k ?q \<le> 1"
      unfolding n using queue_okD(1,3) [OF assms, of k] by auto
    assume "outcome ?q k \<noteq> None \<or> k \<in> set (waiters ?q)"
    then show "steps_in k ?q = 0"
      unfolding n using False queue_okD(2,6) [OF assms, of k] by (auto simp: loop_simps)
  qed (use False in \<open>simp_all add: loop_simps\<close>)
qed (use assms in auto)

lemma awaits_not_waiting:
  "awaits p k r \<Longrightarrow> outcome p k = None"
  "awaits p k r \<Longrightarrow> k = Metrics_Task \<and> metrics_task p \<noteq> MS_Serving \<or> k = Heartbeat_Task"
  by (cases k; auto split: hb_state.splits ms_state.splits)+

lemma queue_ok_Completes:
  assumes "queue_ok p"
  shows "queue_ok (process_step rfs s order (Completes k r) p)"
proof (cases "awaits p k r \<and> \<not> scheduled k p \<and> \<not> main_ended (main_at p)")
  case True
  then have k: "k \<notin> set (waiters p)" "outcome p k = None" "steps_in k p = 0"
    using queue_okD(7) [OF assms, of k] awaits_not_waiting [of p k r] by (auto simp: scheduled_iff)
  show ?thesis
  proof (rule queue_okI)
    fix j
    show "steps_in j (process_step rfs s order (Completes k r) p) \<le> 1"
      using True k queue_okD(1) [OF assms, of j] by (auto simp: steps_in_schedule)
    assume "outcome (process_step rfs s order (Completes k r) p) j \<noteq> None \<or> j \<in> set (waiters (process_step rfs s order (Completes k r) p))"
    then show "steps_in j (process_step rfs s order (Completes k r) p) = 0"
      using True k queue_okD(2,3) [OF assms, of j] by (auto simp: steps_in_schedule loop_simps)
  qed (use True queue_okD(4,5,7) [OF assms] in \<open>auto simp: loop_simps\<close>)
qed (use assms in auto)

text \<open>A turn: the callback leaves the queue, then runs.\<close>

lemma steps_in_pop: "steps_in k (p\<lparr>ready := cs\<rparr>) = length (filter (is_step_of k) cs)"
  by (simp add: steps_in_def)

lemma queue_ok_pop:
  assumes "queue_ok p" and "ready p = c # cs"
  shows "queue_ok (p\<lparr>ready := cs\<rparr>)" and "is_step_of k c \<Longrightarrow> steps_in k (p\<lparr>ready := cs\<rparr>) = 0"
    and "is_step_of k c \<Longrightarrow> outcome p k = None \<and> k \<notin> set (waiters p)"
proof -
  have n: "steps_in k p = (if is_step_of k c then 1 else 0) + steps_in k (p\<lparr>ready := cs\<rparr>)" for k
    using assms(2) by (simp add: steps_in_def)
  show "queue_ok (p\<lparr>ready := cs\<rparr>)"
  proof (rule queue_okI)
    fix j
    show "steps_in j (p\<lparr>ready := cs\<rparr>) \<le> 1"
      using queue_okD(1) [OF assms(1), of j] n [of j] by auto
    assume "outcome (p\<lparr>ready := cs\<rparr>) j \<noteq> None \<or> j \<in> set (waiters (p\<lparr>ready := cs\<rparr>))"
    then show "steps_in j (p\<lparr>ready := cs\<rparr>) = 0"
      using queue_okD(2,3) [OF assms(1), of j] n [of j] by auto
  qed (use queue_okD(4,5,7) [OF assms(1)] in auto)
  show "is_step_of k c \<Longrightarrow> steps_in k (p\<lparr>ready := cs\<rparr>) = 0"
    "is_step_of k c \<Longrightarrow> outcome p k = None \<and> k \<notin> set (waiters p)"
    using queue_okD(1,2,3) [OF assms(1), of k] n [of k] by fastforce+
qed

lemma ms_step_serves: "fst (ms_step s x stop st r t) = MS_Serving \<Longrightarrow> \<not> stop \<and> st = MS_Starting"
  by (cases "(s, x, stop, st, r, t)" rule: ms_step.cases) (auto simp: clean_up_def split: if_splits res.splits)

lemma st_step_waits: "st_step stop st r = ST_Waiting \<Longrightarrow> \<not> stop \<and> st = ST_New"
  by (cases "(stop, st, r)" rule: st_step.cases) (auto split: if_splits)

lemma advance_waiters:
  obtains (same) "waiters (advance rfs s x k r p) = waiters p"
  | (metrics) "k = Metrics_Task" "waiters (advance rfs s x k r p) = waiters p @ [k]" "\<not> stop_set p"
      "metrics_task (advance rfs s x k r p) = MS_Serving"
  | (stop) "k = Stopper" "waiters (advance rfs s x k r p) = waiters p @ [k]" "\<not> stop_set p"
      "stopper (advance rfs s x k r p) = ST_Waiting"
proof (cases k)
  case Heartbeat_Task
  then show thesis by (intro same) (simp add: advance_def split: prod.splits)
next
  case Metrics_Task
  obtain st t where st: "ms_step s x (stop_set p) (metrics_task p) r (performed p) = (st, t)" by fastforce
  with Metrics_Task show thesis
    using ms_step_serves [of s x "stop_set p" "metrics_task p" r "performed p"] same metrics
    by (cases "st = MS_Serving") (auto simp: advance_def)
next
  case Stopper
  then show thesis
    using st_step_waits [of "stop_set p" "stopper p" r] same stop
    by (cases "st_step (stop_set p) (stopper p) r = ST_Waiting") (auto simp: advance_def Let_def)
qed

lemma advance_others:
  "k \<noteq> Heartbeat_Task \<Longrightarrow> heartbeat_task (advance rfs s x k r p) = heartbeat_task p"
  "k \<noteq> Metrics_Task \<Longrightarrow> metrics_task (advance rfs s x k r p) = metrics_task p"
  "k \<noteq> Stopper \<Longrightarrow> stopper (advance rfs s x k r p) = stopper p"
  by (cases k; simp add: advance_def Let_def split: prod.splits)+

lemma advance_ended_step:
  assumes "outcome (advance rfs s x k r p) k \<noteq> None"
  shows "waiters (advance rfs s x k r p) = waiters p"
  using assms by (cases rule: advance_waiters [of rfs s x k r p]) auto

lemma queue_ok_advance:
  assumes "queue_ok p" and "steps_in k p = 0" and "k \<notin> set (waiters p)"
  shows "queue_ok (advance rfs s x k r p)"
proof (rule queue_okI)
  let ?q = "advance rfs s x k r p"
  have n: "steps_in j ?q = steps_in j p" for j by (simp add: steps_in_def loop_simps)
  show "steps_in j ?q \<le> 1" for j using queue_okD(1) [OF assms(1), of j] by (simp add: n)
  show "steps_in j ?q = 0" if "outcome ?q j \<noteq> None \<or> j \<in> set (waiters ?q)" for j
  proof (cases "j = k")
    case False
    with that have "outcome p j \<noteq> None \<or> j \<in> set (waiters p)"
      by (cases rule: advance_waiters [of rfs s x k r p]) (auto simp: loop_simps)
    then show ?thesis using queue_okD(2,3) [OF assms(1), of j] by (auto simp: n)
  qed (use assms(2) n in simp)
  show "distinct (waiters ?q)" "stop_set ?q \<Longrightarrow> waiters ?q = []"
    using queue_okD(4,5) [OF assms(1)] assms(3)
    by (cases rule: advance_waiters [of rfs s x k r p]; auto simp: loop_simps)+
  show "j = Metrics_Task \<and> metrics_task ?q = MS_Serving \<or> j = Stopper \<and> stopper ?q = ST_Waiting" if "j \<in> set (waiters ?q)" for j
  proof (cases "j \<in> set (waiters p)")
    case True
    then show ?thesis
      using queue_okD(7) [OF assms(1), of j] assms(3) advance_others(2,3) [of k rfs s x r p] by metis
  next
    case False
    then show ?thesis using that by (cases rule: advance_waiters [of rfs s x k r p]) auto
  qed
qed

lemma queue_ok_cong:
  assumes "ready p = ready q" "waiters p = waiters q" "stop_set p = stop_set q"
    "metrics_task p = metrics_task q" "stopper p = stopper q" "heartbeat_task p = heartbeat_task q"
  shows "queue_ok p = queue_ok q"
  using assms outcome_cong [of p q] by (simp add: queue_ok_def steps_in_def)

lemma queue_ok_schedule:
  assumes "queue_ok p" and "\<And>k. filter (is_step_of k) cs = []"
  shows "queue_ok (schedule cs p)"
  using assms by (auto simp: queue_ok_def steps_in_schedule loop_simps)

lemma queue_ok_step_task:
  assumes "queue_ok p" and "steps_in k p = 0" and "k \<notin> set (waiters p)"
  shows "queue_ok (step_task rfs s x k r p)"
proof -
  let ?p = "p\<lparr>must_cancel := must_cancel p - {k}\<rparr>"
  have "queue_ok ?p" using assms(1) by (subst queue_ok_cong [of _ p]) simp_all
  then have "queue_ok (advance rfs s x k r ?p)" for r
    by (rule queue_ok_advance) (use assms in \<open>simp_all add: steps_in_def\<close>)
  then show ?thesis
    by (auto simp: step_task_def Let_def intro!: queue_ok_schedule)
qed

lemma queue_ok_cancel:
  assumes "queue_ok p"
  shows "queue_ok (cancel k p)"
proof (cases "outcome p k = None \<and> \<not> scheduled k p")
  case False
  then show ?thesis
    using assms by (auto simp: cancel_def intro: queue_ok_cong [THEN iffD1, OF _ _ _ _ _ _ assms])
next
  case True
  let ?q = "cancel k p"
  have q: "?q = schedule [Step k (Raise CancelledError)] (p\<lparr>waiters := filter (\<lambda>j. j \<noteq> k) (waiters p)\<rparr>)"
    using True by (simp add: cancel_def)
  have n: "steps_in j ?q = (if j = k then 1 else steps_in j p)" for j
    using True by (auto simp: q steps_in_schedule scheduled_iff) (simp_all add: steps_in_def)
  show ?thesis
  proof (rule queue_okI)
    show "steps_in j ?q \<le> 1" for j using queue_okD(1) [OF assms, of j] by (simp add: n)
    show "steps_in j ?q = 0" if "outcome ?q j \<noteq> None \<or> j \<in> set (waiters ?q)" for j
      using that True queue_okD(2,3) [OF assms, of j] unfolding n by (auto simp: q loop_simps)
  qed (use queue_okD(4,5,7) [OF assms] in \<open>auto simp: q loop_simps\<close>)
qed

lemma queue_ok_cancels: "queue_ok p \<Longrightarrow> queue_ok (fold cancel ks p)"
  by (induction ks arbitrary: p) (simp_all add: queue_ok_cancel)

lemma queue_ok_finish: "queue_ok p \<Longrightarrow> queue_ok (finish ds p)"
  by (subst queue_ok_cong [of _ p]) (simp_all add: loop_simps)

lemma queue_ok_main_at: "queue_ok p \<Longrightarrow> queue_ok (p\<lparr>main_at := m\<rparr>)"
  by (subst queue_ok_cong [of _ p]) simp_all

lemma queue_ok_callback:
  assumes "queue_ok p" and "\<And>k. is_step_of k c \<Longrightarrow> steps_in k p = 0 \<and> k \<notin> set (waiters p)"
  shows "queue_ok (run_callback rfs s order x c p)"
proof (cases c)
  case (Step k r)
  then show ?thesis using assms by (auto intro: queue_ok_step_task)
next
  case On_Completion
  then show ?thesis using assms(1)
    by (auto simp: on_completion_def intro!: queue_ok_schedule queue_ok_main_at)
next
  case On_Child
  then show ?thesis using assms(1)
    by (auto simp: on_child_def split: main_state.splits intro!: queue_ok_schedule queue_ok_main_at)
next
  case Main_Step
  then show ?thesis using assms(1)
    by (auto simp: main_step_def wait_returns_def Let_def split: main_state.splits
        intro!: queue_ok_main_at queue_ok_finish queue_ok_cancels)
qed

lemma queue_ok_event: "queue_ok p \<Longrightarrow> queue_ok (process_step rfs s order e p)"
proof (cases e)
  case (Turn x)
  assume q: "queue_ok p"
  show ?thesis
  proof (cases "ready p")
    case (Cons c cs)
    note pop = queue_ok_pop [OF q Cons]
    show ?thesis using Turn Cons q pop
      by (auto intro!: queue_ok_callback)
  qed (use Turn q in simp)
qed (simp_all del: process_step.simps add: queue_ok_Signal queue_ok_Completes)

lemma queue_ok_start: "queue_ok (process_start t)"
proof (rule queue_okI)
  show "steps_in k (process_start t) \<le> 1" for k by (cases k) (simp_all add: steps_in_def process_start_def)
  show "steps_in k (process_start t) = 0" if "outcome (process_start t) k \<noteq> None \<or> k \<in> set (waiters (process_start t))" for k
    using that by (cases k) (simp_all add: process_start_def)
qed (simp_all add: process_start_def)

section \<open>A clean end needs a signal\<close>

text \<open>
  While \<open>main\<close> waits nothing is cancelled, and what only the stop event brings about, it has:
  the end of the stopper, a step of a task at its \<open>wait\<close>, the regular end of the metrics server.
\<close>

definition needs_stop :: "process \<Rightarrow> bool" where
  "needs_stop p \<longleftrightarrow>
     stopper p = ST_Waiting \<and> scheduled Stopper p \<or> metrics_task p = MS_Serving \<and> scheduled Metrics_Task p \<or>
     (\<exists>q. stopper p = ST_Ended q) \<or> metrics_task p = MS_Cleaning (Ok ()) \<or> metrics_task p = MS_Ended (Ok ())"

definition waiting_ok :: "process \<Rightarrow> bool \<Rightarrow> bool" where
  "waiting_ok p w \<longleftrightarrow>
     must_cancel p = {} \<and> (needs_stop p \<longrightarrow> stop_set p) \<and>
     (w \<or> On_Completion \<in> set (ready p) \<longrightarrow> (\<exists>k. outcome p k \<noteq> None)) \<and>
     (Main_Step \<in> set (ready p) \<longrightarrow> w) \<and> On_Child \<notin> set (ready p) \<and>
     (\<forall>e. Step Stopper (Raise e) \<notin> set (ready p))"

definition evident :: "bool \<Rightarrow> (task \<times> unit res) list \<Rightarrow> bool" where
  "evident stop ds \<longleftrightarrow> ds \<noteq> [] \<and> (\<forall>(k, q) \<in> set ds. k = Stopper \<or> is_ok q \<longrightarrow> stop)"

definition signalled :: "process \<Rightarrow> bool" where
  "signalled p \<longleftrightarrow>
     (case main_at p of
        M_Waiting w \<Rightarrow> waiting_ok p w
      | M_Gathering n ds \<Rightarrow> evident (stop_set p) ds
      | M_Ended q \<Rightarrow> is_ok q \<longrightarrow> stop_set p)"

lemma is_ok_unit: "is_ok q \<longleftrightarrow> q = Ok ()"
  by (cases q) auto

lemma outcome_needs_stop:
  "outcome p k = Some q \<Longrightarrow> k = Stopper \<or> is_ok q \<Longrightarrow> needs_stop p"
  by (cases k) (auto simp: needs_stop_def is_ok_unit split: hb_state.splits ms_state.splits st_state.splits)

lemma evident_done:
  assumes "waiting_ok p True" and "set order = UNIV"
  shows "evident (stop_set p) (done_tasks order p)"
proof -
  obtain k q where "outcome p k = Some q" using assms(1) by (auto simp: waiting_ok_def)
  then have "(k, q) \<in> set (done_tasks order p)" using assms(2) by (force simp: done_tasks_def)
  moreover have "stop_set p" if "(k, q) \<in> set (done_tasks order p)" "k = Stopper \<or> is_ok q" for k q
    using that assms(1) outcome_needs_stop [of p k q] by (auto simp: done_tasks_def waiting_ok_def split: option.splits)
  ultimately show ?thesis by (auto simp: evident_def)
qed

lemma evident_finish: "evident b ds \<Longrightarrow> is_ok (fst (after_wait ds t)) \<Longrightarrow> b"
  using surface_Ok_iff [of ds t] by (cases ds) (auto simp: evident_def after_wait_fst is_ok_unit split: if_splits)

lemma signalled_finish:
  "evident (stop_set p) ds \<Longrightarrow> signalled (finish ds p)"
  using evident_finish [of "stop_set p" ds "performed p"] by (simp add: signalled_def loop_simps)

lemma signalled_wait_returns:
  assumes "waiting_ok p True" and "set order = UNIV"
  shows "signalled (wait_returns order p)"
proof -
  have "evident (stop_set p) (done_tasks order p)" by (rule evident_done [OF assms])
  then show ?thesis
    by (auto simp: wait_returns_def Let_def signalled_def [of "_\<lparr>main_at := _\<rparr>"] loop_simps intro!: signalled_finish)
qed

text \<open>One step of a task while \<open>main\<close> waits.\<close>

lemma advance_needs_stop:
  assumes "needs_stop (advance rfs s x k r (p\<lparr>ready := cs\<rparr>))" and "ready p = Step k r # cs" and "queue_ok p"
    and "needs_stop p \<longrightarrow> stop_set p" and "\<forall>e. Step Stopper (Raise e) \<notin> set (ready p)"
  shows "stop_set p"
proof (rule ccontr)
  assume ns: "\<not> stop_set p"
  let ?p = "p\<lparr>ready := cs\<rparr>"
  let ?q = "advance rfs s x k r ?p"
  have one: "\<not> scheduled k ?q"
    using queue_ok_pop(2) [OF assms(3,2), of k] by (simp add: scheduled_iff steps_in_def loop_simps)
  have sub: "scheduled j p" if "scheduled j ?q" for j
    using that assms(2) by (auto simp: scheduled_def loop_simps)
  have sk: "scheduled k p" using assms(2) by (simp add: scheduled_def)
  have n: "\<not> needs_stop p" using assms(4) ns by blast
  show False
  proof (cases k)
    case Heartbeat_Task
    then have "metrics_task ?q = metrics_task p" "stopper ?q = stopper p" by (simp_all add: advance_others)
    then show False using assms(1) n sub by (auto simp: needs_stop_def)
  next
    case Metrics_Task
    then have st: "stopper ?q = stopper p" by (simp add: advance_others)
    have "metrics_task p \<noteq> MS_Serving" using n sk Metrics_Task by (auto simp: needs_stop_def)
    then have "metrics_task ?q \<noteq> MS_Cleaning (Ok ()) \<and> metrics_task ?q \<noteq> MS_Ended (Ok ())"
      using n ns Metrics_Task
      by (cases "(s, x, stop_set p, metrics_task p, r, performed p)" rule: ms_step.cases)
         (auto simp: advance_def needs_stop_def clean_up_def split: prod.splits res.splits)
    then show False using assms(1) n sub st one Metrics_Task by (auto simp: needs_stop_def)
  next
    case Stopper
    then have st: "metrics_task ?q = metrics_task p" by (simp add: advance_others)
    have "stopper p = ST_New" using n sk Stopper by (cases "stopper p") (auto simp: needs_stop_def)
    then have "stopper ?q = ST_Waiting"
      using ns Stopper assms(2,5) by (cases r) (auto simp: advance_def Let_def)
    then show False using assms(1) n sub st one Stopper by (auto simp: needs_stop_def)
  qed
qed

lemma waiting_ok_step:
  assumes "waiting_ok p w" and "ready p = Step k r # cs" and "queue_ok p" and "main_at p = M_Waiting w"
  shows "waiting_ok (step_task rfs s x k r (p\<lparr>ready := cs\<rparr>)) w"
proof -
  let ?a = "advance rfs s x k r (p\<lparr>ready := cs\<rparr>)"
  have mc: "must_cancel p = {}" using assms(1) by (simp add: waiting_ok_def)
  then have id: "p\<lparr>ready := cs, must_cancel := {}\<rparr> = p\<lparr>ready := cs\<rparr>" by (cases p) simp
  have st: "step_task rfs s x k r (p\<lparr>ready := cs\<rparr>) =
      (if outcome p k = None \<and> outcome ?a k \<noteq> None then schedule [On_Completion] ?a else ?a)"
    by (simp add: step_task_def Let_def tell_def loop_simps mc id assms(4))
  have ns: "needs_stop ?a \<longrightarrow> stop_set p"
    using advance_needs_stop [OF _ assms(2,3)] assms(1) by (auto simp: waiting_ok_def)
  have keep: "outcome ?a j \<noteq> None" if "outcome p j \<noteq> None" for j
    using that queue_ok_pop(3) [OF assms(3,2), of k] by (cases "j = k") (auto simp: loop_simps)
  show ?thesis
  proof (cases "outcome p k = None \<and> outcome ?a k \<noteq> None")
    case True
    then have q: "step_task rfs s x k r (p\<lparr>ready := cs\<rparr>) = schedule [On_Completion] ?a" using st by simp
    have "needs_stop (schedule [On_Completion] ?a) = needs_stop ?a"
      by (simp add: needs_stop_def loop_simps scheduled_def)
    then show ?thesis
      unfolding q using True ns assms(1,2) by (auto simp: waiting_ok_def loop_simps mc)
  next
    case False
    then have q: "step_task rfs s x k r (p\<lparr>ready := cs\<rparr>) = ?a" unfolding st by (rule if_not_P)
    have "(w \<or> On_Completion \<in> set cs) \<longrightarrow> (\<exists>j. outcome ?a j \<noteq> None)"
      using keep assms(1,2) unfolding waiting_ok_def by (metis list.set_intros(2))
    then show ?thesis
      unfolding q using ns assms(1,2) by (auto simp: waiting_ok_def loop_simps mc)
  qed
qed

lemma scheduled_pop: "scheduled k (p\<lparr>ready := cs\<rparr>) \<Longrightarrow> ready p = c # cs \<Longrightarrow> scheduled k p"
  by (simp add: scheduled_def)

lemma needs_stop_cong:
  assumes "metrics_task p = metrics_task q" "stopper p = stopper q" "\<And>k. scheduled k p \<Longrightarrow> scheduled k q"
  shows "needs_stop p \<Longrightarrow> needs_stop q"
  using assms by (auto simp: needs_stop_def)

lemma waiting_ok_pop:
  assumes "waiting_ok p w" and "ready p = c # cs"
  shows "waiting_ok (p\<lparr>ready := cs\<rparr>) w"
  using assms needs_stop_cong [of "p\<lparr>ready := cs\<rparr>" p] by (auto simp: waiting_ok_def scheduled_def)

lemma waiting_ok_schedule:
  assumes "waiting_ok p w" and "c = Main_Step \<and> w \<or> (\<exists>k r. c = Step k r \<and> awaits p k r)"
  shows "waiting_ok (schedule [c] p) w"
proof -
  have "c \<noteq> On_Completion \<and> c \<noteq> On_Child \<and> (\<forall>e. c \<noteq> Step Stopper e) \<and> (c = Main_Step \<longrightarrow> w)"
    using assms(2) awaits_not_waiting(2) by fastforce
  moreover have "needs_stop (schedule [c] p) \<Longrightarrow> needs_stop p"
    using assms(2) by (auto simp: needs_stop_def loop_simps scheduled_def is_step_of_iff)
  ultimately show ?thesis using assms(1) by (auto simp: waiting_ok_def loop_simps)
qed

lemma signalled_Signal: "signalled p \<Longrightarrow> signalled (process_step rfs s order Signal p)"
  by (auto simp: signalled_def waiting_ok_def evident_def loop_simps split: main_state.splits)

lemma signalled_Completes: "signalled p \<Longrightarrow> signalled (process_step rfs s order (Completes k r) p)"
  using waiting_ok_schedule [of p _ "Step k r"]
  by (auto simp: signalled_def loop_simps split: main_state.splits)

lemma step_task_later:
  "main_at (step_task rfs s x k r p) = main_at p" "stop_set (step_task rfs s x k r p) = stop_set p"
  by (simp_all add: step_task_def Let_def loop_simps)

lemma signalled_Turn:
  assumes "signalled p" and "queue_ok p" and "set order = UNIV"
  shows "signalled (process_step rfs s order (Turn x) p)"
proof (rule process_turn [where P = signalled, OF assms(1)])
  fix c cs
  assume r: "ready p = c # cs" and running: "\<not> main_ended (main_at p)"
  let ?p = "p\<lparr>ready := cs\<rparr>"
  show "signalled (run_callback rfs s order x c ?p)"
  proof (cases "main_at p")
    case (M_Waiting w)
    then have w: "waiting_ok p w" using assms(1) by (simp add: signalled_def)
    note w' = waiting_ok_pop [OF w r]
    show ?thesis
    proof (cases c)
      case (Step k q)
      then show ?thesis
        using waiting_ok_step [OF w _ assms(2) M_Waiting] r M_Waiting
        by (simp add: signalled_def step_task_later)
    next
      case On_Completion
      then have "waiting_ok (?p\<lparr>main_at := M_Waiting True\<rparr>) True"
        using w w' r needs_stop_cong [of "?p\<lparr>main_at := M_Waiting True\<rparr>" ?p]
        by (auto simp: waiting_ok_def scheduled_def)
      then show ?thesis
        using M_Waiting w' On_Completion
        by (auto simp: on_completion_def signalled_def loop_simps intro!: waiting_ok_schedule)
    next
      case On_Child
      then show ?thesis using w r by (simp add: waiting_ok_def)
    next
      case Main_Step
      then have "w = True" using w r by (simp add: waiting_ok_def)
      then show ?thesis
        using signalled_wait_returns [OF _ assms(3)] w' M_Waiting Main_Step by (simp add: main_step_def)
    qed
  next
    case (M_Gathering n ds)
    then have e: "evident (stop_set p) ds" using assms(1) by (simp add: signalled_def)
    show ?thesis
    proof (cases c)
      case (Step k q)
      then show ?thesis using e M_Gathering by (simp add: signalled_def step_task_later)
    next
      case On_Completion
      then show ?thesis using e M_Gathering by (simp add: signalled_def on_completion_def)
    next
      case On_Child
      then show ?thesis using e M_Gathering by (simp add: signalled_def on_child_def loop_simps)
    next
      case Main_Step
      then show ?thesis using e M_Gathering signalled_finish [of ?p ds] by (simp add: main_step_def)
    qed
  qed (use running in simp)
qed

lemma signalled_start: "signalled (process_start t)"
  by (simp add: signalled_def waiting_ok_def needs_stop_def process_start_def)

lemma signalled_run:
  assumes "set order = UNIV"
  shows "queue_ok (process_run rfs s order es (process_start t)) \<and> signalled (process_run rfs s order es (process_start t))"
proof (rule process_run_keeps)
  fix e q
  assume "queue_ok q \<and> signalled q"
  then show "queue_ok (process_step rfs s order e q) \<and> signalled (process_step rfs s order e q)"
    using queue_ok_event [of q rfs s order e] signalled_Turn [OF _ _ assms]
    by (cases e) (auto simp del: process_step.simps simp: signalled_Signal signalled_Completes)
qed (simp add: queue_ok_start signalled_start)

end
