(* ===== verification/Agent_Shutdown.thy ===== *)
theory Agent_Shutdown
  imports Agent_Loop_Safe
begin

text \<open>
  How the agent's process ends: \<open>gather\<close> is woken by the last task it waits for; the stop event comes
  first when nothing had ended before it; and a measure that every event lowers once the stop event
  is set, so that the process ends.
\<close>

section \<open>What is left to do\<close>

definition all_tasks :: "task list" where
  "all_tasks = [Heartbeat_Task, Metrics_Task, Stopper]"

lemma all_tasks [simp]: "set all_tasks = UNIV" "distinct all_tasks" "length all_tasks = 3"
  by (auto simp: all_tasks_def) (metis task.exhaust)

definition open_tasks :: "process \<Rightarrow> nat" where
  "open_tasks p = length (filter (\<lambda>k. outcome p k = None) all_tasks)"

lemma open_tasks_cong: "(\<And>k. outcome p k = outcome q k) \<Longrightarrow> open_tasks p = open_tasks q"
  by (simp add: open_tasks_def)

lemma open_tasks_le: "open_tasks p \<le> 3"
  unfolding open_tasks_def using length_filter_le [of _ all_tasks] by simp

lemma open_tasks_0: "open_tasks p = 0 \<longleftrightarrow> (\<forall>k. outcome p k \<noteq> None)"
  by (simp add: open_tasks_def filter_empty_conv)

lemma pending_open:
  assumes "set order = UNIV" and "distinct order"
  shows "length (pending_tasks order p) = open_tasks p"
proof -
  have "mset order = mset all_tasks" using assms set_eq_iff_mset_eq_distinct [of order all_tasks] by simp
  then have "mset (filter (\<lambda>k. outcome p k = None) order) = mset (filter (\<lambda>k. outcome p k = None) all_tasks)"
    by (simp add: mset_filter)
  then show ?thesis unfolding pending_tasks_def open_tasks_def by (rule mset_eq_length)
qed

lemma open_tasks_less:
  assumes "\<And>j. j \<noteq> k \<Longrightarrow> outcome q j = outcome p j" and "outcome p k = None" and "outcome q k \<noteq> None"
  shows "open_tasks p = Suc (open_tasks q)"
  using assms(1) [of Heartbeat_Task] assms(1) [of Metrics_Task] assms(1) [of Stopper] assms(2,3)
  by (cases k) (auto simp: open_tasks_def all_tasks_def simp del: outcome.simps)

lemma open_tasks_same:
  assumes "\<And>j. j \<noteq> k \<Longrightarrow> outcome q j = outcome p j" and "outcome p k = None" and "outcome q k = None"
  shows "open_tasks q = open_tasks p"
  by (rule open_tasks_cong) (use assms in metis)

text \<open>How often a callback that is no step of a task is in the queue.\<close>

definition queued :: "callback \<Rightarrow> process \<Rightarrow> nat" where
  "queued c p = count_list (ready p) c"

lemma queued_schedule [loop_simps]: "queued c (schedule cs p) = queued c p + count_list cs c"
  by (simp add: queued_def loop_simps)

lemma queued_mem: "0 < queued c p \<longleftrightarrow> c \<in> set (ready p)"
  using count_list_0_iff [of "ready p" c] by (auto simp: queued_def)

lemma count_no_steps [simp]:
  "count_list (map (\<lambda>k. Step k r) ks) On_Completion = 0" "count_list (map (\<lambda>k. Step k r) ks) On_Child = 0"
  "count_list (map (\<lambda>k. Step k r) ks) Main_Step = 0"
  by (induction ks) auto

lemma queued_cancels [simp]:
  "queued On_Completion (fold cancel ks p) = queued On_Completion p"
  "queued On_Child (fold cancel ks p) = queued On_Child p"
  "queued Main_Step (fold cancel ks p) = queued Main_Step p"
  by (induction ks arbitrary: p) (auto simp: cancel_def loop_simps queued_def)

section \<open>Gathering\<close>

definition gather_ok :: "process \<Rightarrow> bool" where
  "gather_ok p \<longleftrightarrow>
     (case main_at p of
        M_Waiting w \<Rightarrow> queued Main_Step p = (if w then 1 else 0) \<and> queued On_Child p = 0 \<and>
                      queued On_Completion p + open_tasks p \<le> 3 \<and> (w \<or> queued On_Completion p + open_tasks p = 3)
      | M_Gathering n ds \<Rightarrow> n = open_tasks p + queued On_Child p \<and> queued Main_Step p = (if n = 0 then 1 else 0) \<and>
                      queued On_Completion p \<le> 3
      | M_Ended q \<Rightarrow> open_tasks p = 0)"

text \<open>What a scheduled step does to the counts.\<close>

lemma step_task_counts:
  assumes "outcome p k = None"
  obtains (going) "outcome (step_task rfs s x k r p) k = None" "open_tasks (step_task rfs s x k r p) = open_tasks p"
      "\<And>c. queued c (step_task rfs s x k r p) = queued c p" "ready (step_task rfs s x k r p) = ready p"
  | (ended) "outcome (step_task rfs s x k r p) k \<noteq> None" "open_tasks p = Suc (open_tasks (step_task rfs s x k r p))"
      "\<And>c. queued c (step_task rfs s x k r p) = queued c p + count_list (tell p) c"
      "ready (step_task rfs s x k r p) = ready p @ tell p"
proof -
  let ?q = "step_task rfs s x k r p"
  have oth: "outcome ?q j = outcome p j" if "j \<noteq> k" for j
    using that by (simp add: step_task_def Let_def loop_simps)
  show thesis
  proof (cases "outcome ?q k")
    case None
    then show thesis
      using oth assms
      by (intro going open_tasks_same [of k]) (auto simp: step_task_def Let_def loop_simps queued_def split: if_splits)
  next
    case (Some v)
    then have "ready ?q = ready p @ tell p"
      using assms by (auto simp: step_task_def Let_def loop_simps tell_def split: if_splits)
    then show thesis
      using oth assms Some by (intro ended open_tasks_less [of k]) (simp_all add: queued_def)
  qed
qed

lemma gather_ok_Signal: "gather_ok p \<Longrightarrow> gather_ok (process_step rfs s order Signal p)"
  using open_tasks_cong [of "process_step rfs s order Signal p" p]
  by (auto simp: gather_ok_def loop_simps queued_def split: main_state.splits)

lemma gather_ok_Completes: "gather_ok p \<Longrightarrow> gather_ok (process_step rfs s order (Completes k r) p)"
  using open_tasks_cong [of "process_step rfs s order (Completes k r) p" p]
  by (auto simp: gather_ok_def loop_simps queued_def split: main_state.splits)

lemma gather_ok_wait_returns:
  assumes "queued Main_Step p = 0" and "queued On_Child p = 0" and "queued On_Completion p \<le> 3"
    and "set order = UNIV" and "distinct order"
  shows "gather_ok (wait_returns order p)"
proof -
  have o: "open_tasks (wait_returns order p) = open_tasks p"
    by (rule open_tasks_cong) (simp add: wait_returns_def Let_def loop_simps)
  have l: "length (pending_tasks order p) = open_tasks p" by (rule pending_open [OF assms(4,5)])
  have q: "queued c (wait_returns order p) = queued c (fold cancel (pending_tasks order p) p)" for c
    by (simp add: wait_returns_def Let_def queued_def loop_simps)
  show ?thesis
  proof (cases "pending_tasks order p = []")
    case True
    then show ?thesis using l o by (simp add: gather_ok_def wait_returns_def loop_simps)
  next
    case False
    then have "main_at (wait_returns order p) = M_Gathering (open_tasks p) (done_tasks order p)" "open_tasks p \<noteq> 0"
      using l by (simp_all add: wait_returns_def Let_def) (metis length_greater_0_conv)
    then show ?thesis using o q assms(1-3) by (simp add: gather_ok_def)
  qed
qed

lemma queued_pop:
  "ready p = c # cs \<Longrightarrow> queued d p = (if c = d then 1 else 0) + queued d (p\<lparr>ready := cs\<rparr>)"
  by (simp add: queued_def)

lemma open_tasks_updates [simp]:
  "open_tasks (p\<lparr>ready := cs\<rparr>) = open_tasks p" "open_tasks (p\<lparr>main_at := m\<rparr>) = open_tasks p"
  "open_tasks (schedule cs p) = open_tasks p" "open_tasks (finish ds p) = open_tasks p"
  by (rule open_tasks_cong; simp add: loop_simps)+

lemma queued_updates [simp]:
  "queued c (p\<lparr>main_at := m\<rparr>) = queued c p" "queued c (finish ds p) = queued c p"
  by (simp_all add: queued_def loop_simps)

lemma gather_ok_Turn:
  assumes "gather_ok p" and "queue_ok p" and "set order = UNIV" and "distinct order"
  shows "gather_ok (process_step rfs s order (Turn x) p)"
proof (rule process_turn [where P = gather_ok, OF assms(1)])
  fix c cs
  assume r: "ready p = c # cs" and running: "\<not> main_ended (main_at p)"
  let ?p = "p\<lparr>ready := cs\<rparr>"
  note pop = queued_pop [OF r]
  show "gather_ok (run_callback rfs s order x c ?p)"
  proof (cases c)
    case (Step k q)
    then have o: "outcome ?p k = None" using queue_ok_pop(3) [OF assms(2) r, of k] by simp
    have m: "main_at (step_task rfs s x k q ?p) = main_at p" by (simp add: step_task_later)
    from o have "gather_ok (step_task rfs s x k q ?p)"
    proof (cases rule: step_task_counts [of ?p k rfs s x q])
      case going
      then show ?thesis
        using assms(1) pop [of Main_Step] pop [of On_Child] pop [of On_Completion] Step
        by (auto simp: gather_ok_def m split: main_state.splits if_splits)
    next
      case ended
      then show ?thesis
        using assms(1) pop [of Main_Step] pop [of On_Child] pop [of On_Completion] Step
        by (auto simp: gather_ok_def m tell_def split: main_state.splits if_splits)
    qed
    then show ?thesis using Step by simp
  next
    case On_Completion
    then show ?thesis
      using assms(1) pop [of Main_Step] pop [of On_Child] pop [of On_Completion]
      by (auto simp: gather_ok_def on_completion_def loop_simps split: main_state.splits if_splits)
  next
    case On_Child
    then show ?thesis
      using assms(1) pop [of Main_Step] pop [of On_Child] pop [of On_Completion]
      by (auto simp: gather_ok_def on_child_def loop_simps split: main_state.splits if_splits)
  next
    case Main_Step
    then show ?thesis
      using assms(1) pop [of Main_Step] pop [of On_Child] pop [of On_Completion]
        gather_ok_wait_returns [OF _ _ _ assms(3,4), of ?p]
      by (auto simp: gather_ok_def [of p] gather_ok_def [of ?p] gather_ok_def [of "finish _ _"] main_step_def loop_simps
          split: main_state.splits if_splits)
  qed
qed

lemma gather_ok_start: "gather_ok (process_start t)"
  by (simp add: gather_ok_def process_start_def queued_def open_tasks_def all_tasks_def)

section \<open>The stop event comes first\<close>

text \<open>
  Once the stop event is set with no task done, the step that ends the stopper is before every
  completion in the queue: when \<open>wait\<close> returns, the stopper is done.
\<close>

definition stopped :: "agent_effect" where
  "stopped = Agent_Log ''main'' Info ''agent_stopped'' [(''reason'', PStr ''signal'')]"

definition stop_first :: "process \<Rightarrow> bool" where
  "stop_first p \<longleftrightarrow>
     (case main_at p of
        M_Waiting w \<Rightarrow> stop_set p \<and> (outcome p Stopper \<noteq> None \<or>
          \<not> w \<and> (\<exists>xs r ys. ready p = xs @ Step Stopper r # ys \<and> On_Completion \<notin> set xs))
      | M_Gathering n ds \<Rightarrow> Stopper \<in> fst ` set ds
      | M_Ended q \<Rightarrow> q = Ok () \<and> (\<exists>t. performed p = t @ [stopped]))"

lemma stop_first_finish: "Stopper \<in> fst ` set ds \<Longrightarrow> stop_first (finish ds p)"
  by (simp add: stop_first_def loop_simps after_wait_def act_simps stopped_def)

lemma stop_first_wait_returns:
  assumes "outcome p Stopper \<noteq> None" and "set order = UNIV"
  shows "stop_first (wait_returns order p)"
proof -
  obtain q where "outcome p Stopper = Some q" using assms(1) by blast
  then have "(Stopper, q) \<in> set (done_tasks order p)" using assms(2) by (force simp: done_tasks_def)
  then have "Stopper \<in> fst ` set (done_tasks order p)" by force
  then show ?thesis
    by (auto simp: wait_returns_def Let_def stop_first_def [of "_\<lparr>main_at := _\<rparr>"] intro!: stop_first_finish)
qed

lemma step_task_outcome:
  "outcome p k \<noteq> None \<Longrightarrow> outcome (step_task rfs s x j r p) k \<noteq> None"
proof (cases "j = k")
  case True
  assume "outcome p k \<noteq> None"
  then show ?thesis
    using True
    by (cases k)
       (auto simp: step_task_def Let_def advance_def loop_simps split: hb_state.splits ms_state.splits st_state.splits prod.splits)
qed (simp add: step_task_def Let_def loop_simps)

lemma stopper_step_ends:
  assumes "stop_set p"
  shows "outcome (step_task rfs s x Stopper r p) Stopper \<noteq> None"
  using assms st_step_waits [of True "stopper p"]
  by (cases "stopper p"; cases r) (auto simp: step_task_def Let_def advance_def loop_simps)

lemma stop_first_Turn:
  assumes "stop_first p" and "\<And>w. main_at p = M_Waiting w \<Longrightarrow> waiting_ok p w" and "set order = UNIV"
  shows "stop_first (process_step rfs s order (Turn x) p)"
proof (rule process_turn [where P = stop_first, OF assms(1)])
  fix c cs
  assume r: "ready p = c # cs" and running: "\<not> main_ended (main_at p)"
  let ?p = "p\<lparr>ready := cs\<rparr>"
  show "stop_first (run_callback rfs s order x c ?p)"
  proof (cases "main_at p")
    case (M_Waiting w)
    then have w: "waiting_ok p w" and ss: "stop_set p" and
      k: "outcome p Stopper \<noteq> None \<or> \<not> w \<and> (\<exists>xs r ys. ready p = xs @ Step Stopper r # ys \<and> On_Completion \<notin> set xs)"
      using assms(1,2) by (auto simp: stop_first_def)
    show ?thesis
    proof (cases "outcome p Stopper = None")
      case True
      then obtain xs q ys where q: "c # cs = xs @ Step Stopper q # ys" "On_Completion \<notin> set xs" "\<not> w"
        using k r by auto
      show ?thesis
      proof (cases xs)
        case Nil
        then show ?thesis
          using q ss M_Waiting stopper_step_ends [of ?p rfs s x q] by (simp add: stop_first_def step_task_later)
      next
        case (Cons d xs')
        then have c: "c \<noteq> On_Completion" "c \<noteq> Main_Step" "c \<noteq> On_Child" "cs = xs' @ Step Stopper q # ys" "On_Completion \<notin> set xs'"
          using q w r by (auto simp: waiting_ok_def)
        then obtain j v where j: "c = Step j v" by (cases c) auto
        have "\<exists>zs. ready (step_task rfs s x j v ?p) = cs @ zs"
          by (auto simp: step_task_def Let_def loop_simps)
        then show ?thesis
          using c(4,5) ss M_Waiting q(3) j by (auto simp: stop_first_def step_task_later)
      qed
    next
      case False
      then show ?thesis
        using M_Waiting ss w r assms(3) step_task_outcome [of ?p Stopper]
        by (cases c) (auto simp: stop_first_def step_task_later on_completion_def main_step_def waiting_ok_def loop_simps
            simp del: outcome.simps intro: stop_first_wait_returns [unfolded stop_first_def])
    qed
  next
    case (M_Gathering n ds)
    then show ?thesis
      using assms(1) stop_first_finish [of ds ?p]
      by (cases c) (auto simp: stop_first_def [of p] stop_first_def [of "step_task _ _ _ _ _ _"] stop_first_def [of "_\<lparr>main_at := _\<rparr>"]
          stop_first_def [of ?p] stop_first_def [of "schedule _ _"] stop_first_def [of "on_completion _"] step_task_later on_completion_def on_child_def main_step_def loop_simps)
  qed (use running in simp)
qed

text \<open>The stopper's step is in the queue or will be put there by the signal.\<close>

definition stop_comes :: "process \<Rightarrow> bool" where
  "stop_comes p \<longleftrightarrow> (\<forall>w. main_at p = M_Waiting w \<longrightarrow> outcome p Stopper = None \<longrightarrow>
     scheduled Stopper p \<or> Stopper \<in> set (waiters p) \<and> \<not> stop_set p)"

lemma scheduled_schedule: "scheduled k (schedule cs p) \<longleftrightarrow> scheduled k p \<or> list_ex (is_step_of k) cs"
  by (auto simp: scheduled_def loop_simps)

lemma scheduled_updates [simp]:
  "scheduled k (p\<lparr>main_at := m\<rparr>) = scheduled k p" "scheduled k (p\<lparr>stop_set := b\<rparr>) = scheduled k p"
  "scheduled k (p\<lparr>waiters := w\<rparr>) = scheduled k p" "scheduled k (p\<lparr>must_cancel := d\<rparr>) = scheduled k p"
  "scheduled k (advance rfs s x j r p) = scheduled k p"
  by (simp_all add: scheduled_def loop_simps)

lemma stop_comes_Signal: "stop_comes p \<Longrightarrow> stop_comes (process_step rfs s order Signal p)"
  by (auto simp: stop_comes_def loop_simps scheduled_schedule list_ex_iff simp del: outcome.simps)

lemma stop_comes_Completes: "stop_comes p \<Longrightarrow> stop_comes (process_step rfs s order (Completes k r) p)"
  by (auto simp: stop_comes_def loop_simps scheduled_schedule simp del: outcome.simps)

lemma scheduled_step_task: "scheduled k p \<Longrightarrow> scheduled k (step_task rfs s x j r p)"
  by (auto simp: step_task_def Let_def scheduled_schedule)

lemma waiters_step_task: "set (waiters p) \<subseteq> set (waiters (step_task rfs s x j r p))"
proof -
  have "set (waiters p) \<subseteq> set (waiters (advance rfs s x j r (p\<lparr>must_cancel := d\<rparr>)))" for r d
    by (cases rule: advance_waiters [of rfs s x j r "p\<lparr>must_cancel := d\<rparr>"]) auto
  then show ?thesis by (simp add: step_task_def Let_def loop_simps)
qed

lemma st_step_not_new: "st_step stop st r \<noteq> ST_New"
  by (cases "(stop, st, r)" rule: st_step.cases) auto

lemma own_stopper_step:
  assumes "outcome (step_task rfs s x Stopper r p) Stopper = None"
  shows "Stopper \<in> set (waiters (step_task rfs s x Stopper r p)) \<and> \<not> stop_set p"
proof -
  define r' where "r' = (if Stopper \<in> must_cancel p then Raise CancelledError else r)"
  let ?a = "advance rfs s x Stopper r' (p\<lparr>must_cancel := must_cancel p - {Stopper}\<rparr>)"
  let ?st = "st_step (stop_set p) (stopper p) r'"
  have a: "stopper ?a = ?st" "waiters ?a = waiters p @ (if ?st = ST_Waiting \<and> stopper p \<noteq> ST_Waiting then [Stopper] else [])"
    by (simp_all add: advance_def Let_def)
  have t: "outcome (step_task rfs s x Stopper r p) Stopper = outcome ?a Stopper"
    "waiters (step_task rfs s x Stopper r p) = waiters ?a"
    by (simp_all add: step_task_def Let_def r'_def loop_simps)
  from assms have "?st = ST_Waiting"
    unfolding t using a(1) st_step_not_new [of "stop_set p" "stopper p" r'] by (cases ?st) simp_all
  then show ?thesis
    unfolding t using a(2) st_step_waits [of "stop_set p" "stopper p" r'] by simp
qed

lemma stop_comes_Turn:
  assumes "stop_comes p"
  shows "stop_comes (process_step rfs s order (Turn x) p)"
proof (rule process_turn [where P = stop_comes, OF assms])
  fix c cs
  assume r: "ready p = c # cs" and running: "\<not> main_ended (main_at p)"
  let ?p = "p\<lparr>ready := cs\<rparr>"
  have sch: "scheduled Stopper ?p" if "scheduled Stopper p" "\<not> is_step_of Stopper c"
    using that r by (simp add: scheduled_def)
  show "stop_comes (run_callback rfs s order x c ?p)"
  proof (cases c)
    case (Step k q)
    show ?thesis
    proof (cases "k = Stopper")
      case True
      then show ?thesis
        using Step own_stopper_step [of rfs s x q ?p] by (simp add: stop_comes_def step_task_later del: outcome.simps)
    next
      case False
      then have "outcome (step_task rfs s x k q ?p) Stopper = outcome p Stopper"
        by (simp add: step_task_def Let_def loop_simps del: outcome.simps)
      then show ?thesis
        using assms Step False sch scheduled_step_task [of Stopper ?p rfs s x k q] waiters_step_task [of ?p rfs s x k q]
        by (auto simp: stop_comes_def step_task_later simp del: outcome.simps)
    qed
  next
    case On_Completion
    then show ?thesis using assms sch
      by (auto simp: stop_comes_def on_completion_def loop_simps scheduled_schedule simp del: outcome.simps)
  next
    case On_Child
    then show ?thesis using assms sch
      by (auto simp: stop_comes_def on_child_def loop_simps scheduled_schedule simp del: outcome.simps split: main_state.splits)
  next
    case Main_Step
    have "\<nexists>w. main_at (main_step order ?p) = M_Waiting w"
      using running by (auto simp: main_step_def wait_returns_def Let_def loop_simps split: main_state.splits)
    then show ?thesis using Main_Step by (simp add: stop_comes_def)
  qed
qed

lemma stop_comes_start: "stop_comes (process_start t)"
  by (simp add: stop_comes_def process_start_def scheduled_def)

lemma stop_first_Signal:
  assumes "main_at p = M_Waiting w" and "waiting_ok p w" and "stop_comes p" and "\<And>k. outcome p k = None"
  shows "stop_first (process_step rfs s order Signal p)"
proof -
  have nw: "\<not> w" "On_Completion \<notin> set (ready p)" using assms(2,4) by (auto simp: waiting_ok_def)
  let ?q = "process_step rfs s order Signal p"
  have "scheduled Stopper ?q"
    using assms(1,3) assms(4) [of Stopper]
    by (auto simp: stop_comes_def scheduled_schedule list_ex_iff simp del: outcome.simps)
  moreover have "On_Completion \<notin> set (ready ?q)" using nw assms(1) by (auto simp: loop_simps)
  ultimately obtain xs r ys where "ready ?q = xs @ Step Stopper r # ys" "On_Completion \<notin> set xs"
    unfolding scheduled_def list_ex_iff is_step_of_iff by (metis Un_iff set_append split_list)
  then have "\<exists>xs r ys. ready ?q = xs @ Step Stopper r # ys \<and> On_Completion \<notin> set xs" by blast
  moreover have "main_at ?q = M_Waiting False" "stop_set ?q" using assms(1) nw by (auto simp: loop_simps)
  ultimately show ?thesis by (simp add: stop_first_def)
qed

lemma stop_first_schedule:
  assumes "stop_first p"
  shows "stop_first (schedule cs p)"
  using assms
  by (auto simp: stop_first_def loop_simps simp del: outcome.simps split: main_state.splits) (metis append_assoc append_Cons)

lemma stop_first_event:
  assumes "stop_first p" and "\<And>w. main_at p = M_Waiting w \<Longrightarrow> waiting_ok p w" and "set order = UNIV"
  shows "stop_first (process_step rfs s order e p)"
proof (cases e)
  case Signal
  have "stop_first (p\<lparr>stop_set := True, waiters := []\<rparr>)"
    using assms(1) by (auto simp: stop_first_def simp del: outcome.simps split: main_state.splits)
  then show ?thesis using Signal assms(1) stop_first_schedule by simp
next
  case (Completes k r)
  then show ?thesis using assms(1) stop_first_schedule by simp
qed (simp only: stop_first_Turn [OF assms])

end
