(* ===== verification/Agent_Liveness.thy ===== *)
theory Agent_Liveness
  imports Agent_Shutdown
begin

text \<open>
  After a signal the agent's process ends: every event that changes it lowers a measure, and until
  the end there is a turn to make or the end of a close to await.
\<close>

section \<open>Cancelled tasks\<close>

text \<open>A task that closes what it holds awaits one more call; a doomed one gets \<open>CancelledError\<close> next.\<close>

fun closing :: "process \<Rightarrow> task \<Rightarrow> bool" where
  "closing p Heartbeat_Task = (case heartbeat_task p of HB_Closing e \<Rightarrow> True | _ \<Rightarrow> False)"
| "closing p Metrics_Task = (case metrics_task p of MS_Cleaning q \<Rightarrow> True | _ \<Rightarrow> False)"
| "closing p Stopper = False"

definition doomed :: "process \<Rightarrow> task \<Rightarrow> bool" where
  "doomed p k \<longleftrightarrow> k \<in> must_cancel p \<and> scheduled k p \<or> Step k (Raise CancelledError) \<in> set (ready p)"

definition replies_fit :: "process \<Rightarrow> bool" where
  "replies_fit p \<longleftrightarrow> (\<forall>k r. Step k r \<in> set (ready p) \<longrightarrow> closing p k \<longrightarrow> may_wake r)"

definition cancel_ok :: "process \<Rightarrow> bool" where
  "cancel_ok p \<longleftrightarrow> (\<forall>n ds k. main_at p = M_Gathering n ds \<longrightarrow> outcome p k = None \<longrightarrow> closing p k \<or> doomed p k)"

lemma closing_cong:
  "heartbeat_task p = heartbeat_task q \<Longrightarrow> metrics_task p = metrics_task q \<Longrightarrow> closing p k = closing q k"
  by (cases k) simp_all

lemma closing_updates [simp]:
  "closing (p\<lparr>main_at := m\<rparr>) k = closing p k" "closing (p\<lparr>stop_set := b\<rparr>) k = closing p k"
  "closing (p\<lparr>waiters := w\<rparr>) k = closing p k" "closing (p\<lparr>ready := c\<rparr>) k = closing p k"
  "closing (p\<lparr>must_cancel := d\<rparr>) k = closing p k" "closing (schedule cs p) k = closing p k"
  "closing (cancel j p) k = closing p k" "closing (fold cancel ks p) k = closing p k" "closing (finish ds p) k = closing p k"
  by (rule closing_cong; simp add: loop_simps)+

lemma closing_open: "closing p k \<Longrightarrow> outcome p k = None"
  by (cases k) (auto split: hb_state.splits ms_state.splits)

lemma advance_cancelled:
  "outcome (advance rfs s x k (Raise CancelledError) p) k \<noteq> None \<or> closing (advance rfs s x k (Raise CancelledError) p) k"
proof (cases k)
  case Heartbeat_Task
  then show ?thesis
    by (cases "heartbeat_task p") (simp_all add: advance_def attempt_failed_def beat_failed_def leave_def)
next
  case Metrics_Task
  then show ?thesis
    by (cases "metrics_task p") (simp_all add: advance_def clean_up_def)
next
  case Stopper
  then show ?thesis
    by (cases "stopper p") (simp_all add: advance_def Let_def)
qed

lemma advance_closed: "closing p k \<Longrightarrow> may_wake r \<Longrightarrow> outcome (advance rfs s x k r p) k \<noteq> None"
  by (cases k; cases r rule: may_wake.cases)
     (auto simp: advance_def split: hb_state.splits ms_state.splits prod.splits)

lemma advance_closing:
  "closing p k \<Longrightarrow> outcome (advance rfs s x k r p) k \<noteq> None \<or> closing (advance rfs s x k r p) k"
  by (cases k; cases r rule: may_wake.cases)
     (auto simp: advance_def split: hb_state.splits ms_state.splits prod.splits)

lemma advance_closing_others: "j \<noteq> k \<Longrightarrow> closing (advance rfs s x k r p) j = closing p j"
  by (cases j; cases k) (simp_all add: advance_def Let_def split: prod.splits)

text \<open>The step of a task, seen from it and from the others.\<close>

lemma step_task_others:
  assumes "j \<noteq> k"
  shows "outcome (step_task rfs s x k r p) j = outcome p j" and "closing (step_task rfs s x k r p) j = closing p j"
    and "scheduled j (step_task rfs s x k r p) = scheduled j p"
    and "j \<in> must_cancel (step_task rfs s x k r p) \<longleftrightarrow> j \<in> must_cancel p"
proof -
  show "outcome (step_task rfs s x k r p) j = outcome p j" "closing (step_task rfs s x k r p) j = closing p j"
    "j \<in> must_cancel (step_task rfs s x k r p) \<longleftrightarrow> j \<in> must_cancel p"
    using assms by (simp_all add: step_task_def Let_def loop_simps advance_closing_others)
  show "scheduled j (step_task rfs s x k r p) = scheduled j p"
    by (simp add: step_task_def Let_def scheduled_schedule tell_def split: main_state.splits)
qed

lemma step_task_steps: "Step j v \<in> set (ready (step_task rfs s x k r p)) \<longleftrightarrow> Step j v \<in> set (ready p)"
  by (simp add: step_task_def Let_def loop_simps tell_def split: main_state.splits)

lemma step_task_own:
  assumes "\<not> scheduled k p"
  shows "\<not> scheduled k (step_task rfs s x k r p)"
    and "k \<in> must_cancel p \<or> r = Raise CancelledError \<Longrightarrow>
      outcome (step_task rfs s x k r p) k \<noteq> None \<or> closing (step_task rfs s x k r p) k"
    and "closing p k \<Longrightarrow> may_wake r \<Longrightarrow> outcome (step_task rfs s x k r p) k \<noteq> None"
    and "closing p k \<Longrightarrow> outcome (step_task rfs s x k r p) k \<noteq> None \<or> closing (step_task rfs s x k r p) k"
proof -
  show "\<not> scheduled k (step_task rfs s x k r p)"
    using assms by (simp add: step_task_def Let_def scheduled_schedule tell_def split: main_state.splits)
  let ?p = "p\<lparr>must_cancel := must_cancel p - {k}\<rparr>"
  show "outcome (step_task rfs s x k r p) k \<noteq> None \<or> closing (step_task rfs s x k r p) k"
    if "k \<in> must_cancel p \<or> r = Raise CancelledError"
    using that advance_cancelled [of rfs s x k ?p] by (auto simp: step_task_def Let_def loop_simps)
  show "outcome (step_task rfs s x k r p) k \<noteq> None" if "closing p k" "may_wake r"
    using that advance_closed [of ?p k r rfs s x] advance_closed [of ?p k "Raise CancelledError" rfs s x]
    by (auto simp: step_task_def Let_def loop_simps)
  show "outcome (step_task rfs s x k r p) k \<noteq> None \<or> closing (step_task rfs s x k r p) k" if "closing p k"
    using that advance_closing [of ?p k] by (auto simp: step_task_def Let_def loop_simps)
qed

text \<open>The step that was popped is the only one of its task.\<close>

lemma popped_step:
  assumes "queue_ok p" and "ready p = Step k r # cs"
  shows "\<not> scheduled k (p\<lparr>ready := cs\<rparr>)" and "Step k v \<notin> set cs" and "outcome p k = None"
proof -
  show n: "\<not> scheduled k (p\<lparr>ready := cs\<rparr>)" using queue_ok_pop(2) [OF assms, of k] by (simp add: scheduled_iff)
  then show "Step k v \<notin> set cs" by (auto simp: scheduled_def list_ex_iff)
  show "outcome p k = None" using queue_ok_pop(3) [OF assms, of k] by simp
qed

lemma cancel_steps: "Step j v \<in> set (ready (cancel k p)) \<Longrightarrow> Step j v \<in> set (ready p) \<or> j = k \<and> v = Raise CancelledError"
  by (auto simp: cancel_def loop_simps split: if_splits)

lemma cancels_steps: "Step j v \<in> set (ready (fold cancel ks p)) \<Longrightarrow> Step j v \<in> set (ready p) \<or> v = Raise CancelledError"
  by (induction ks arbitrary: p) (auto dest: cancel_steps)

lemma cancel_dooms:
  "outcome p k = None \<Longrightarrow> doomed (cancel k p) k"
  "doomed p j \<Longrightarrow> doomed (cancel k p) j"
  by (auto simp: cancel_def doomed_def loop_simps scheduled_schedule)

lemma cancels_doom: "outcome p k = None \<Longrightarrow> k \<in> set ks \<Longrightarrow> doomed (fold cancel ks p) k"
proof (induction ks arbitrary: p)
  case (Cons j ks)
  have keep: "doomed q k \<Longrightarrow> doomed (fold cancel ks q) k" for q
    by (induction ks arbitrary: q) (simp_all add: cancel_dooms(2))
  show ?case
  proof (cases "j = k")
    case True
    then show ?thesis using Cons.prems keep cancel_dooms(1) by simp
  next
    case False
    then show ?thesis using Cons by (simp add: loop_simps)
  qed
qed simp

lemma replies_fit_schedule:
  "replies_fit p \<Longrightarrow> (\<And>k r. Step k r \<in> set cs \<Longrightarrow> closing p k \<Longrightarrow> may_wake r) \<Longrightarrow> replies_fit (schedule cs p)"
  by (auto simp: replies_fit_def loop_simps)

lemma awaits_fits: "awaits p k r \<Longrightarrow> closing p k \<Longrightarrow> may_wake r"
  by (cases k) (auto split: hb_state.splits ms_state.splits)

lemma replies_fit_event:
  assumes "replies_fit p" and "queue_ok p"
  shows "replies_fit (process_step rfs s order e p)"
proof (cases e)
  case Signal
  have "replies_fit (p\<lparr>stop_set := True, waiters := []\<rparr>)" using assms(1) by (simp add: replies_fit_def)
  then show ?thesis using Signal assms(1) by (auto intro!: replies_fit_schedule)
next
  case (Completes k r)
  then show ?thesis using assms(1) awaits_fits [of p k r] by (auto intro!: replies_fit_schedule)
next
  case (Turn x)
  show ?thesis
    unfolding Turn
  proof (rule process_turn [where P = replies_fit, OF assms(1)])
    fix c cs
    assume r: "ready p = c # cs"
    let ?p = "p\<lparr>ready := cs\<rparr>"
    have f: "replies_fit ?p" using assms(1) r by (simp add: replies_fit_def)
    show "replies_fit (run_callback rfs s order x c ?p)"
    proof (cases c)
      case (Step k v)
      note none = popped_step(2) [OF assms(2), of k v cs]
      have "may_wake u" if "Step j u \<in> set cs" "closing (step_task rfs s x k v ?p) j" for j u
      proof (cases "j = k")
        case False
        then show ?thesis using that f step_task_others(2) [OF False, of rfs s x v ?p] by (auto simp: replies_fit_def)
      qed (use that none r Step in simp)
      then show ?thesis using Step by (simp add: replies_fit_def step_task_steps)
    next
      case On_Completion
      then show ?thesis using f by (auto simp: on_completion_def replies_fit_def loop_simps)
    next
      case On_Child
      then show ?thesis using f by (auto simp: on_child_def replies_fit_def loop_simps split: main_state.splits)
    next
      case Main_Step
      have "replies_fit (fold cancel ks ?p)" for ks
        using f cancels_steps [of _ _ ks ?p] by (fastforce simp: replies_fit_def)
      then show ?thesis using Main_Step f
        by (auto simp: main_step_def wait_returns_def Let_def replies_fit_def loop_simps split: main_state.splits)
    qed
  qed
qed

lemma doomed_schedule: "doomed p k \<Longrightarrow> doomed (schedule cs p) k"
  by (auto simp: doomed_def loop_simps scheduled_schedule)

lemma doomed_pop:
  assumes "doomed p k" and "ready p = c # cs" and "\<not> is_step_of k c"
  shows "doomed (p\<lparr>ready := cs\<rparr>) k"
  using assms by (auto simp: doomed_def scheduled_def)

lemma cancel_ok_event:
  assumes "cancel_ok p" and "queue_ok p" and "set order = UNIV"
  shows "cancel_ok (process_step rfs s order e p)"
proof (cases e)
  case Signal
  have "doomed (p\<lparr>stop_set := True, waiters := []\<rparr>) k = doomed p k" for k by (simp add: doomed_def)
  then show ?thesis using Signal assms(1) by (auto simp: cancel_ok_def loop_simps intro: doomed_schedule)
next
  case (Completes k r)
  then show ?thesis using assms(1) by (auto simp: cancel_ok_def loop_simps intro: doomed_schedule)
next
  case (Turn x)
  show ?thesis
    unfolding Turn
  proof (rule process_turn [where P = cancel_ok, OF assms(1)])
    fix c cs
    assume r: "ready p = c # cs"
    let ?p = "p\<lparr>ready := cs\<rparr>"
    show "cancel_ok (run_callback rfs s order x c ?p)"
    proof (cases c)
      case (Step k v)
      note pop = popped_step [OF assms(2) r [unfolded Step]]
      have "closing (step_task rfs s x k v ?p) j \<or> doomed (step_task rfs s x k v ?p) j"
        if m: "main_at p = M_Gathering n ds" and o: "outcome (step_task rfs s x k v ?p) j = None" for n ds j
      proof (cases "j = k")
        case False
        then have "closing p j \<or> doomed p j"
          using assms(1) m o step_task_others(1) [OF False, of rfs s x v ?p] by (simp add: cancel_ok_def)
        then show ?thesis
          using False step_task_others [OF False, of rfs s x v ?p] doomed_pop [of p j, OF _ r] Step
          by (auto simp: doomed_def step_task_steps)
      next
        case True
        then have "closing p k \<or> doomed p k" using assms(1) m pop(3) by (simp add: cancel_ok_def)
        moreover have "doomed p k \<Longrightarrow> k \<in> must_cancel ?p \<or> v = Raise CancelledError"
          using pop(2) r Step by (auto simp: doomed_def)
        ultimately have "outcome (step_task rfs s x k v ?p) k \<noteq> None \<or> closing (step_task rfs s x k v ?p) k"
          using step_task_own(2,4) [OF pop(1), where rfs = rfs and s = s and x = x and r = v] by auto
        then show ?thesis using o True by simp
      qed
      then show ?thesis using Step by (simp add: cancel_ok_def step_task_later)
    next
      case On_Completion
      then have "\<forall>k. doomed p k \<longrightarrow> doomed ?p k" using doomed_pop [OF _ r] by simp
      then show ?thesis using On_Completion assms(1)
        by (auto simp: on_completion_def cancel_ok_def loop_simps)
    next
      case On_Child
      then have "\<forall>k. doomed p k \<longrightarrow> doomed ?p k" using doomed_pop [OF _ r] by simp
      then show ?thesis using On_Child assms(1)
        by (auto simp: on_child_def cancel_ok_def doomed_def loop_simps scheduled_schedule split: main_state.splits)
    next
      case Main_Step
      have "doomed (fold cancel (pending_tasks order ?p) ?p) k" if "outcome p k = None" for k
        using that assms(3) by (intro cancels_doom) (simp_all add: pending_tasks_def)
      then show ?thesis using Main_Step
        by (auto simp: main_step_def wait_returns_def Let_def cancel_ok_def doomed_def loop_simps split: main_state.splits)
    qed
  qed
qed

section \<open>The measure\<close>

definition position :: "(callback \<Rightarrow> bool) \<Rightarrow> process \<Rightarrow> nat" where
  "position P p = length (takeWhile (\<lambda>c. \<not> P c) (ready p))"

definition idle_tasks :: "process \<Rightarrow> nat" where
  "idle_tasks p = length (filter (\<lambda>k. outcome p k = None \<and> \<not> scheduled k p) all_tasks)"

text \<open>What a task has left once it is cancelled: its closing step, the end of the close, its end.\<close>

definition credit :: "process \<Rightarrow> task \<Rightarrow> nat" where
  "credit p k =
     (if outcome p k \<noteq> None then 0
      else if closing p k then (if scheduled k p then 3 else 4) else 5)"

text \<open>
  In the order of the way down: the step of the stopper, its completion, the step of \<open>main\<close> that
  cancels; then what the tasks have left.
\<close>

definition remaining :: "process \<Rightarrow> nat" where
  "remaining p =
     (case main_at p of
        M_Ended q \<Rightarrow> 0
      | M_Gathering n ds \<Rightarrow>
          queued On_Completion p + 2 * queued On_Child p + queued Main_Step p + sum_list (map (credit p) all_tasks)
      | M_Waiting True \<Rightarrow> 20 + 4 * position (\<lambda>c. c = Main_Step) p + idle_tasks p
      | M_Waiting False \<Rightarrow>
          if On_Completion \<in> set (ready p)
          then 40 + 4 * position (\<lambda>c. c = On_Completion) p + idle_tasks p
          else 60 + 4 * position (is_step_of Stopper) p + idle_tasks p)"

lemma idle_le: "idle_tasks p \<le> 3"
  unfolding idle_tasks_def using length_filter_le [of _ all_tasks] by simp

lemma credits_le: "sum_list (map (credit p) all_tasks) \<le> 15"
  by (simp add: all_tasks_def credit_def)

lemma length_by_kind:
  "length cs = sum_list (map (\<lambda>k. length (filter (is_step_of k) cs)) all_tasks) +
    count_list cs On_Completion + count_list cs On_Child + count_list cs Main_Step"
proof (induction cs)
  case (Cons c cs)
  then show ?case
  proof (cases c)
    case (Step k r)
    then show ?thesis using Cons by (cases k) (simp_all add: all_tasks_def)
  qed simp_all
qed simp

lemma queue_length:
  assumes "queue_ok p" and "gather_ok p" and "main_at p = M_Waiting w"
  shows "length (ready p) \<le> 4"
proof -
  have "steps_in k p \<le> (if outcome p k = None then 1 else 0)" for k
    using queue_okD(1,2) [OF assms(1), of k] by auto
  then have "sum_list (map (\<lambda>k. steps_in k p) all_tasks) \<le> sum_list (map (\<lambda>k. if outcome p k = None then 1 else 0) all_tasks)"
    by (intro sum_list_mono) simp
  also have "\<dots> = open_tasks p" by (simp add: all_tasks_def open_tasks_def)
  finally have "sum_list (map (\<lambda>k. length (filter (is_step_of k) (ready p))) all_tasks) \<le> open_tasks p"
    by (simp add: steps_in_def)
  then show ?thesis
    using assms(2,3) length_by_kind [of "ready p"] by (auto simp: gather_ok_def queued_def split: if_splits)
qed

lemma takeWhile_shorter: "\<exists>c \<in> set cs. P c \<Longrightarrow> length (takeWhile (\<lambda>c. \<not> P c) cs) < length cs"
  by (induction cs) auto

lemma position_le: "\<exists>c \<in> set (ready p). P c \<Longrightarrow> position P p < length (ready p)"
  unfolding position_def by (rule takeWhile_shorter)

lemma position_schedule: "\<exists>c \<in> set (ready p). P c \<Longrightarrow> position P (schedule cs p) = position P p"
  by (auto simp: position_def loop_simps takeWhile_append1)

text \<open>An upper bound, once something is known to be in the queue.\<close>

lemma waiting_bound:
  assumes "queue_ok p" and "gather_ok p" and "main_at p = M_Waiting w" and "\<exists>c \<in> set (ready p). P c"
  shows "4 * position P p + idle_tasks p < 20"
  using queue_length [OF assms(1-3)] position_le [OF assms(4)] idle_le [of p] by linarith

lemma idle_schedule:
  assumes "outcome p k = None" and "\<not> scheduled k p"
  shows "idle_tasks p = Suc (idle_tasks (schedule [Step k r] p))"
  using assms by (cases k) (auto simp: idle_tasks_def all_tasks_def loop_simps scheduled_schedule simp del: outcome.simps)

lemma idle_step:
  assumes "queue_ok p" and "ready p = Step k r # cs"
  shows "idle_tasks (step_task rfs s x k r (p\<lparr>ready := cs\<rparr>)) \<le> Suc (idle_tasks p)"
proof -
  have "scheduled j (p\<lparr>ready := cs\<rparr>) = scheduled j p" if "j \<noteq> k" for j
    using that assms(2) by (simp add: scheduled_def)
  then have "(outcome (step_task rfs s x k r (p\<lparr>ready := cs\<rparr>)) j = None \<and> \<not> scheduled j (step_task rfs s x k r (p\<lparr>ready := cs\<rparr>))) =
      (outcome p j = None \<and> \<not> scheduled j p)" if "j \<noteq> k" for j
    using that step_task_others [OF that, of rfs s x r "p\<lparr>ready := cs\<rparr>"] by simp
  then show ?thesis
    by (cases k) (simp_all add: idle_tasks_def all_tasks_def del: outcome.simps)
qed

lemma idle_pop:
  assumes "ready p = c # cs" and "\<And>k. \<not> is_step_of k c"
  shows "idle_tasks (p\<lparr>ready := cs\<rparr>) = idle_tasks p"
  using assms by (simp add: idle_tasks_def scheduled_def)

lemma idle_updates [simp]: "idle_tasks (p\<lparr>main_at := m\<rparr>) = idle_tasks p"
  by (simp add: idle_tasks_def)

section \<open>All invariants together\<close>

definition sound :: "process \<Rightarrow> bool" where
  "sound p \<longleftrightarrow> queue_ok p \<and> signalled p \<and> gather_ok p \<and> stop_comes p \<and> replies_fit p \<and> cancel_ok p"

lemma soundD:
  assumes "sound p"
  shows "queue_ok p" "signalled p" "gather_ok p" "stop_comes p" "replies_fit p" "cancel_ok p"
    "main_at p = M_Waiting w \<Longrightarrow> waiting_ok p w"
  using assms by (simp_all add: sound_def signalled_def)

lemma sound_start: "sound (process_start t)"
proof -
  have "replies_fit (process_start t)" "cancel_ok (process_start t)"
    by (simp_all add: replies_fit_def cancel_ok_def process_start_def)
  then show ?thesis
    by (simp add: sound_def queue_ok_start signalled_start gather_ok_start stop_comes_start)
qed

lemma sound_event:
  assumes "sound p" and "set order = UNIV" and "distinct order"
  shows "sound (process_step rfs s order e p)"
proof -
  note p = soundD [OF assms(1)]
  have "signalled (process_step rfs s order e p) \<and> gather_ok (process_step rfs s order e p) \<and> stop_comes (process_step rfs s order e p)"
  proof (cases e)
    case Signal
    then show ?thesis using p by (simp only: signalled_Signal gather_ok_Signal stop_comes_Signal simp_thms)
  next
    case (Completes k r)
    then show ?thesis using p by (simp only: signalled_Completes gather_ok_Completes stop_comes_Completes simp_thms)
  next
    case (Turn x)
    then show ?thesis
      using signalled_Turn [OF p(2,1) assms(2)] gather_ok_Turn [OF p(3,1) assms(2,3)] stop_comes_Turn [OF p(4)] by metis
  qed
  then show ?thesis
    using queue_ok_event [OF p(1)] replies_fit_event [OF p(5,1)] cancel_ok_event [OF p(6,1) assms(2)]
    by (simp only: sound_def simp_thms)
qed

section \<open>Every event lowers the measure\<close>

lemma step_task_ready:
  obtains zs where "ready (step_task rfs s x k r p) = ready p @ zs" and "set zs \<subseteq> set (tell p)"
proof -
  have "\<exists>zs. ready (step_task rfs s x k r p) = ready p @ zs \<and> set zs \<subseteq> set (tell p)"
    by (auto simp: step_task_def Let_def loop_simps tell_def)
  then show thesis using that by blast
qed

lemma position_step:
  assumes "ready p = Step k r # cs" and "\<not> P (Step k r)" and "\<exists>c \<in> set cs. P c"
  shows "position P p = Suc (position P (step_task rfs s x k r (p\<lparr>ready := cs\<rparr>)))"
proof -
  obtain zs where "ready (step_task rfs s x k r (p\<lparr>ready := cs\<rparr>)) = cs @ zs"
    by (rule step_task_ready [of rfs s x k r "p\<lparr>ready := cs\<rparr>"]) simp
  then show ?thesis using assms by (auto simp: position_def takeWhile_append1)
qed

text \<open>A step that is not the one waited for, while \<open>main\<close> waits.\<close>

lemma remaining_other_step:
  assumes "queue_ok p" and "ready p = Step k r # cs" and "\<not> P (Step k r)" and "\<exists>c \<in> set cs. P c"
  shows "4 * position P (step_task rfs s x k r (p\<lparr>ready := cs\<rparr>)) + idle_tasks (step_task rfs s x k r (p\<lparr>ready := cs\<rparr>))
    < 4 * position P p + idle_tasks p"
  using position_step [OF assms(2-4), of rfs s x] idle_step [OF assms(1,2), of rfs s x] by linarith

lemma remaining_Turn_woken:
  assumes "sound p" and "main_at p = M_Waiting True" and "ready p = c # cs" and "set order = UNIV" and "distinct order"
  shows "remaining (run_callback rfs s order x c (p\<lparr>ready := cs\<rparr>)) < remaining p"
proof -
  note p = soundD [OF assms(1)]
  have w: "waiting_ok p True" using p(7) [OF assms(2)] .
  have m: "Main_Step \<in> set (ready p)"
    using p(3) assms(2) by (simp add: gather_ok_def queued_mem [symmetric])
  let ?p = "p\<lparr>ready := cs\<rparr>"
  have rem: "remaining p = 20 + 4 * position (\<lambda>c. c = Main_Step) p + idle_tasks p"
    using assms(2) by (simp add: remaining_def)
  show ?thesis
  proof (cases c)
    case (Step k r)
    then have "\<exists>c \<in> set cs. c = Main_Step" using m assms(3) by auto
    then show ?thesis
      using remaining_other_step [OF p(1) assms(3) [unfolded Step], of "\<lambda>c. c = Main_Step" rfs s x] assms(2) Step rem
      by (simp add: remaining_def [of "step_task _ _ _ _ _ _"] step_task_later)
  next
    case On_Completion
    then have "remaining ?p < remaining p"
      using assms(2,3) rem idle_pop [OF assms(3)] by (simp add: remaining_def [of ?p] position_def)
    then show ?thesis using On_Completion assms(2) by (simp add: on_completion_def)
  next
    case On_Child
    then show ?thesis using w assms(3) by (simp add: waiting_ok_def)
  next
    case Main_Step
    have c: "queued On_Child ?p = 0" "queued Main_Step ?p = 0" "queued On_Completion ?p \<le> 3"
      using p(3) assms(2,3) queued_pop [OF assms(3)] Main_Step by (auto simp: gather_ok_def)
    have "remaining (wait_returns order ?p) < 20"
    proof (cases "pending_tasks order ?p = []")
      case True
      then show ?thesis by (simp add: wait_returns_def remaining_def loop_simps)
    next
      case False
      have cr: "sum_list (map (credit q) all_tasks) \<le> 15" for q by (rule credits_le)
      show ?thesis
        using False c cr [of "wait_returns order ?p"]
        by (simp add: wait_returns_def Let_def remaining_def)
    qed
    then show ?thesis using Main_Step assms(2) rem by (simp add: main_step_def)
  qed
qed

lemma remaining_completion_waits:
  assumes "sound p" and "main_at p = M_Waiting False" and "On_Completion \<in> set (ready p)"
  shows "remaining p < 60"
  using waiting_bound [OF soundD(1,3) [OF assms(1)] assms(2), of "\<lambda>c. c = On_Completion"] assms(2,3)
  by (simp add: remaining_def)

lemma remaining_woken: "sound p \<Longrightarrow> main_at p = M_Waiting True \<Longrightarrow> remaining p < 40"
  using waiting_bound [OF soundD(1,3), of p True "\<lambda>c. c = Main_Step"] soundD(3) [of p]
  by (simp add: remaining_def gather_ok_def queued_mem [symmetric])

lemma remaining_Turn_asleep:
  assumes "sound p" and "main_at p = M_Waiting False" and "ready p = c # cs" and "stop_set p"
    and snd: "sound (run_callback rfs s order x c (p\<lparr>ready := cs\<rparr>))"
  shows "remaining (run_callback rfs s order x c (p\<lparr>ready := cs\<rparr>)) < remaining p"
proof -
  note p = soundD [OF assms(1)]
  have w: "waiting_ok p False" using p(7) [OF assms(2)] .
  let ?p = "p\<lparr>ready := cs\<rparr>"
  show ?thesis
  proof (cases c)
    case (Step k r)
    let ?q = "step_task rfs s x k r ?p"
    have m: "main_at ?q = M_Waiting False" using assms(2) by (simp add: step_task_later)
    show ?thesis
    proof (cases "On_Completion \<in> set (ready p)")
      case True
      then have oc: "\<exists>c \<in> set cs. c = On_Completion" using assms(3) Step by auto
      obtain zs where "ready ?q = cs @ zs" by (rule step_task_ready [of rfs s x k r ?p]) simp
      then have "On_Completion \<in> set (ready ?q)" using oc by auto
      then show ?thesis
        using remaining_other_step [OF p(1) assms(3) [unfolded Step] _ oc, of rfs s x] assms(2) Step True m
        by (simp add: remaining_def)
    next
      case no: False
      then have rem: "remaining p = 60 + 4 * position (is_step_of Stopper) p + idle_tasks p"
        using assms(2) by (simp add: remaining_def)
      show ?thesis
      proof (cases "On_Completion \<in> set (ready ?q)")
        case True
        then show ?thesis using remaining_completion_waits [of ?q] snd m Step rem by simp
      next
        case False
        have "open_tasks p = 3"
          using p(3) assms(2) no queued_mem [of On_Completion p] by (simp add: gather_ok_def)
        then have "outcome p Stopper = None" by (simp add: open_tasks_def all_tasks_def split: if_splits)
        then have sch: "scheduled Stopper p" using p(4) assms(2,4) by (auto simp: stop_comes_def)
        have "k \<noteq> Stopper"
        proof
          assume k: "k = Stopper"
          have "outcome ?p Stopper = None" using \<open>outcome p Stopper = None\<close> by simp
          then have "ready (step_task rfs s x Stopper r ?p) = ready ?p @ tell ?p"
            by (rule step_task_counts [of ?p Stopper rfs s x r])
               (use stopper_step_ends [of ?p rfs s x r] assms(4) in simp_all)
          then show False using False assms(2) k by (simp add: tell_def)
        qed
        then have "\<exists>c \<in> set cs. is_step_of Stopper c" "\<not> is_step_of Stopper (Step k r)"
          using sch assms(3) Step by (auto simp: scheduled_def list_ex_iff)
        from remaining_other_step [OF p(1) assms(3) [unfolded Step] this(2,1), of rfs s x]
        show ?thesis using False m Step rem by (simp add: remaining_def [of ?q])
      qed
    qed
  next
    case On_Completion
    have "main_at (on_completion ?p) = M_Waiting True" using assms(2) by (simp add: on_completion_def loop_simps)
    moreover have "40 \<le> remaining p" using assms(2,3) On_Completion by (simp add: remaining_def)
    ultimately show ?thesis using remaining_woken [of "on_completion ?p"] snd On_Completion by simp
  qed (use w assms(3) in \<open>simp_all add: waiting_ok_def\<close>)
qed

lemma remaining_Turn_gathering:
  assumes "sound p" and "main_at p = M_Gathering n ds" and "ready p = c # cs"
  shows "remaining (run_callback rfs s order x c (p\<lparr>ready := cs\<rparr>)) < remaining p"
proof -
  note p = soundD [OF assms(1)]
  let ?p = "p\<lparr>ready := cs\<rparr>"
  note pop = queued_pop [OF assms(3)]
  have sp: "scheduled k ?p = scheduled k p" if "\<And>k. \<not> is_step_of k c" for k
    using that assms(3) by (simp add: scheduled_def)
  show ?thesis
  proof (cases c)
    case (Step k r)
    let ?q = "step_task rfs s x k r ?p"
    note popped = popped_step [OF p(1) assms(3) [unfolded Step]]
    have oth: "credit ?q j = credit p j" if "j \<noteq> k" for j
      using step_task_others [OF that, of rfs s x r ?p] that assms(3) Step by (simp add: credit_def scheduled_def)
    have sk: "scheduled k p" using assms(3) Step by (simp add: scheduled_def)
    have own: "2 * queued On_Child ?q + credit ?q k < 2 * queued On_Child p + credit p k \<and>
        queued On_Completion ?q = queued On_Completion p \<and> queued Main_Step ?q = queued Main_Step p"
    proof (rule step_task_counts [of ?p k rfs s x r])
      show "outcome ?p k = None" using popped(3) by simp
      assume ended: "outcome ?q k \<noteq> None" and q: "\<And>c. queued c ?q = queued c ?p + count_list (tell ?p) c"
      have "credit ?q k = 0" "3 \<le> credit p k" using ended popped(3) sk by (simp_all add: credit_def)
      then show ?thesis using q pop Step assms(2) by (simp add: tell_def)
    next
      assume going: "outcome ?q k = None" and q: "\<And>c. queued c ?q = queued c ?p"
      have "\<not> closing p k"
        using step_task_own(3) [OF popped(1), where rfs = rfs and s = s and x = x and r = r] going p(5) assms(3) Step
        by (auto simp: replies_fit_def)
      moreover have "doomed p k" using calculation p(6) assms(2) popped(3) by (auto simp: cancel_ok_def)
      then have "k \<in> must_cancel ?p \<or> r = Raise CancelledError"
        using popped(2) assms(3) Step by (auto simp: doomed_def)
      then have "closing ?q k \<and> \<not> scheduled k ?q"
        using step_task_own(1,2) [OF popped(1), where rfs = rfs and s = s and x = x and r = r] going by auto
      ultimately have "credit ?q k = 4" "credit p k = 5" using going popped(3) by (simp_all add: credit_def)
      then show ?thesis using q pop Step by simp
    qed
    have "sum_list (map (credit ?q) all_tasks) + credit p k = sum_list (map (credit p) all_tasks) + credit ?q k"
      using oth by (cases k) (simp_all add: all_tasks_def)
    then show ?thesis using own assms(2) Step by (simp add: remaining_def step_task_later)
  next
    case On_Completion
    then show ?thesis using assms(2) pop sp by (simp add: on_completion_def remaining_def all_tasks_def credit_def)
  next
    case On_Child
    have "credit (schedule [Main_Step] (?p\<lparr>main_at := m\<rparr>)) k = credit p k" "credit (?p\<lparr>main_at := m\<rparr>) k = credit p k" for m k
      using sp [of k] On_Child by (simp_all add: credit_def loop_simps scheduled_schedule)
    then show ?thesis using On_Child assms(2) pop
      by (simp add: on_child_def remaining_def all_tasks_def loop_simps)
  next
    case Main_Step
    then show ?thesis using assms(2) pop [of Main_Step] by (simp add: main_step_def remaining_def loop_simps)
  qed
qed

lemma remaining_Completes:
  assumes "sound p" and "stop_set p" and "awaits p k r" and "\<not> scheduled k p" and "\<not> main_ended (main_at p)"
  shows "remaining (schedule [Step k r] p) < remaining p"
proof -
  note p = soundD [OF assms(1)]
  have o: "outcome p k = None" by (rule awaits_not_waiting(1) [OF assms(3)])
  note i = idle_schedule [OF o assms(4), of r]
  show ?thesis
  proof (cases "main_at p")
    case (M_Waiting w)
    show ?thesis
    proof (cases w)
      case True
      then have "\<exists>c \<in> set (ready p). c = Main_Step"
        using p(3) M_Waiting by (simp add: gather_ok_def queued_mem [symmetric])
      from position_schedule [OF this] i show ?thesis using M_Waiting True by (simp add: remaining_def loop_simps)
    next
      case w: False
      show ?thesis
      proof (cases "On_Completion \<in> set (ready p)")
        case True
        then have "\<exists>c \<in> set (ready p). c = On_Completion" by simp
        from position_schedule [OF this] i show ?thesis using M_Waiting w True by (simp add: remaining_def loop_simps)
      next
        case False
        then have "open_tasks p = 3"
          using p(3) M_Waiting w queued_mem [of On_Completion p] by (simp add: gather_ok_def)
        then have "outcome p Stopper = None" by (simp add: open_tasks_def all_tasks_def split: if_splits)
        then have "\<exists>c \<in> set (ready p). is_step_of Stopper c"
          using p(4) M_Waiting assms(2) by (auto simp: stop_comes_def scheduled_def list_ex_iff)
        from position_schedule [OF this] i show ?thesis using M_Waiting w False by (simp add: remaining_def loop_simps)
      qed
    qed
  next
    case (M_Gathering n ds)
    then have "closing p k \<or> doomed p k" using p(6) o by (simp add: cancel_ok_def)
    moreover have "\<not> doomed p k" using assms(4) by (auto simp: doomed_def scheduled_def list_ex_iff)
    ultimately have "closing p k" by blast
    then have "credit (schedule [Step k r] p) k < credit p k"
      using o assms(4) by (simp add: credit_def loop_simps scheduled_schedule)
    moreover have "credit (schedule [Step k r] p) j = credit p j" if "j \<noteq> k" for j
      using that by (simp add: credit_def loop_simps scheduled_schedule)
    ultimately have "sum_list (map (credit (schedule [Step k r] p)) all_tasks) < sum_list (map (credit p) all_tasks)"
      by (cases k) (simp_all add: all_tasks_def)
    then show ?thesis using M_Gathering by (simp add: remaining_def loop_simps)
  qed (use assms(5) in simp)
qed

lemma remaining_Turn:
  assumes "sound p" and "stop_set p" and "set order = UNIV" and "distinct order"
    and "ready p \<noteq> []" and "\<not> main_ended (main_at p)"
  shows "remaining (process_step rfs s order (Turn x) p) < remaining p"
proof -
  obtain c cs where r: "ready p = c # cs" using assms(5) by (cases "ready p") auto
  have step: "process_step rfs s order (Turn x) p = run_callback rfs s order x c (p\<lparr>ready := cs\<rparr>)"
    using r assms(6) by simp
  have sn: "sound (run_callback rfs s order x c (p\<lparr>ready := cs\<rparr>))"
    using sound_event [OF assms(1,3,4), of rfs s "Turn x"] unfolding step .
  show ?thesis
  proof (cases "main_at p")
    case (M_Waiting w)
    then show ?thesis
      unfolding step
      using remaining_Turn_woken [OF assms(1) _ r assms(3,4)] remaining_Turn_asleep [OF assms(1) _ r assms(2) sn]
      by (cases w) auto
  next
    case (M_Gathering n ds)
    then show ?thesis unfolding step by (rule remaining_Turn_gathering [OF assms(1) _ r])
  qed (use assms(6) in simp)
qed

lemma remaining_event:
  assumes "sound p" and "stop_set p" and "set order = UNIV" and "distinct order"
    and "process_step rfs s order e p \<noteq> p"
  shows "remaining (process_step rfs s order e p) < remaining p"
proof (cases e)
  case (Turn x)
  then have "ready p \<noteq> []" "\<not> main_ended (main_at p)" using assms(5) by (auto split: list.splits)
  then show ?thesis unfolding Turn by (rule remaining_Turn [OF assms(1-4)])
qed (use assms remaining_Completes [OF assms(1,2)] in \<open>auto split: if_splits\<close>)

section \<open>The end\<close>

text \<open>How many events of a run change the process.\<close>

fun moves :: "(http_response \<Rightarrow> unit res) \<Rightarrow> agent_settings \<Rightarrow> task list \<Rightarrow> loop_event list \<Rightarrow> process \<Rightarrow> nat" where
  "moves rfs s order [] p = 0"
| "moves rfs s order (e # es) p =
     (if process_step rfs s order e p = p then 0 else 1) + moves rfs s order es (process_step rfs s order e p)"

lemma stop_set_Turn: "stop_set (process_step rfs s order (Turn x) p) = stop_set p"
proof (rule process_turn [where P = "\<lambda>q. stop_set q = stop_set p", OF refl])
  fix c cs
  show "stop_set (run_callback rfs s order x c (p\<lparr>ready := cs\<rparr>)) = stop_set p"
    by (cases c) (simp_all add: step_task_later on_completion_def on_child_def main_step_def wait_returns_def Let_def
        loop_simps split: main_state.splits)
qed

lemma stop_set_event: "stop_set p \<Longrightarrow> stop_set (process_step rfs s order e p)"
  using stop_set_Turn by (cases e) (auto simp: loop_simps simp del: process_step.simps(3))

lemma moves_bound:
  assumes "sound p" and "stop_set p" and "set order = UNIV" and "distinct order"
  shows "moves rfs s order es p + remaining (process_run rfs s order es p) \<le> remaining p"
  using assms(1,2)
proof (induction es arbitrary: p)
  case (Cons e es)
  have "moves rfs s order es (process_step rfs s order e p) + remaining (process_run rfs s order (e # es) p)
      \<le> remaining (process_step rfs s order e p)"
    using Cons.IH [OF sound_event [OF Cons.prems(1) assms(3,4)] stop_set_event [OF Cons.prems(2)]] by simp
  moreover have "process_step rfs s order e p \<noteq> p \<Longrightarrow> remaining (process_step rfs s order e p) < remaining p"
    by (rule remaining_event [OF Cons.prems assms(3,4)])
  ultimately show ?case by (cases "process_step rfs s order e p = p") (simp_all del: process_step.simps)
qed simp

lemma remaining_bound:
  assumes "sound p" and "stop_set p" and "main_at p = M_Waiting w"
  shows "remaining p < 80"
proof (cases "w \<or> On_Completion \<in> set (ready p)")
  case True
  then show ?thesis
    using remaining_woken [OF assms(1)] remaining_completion_waits [OF assms(1)] assms(3) by (cases w) auto
next
  case False
  note p = soundD [OF assms(1)]
  have "open_tasks p = 3"
    using p(3) assms(3) False queued_mem [of On_Completion p] by (simp add: gather_ok_def)
  then have "outcome p Stopper = None" by (simp add: open_tasks_def all_tasks_def split: if_splits)
  then have "\<exists>c \<in> set (ready p). is_step_of Stopper c"
    using p(4) assms(2,3) by (auto simp: stop_comes_def scheduled_def list_ex_iff)
  from waiting_bound [OF p(1,3) assms(3) this] show ?thesis using assms(3) False by (simp add: remaining_def)
qed

text \<open>Until the end there is a turn to make, or a task closes and its close ends.\<close>

lemma never_stuck:
  assumes "sound p" and "stop_set p" and "\<not> main_ended (main_at p)" and "set order = UNIV" and "distinct order"
  shows "(\<forall>x. process_step rfs s order (Turn x) p \<noteq> p) \<or>
    (\<exists>k. closing p k \<and> (\<forall>r. may_wake r \<longrightarrow> process_step rfs s order (Completes k r) p \<noteq> p))"
proof (cases "ready p")
  case (Cons c cs)
  then have "ready p \<noteq> []" by simp
  from remaining_Turn [OF assms(1,2,4,5) this assms(3)] show ?thesis by (metis less_irrefl)
next
  case Nil
  note p = soundD [OF assms(1)]
  have q: "queued c p = 0" for c using Nil by (simp add: queued_def)
  have ns: "\<not> scheduled k p" for k using Nil by (simp add: scheduled_def)
  have "\<exists>k. closing p k"
  proof (cases "main_at p")
    case (M_Waiting w)
    have "\<not> w" "open_tasks p = 3" using p(3) M_Waiting q by (auto simp: gather_ok_def split: if_splits)
    then have "outcome p Stopper = None" by (simp add: open_tasks_def all_tasks_def split: if_splits)
    then show ?thesis using p(4) M_Waiting assms(2) ns by (auto simp: stop_comes_def)
  next
    case (M_Gathering n ds)
    have "open_tasks p \<noteq> 0" using p(3) M_Gathering q by (auto simp: gather_ok_def split: if_splits)
    then obtain k where "outcome p k = None" by (metis open_tasks_0)
    then have "closing p k" using p(6) M_Gathering Nil ns by (auto simp: cancel_ok_def doomed_def)
    then show ?thesis by blast
  qed (use assms(3) in simp)
  then obtain k where k: "closing p k" by blast
  have "process_step rfs s order (Completes k r) p \<noteq> p" if "may_wake r" for r
  proof -
    have "awaits p k r" using k that by (cases k) (auto split: hb_state.splits ms_state.splits)
    then have "ready (process_step rfs s order (Completes k r) p) = [Step k r]"
      using ns assms(3) Nil by (simp add: loop_simps)
    then show ?thesis using Nil by (metis list.distinct(1))
  qed
  then show ?thesis using k by blast
qed

section \<open>What the end tells\<close>

text \<open>What \<open>main\<close> took for done was done, and stays so.\<close>

definition snapshot_ok :: "process \<Rightarrow> bool" where
  "snapshot_ok p \<longleftrightarrow>
     (case main_at p of
        M_Waiting w \<Rightarrow> True
      | M_Gathering n ds \<Rightarrow> \<forall>(k, q) \<in> set ds. outcome p k = Some q
      | M_Ended q \<Rightarrow> \<forall>e. q = Raise e \<longrightarrow> (\<exists>k. k \<noteq> Stopper \<and> outcome p k = Some (Raise e)))"

lemma outcome_stays:
  "outcome p k = Some q \<Longrightarrow> outcome (step_task rfs s x j r p) k = Some q"
proof (cases "j = k")
  case True
  assume "outcome p k = Some q"
  then show ?thesis
    using True
    by (cases k)
       (auto simp: step_task_def Let_def advance_def loop_simps split: hb_state.splits ms_state.splits st_state.splits prod.splits)
qed (simp add: step_task_def Let_def loop_simps)

lemma snapshot_finish:
  assumes "\<forall>(k, q) \<in> set ds. outcome p k = Some q"
  shows "snapshot_ok (finish ds p)"
proof -
  have "\<exists>k. k \<noteq> Stopper \<and> outcome p k = Some (Raise e)" if "fst (after_wait ds (performed p)) = Raise e" for e
    using that surface_raises [of ds "performed p" e] assms by (auto simp: after_wait_fst split: if_splits)
  then show ?thesis by (simp add: snapshot_ok_def loop_simps)
qed

lemma snapshot_event:
  assumes "snapshot_ok p"
  shows "snapshot_ok (process_step rfs s order e p)"
proof (cases e)
  case (Turn x)
  show ?thesis
    unfolding Turn
  proof (rule process_turn [where P = snapshot_ok, OF assms])
    fix c cs
    assume running: "\<not> main_ended (main_at p)"
    let ?p = "p\<lparr>ready := cs\<rparr>"
    have done_ok: "\<forall>(k, q) \<in> set (done_tasks order p). outcome p k = Some q"
      by (auto simp: done_tasks_def split: option.splits)
    have d: "done_tasks order ?p = done_tasks order p" by (simp add: done_tasks_def)
    show "snapshot_ok (run_callback rfs s order x c ?p)"
    proof (cases c)
      case (Step k r)
      then show ?thesis using assms running outcome_stays [of ?p _ _ rfs s x k r]
        by (cases "main_at p") (auto simp: snapshot_ok_def step_task_later)
    next
      case Main_Step
      then show ?thesis using assms running done_ok d
        by (auto simp: main_step_def wait_returns_def Let_def snapshot_ok_def [of p] snapshot_ok_def [of "_\<lparr>main_at := _\<rparr>"]
            loop_simps split: main_state.splits intro!: snapshot_finish)
    next
      case On_Child
      then show ?thesis using assms
        by (auto simp: on_child_def snapshot_ok_def loop_simps split: main_state.splits)
    qed (use assms in \<open>simp add: on_completion_def snapshot_ok_def loop_simps split: main_state.splits\<close>)
  qed
qed (use assms in \<open>auto simp: snapshot_ok_def loop_simps split: main_state.splits\<close>)

lemma process_run_append: "process_run rfs s order (es @ es') p = process_run rfs s order es' (process_run rfs s order es p)"
  by (induction es arbitrary: p) simp_all

lemma run_from_start:
  assumes "set order = UNIV" and "distinct order"
  shows "sound (process_run rfs s order es (process_start t)) \<and> snapshot_ok (process_run rfs s order es (process_start t))"
proof (rule process_run_keeps)
  show "sound (process_start t) \<and> snapshot_ok (process_start t)"
    using sound_start [of t] by (simp add: snapshot_ok_def process_start_def)
qed (simp only: sound_event [OF _ assms] snapshot_event simp_thms)

lemma stop_set_needs_Signal:
  "stop_set (process_run rfs s order es p) \<Longrightarrow> stop_set p \<or> Signal \<in> set es"
proof (induction es arbitrary: p)
  case (Cons e es)
  have "stop_set (process_step rfs s order e p) \<Longrightarrow> stop_set p \<or> e = Signal"
    using stop_set_Turn by (cases e) (auto simp: loop_simps simp del: process_step.simps(3) split: if_splits)
  then show ?case using Cons by fastforce
qed simp

lemma ended_by:
  assumes "set order = UNIV" and "distinct order"
    and "main_at (process_run rfs s order es (process_start t)) = M_Ended q"
  shows "q = Ok () \<Longrightarrow> Signal \<in> set es"
    and "q = Raise e \<Longrightarrow> \<exists>k. k \<noteq> Stopper \<and> outcome (process_run rfs s order es (process_start t)) k = Some (Raise e)"
    and "outcome (process_run rfs s order es (process_start t)) k \<noteq> None"
proof -
  let ?p = "process_run rfs s order es (process_start t)"
  have so: "sound ?p" "snapshot_ok ?p" using run_from_start [OF assms(1,2)] by blast+
  show "Signal \<in> set es" if "q = Ok ()"
  proof -
    have "stop_set ?p" using soundD(2) [OF so(1)] assms(3) that by (simp add: signalled_def)
    then show ?thesis using stop_set_needs_Signal [of rfs s order es "process_start t"] by (simp add: process_start_def)
  qed
  show "\<exists>k. k \<noteq> Stopper \<and> outcome ?p k = Some (Raise e)" if "q = Raise e"
    using so(2) assms(3) that by (simp add: snapshot_ok_def)
  show "outcome ?p k \<noteq> None"
    using soundD(3) [OF so(1)] assms(3) open_tasks_0 [of ?p] by (simp add: gather_ok_def del: outcome.simps)
qed

lemma no_task_done_waits:
  assumes "sound p" and "snapshot_ok p" and "\<And>k. outcome p k = None"
  obtains w where "main_at p = M_Waiting w"
proof (cases "main_at p")
  case (M_Gathering n ds)
  then have "ds \<noteq> []" "\<forall>(k, q) \<in> set ds. outcome p k = Some q"
    using soundD(2) [OF assms(1)] assms(2) by (auto simp: signalled_def evident_def snapshot_ok_def)
  then show thesis using assms(3) by (cases ds) auto
next
  case (M_Ended q)
  then show thesis using soundD(3) [OF assms(1)] assms(3) open_tasks_0 [of p] by (simp add: gather_ok_def)
qed (use that in blast)

lemma signal_stops:
  assumes "set order = UNIV" and "distinct order"
    and p_def: "p = process_run rfs s order es (process_start t)" and "\<And>k. outcome p k = None"
    and q_def: "q = process_run rfs s order es' (process_step rfs s order Signal p)"
  shows "moves rfs s order es' (process_step rfs s order Signal p) < 80"
    and "main_ended (main_at q) \<Longrightarrow> main_at q = M_Ended (Ok ()) \<and> (\<exists>t. performed q = t @ [stopped])"
    and "\<not> main_ended (main_at q) \<Longrightarrow> (\<forall>x. process_step rfs s order (Turn x) q \<noteq> q) \<or>
      (\<exists>k. closing q k \<and> (\<forall>r. may_wake r \<longrightarrow> process_step rfs s order (Completes k r) q \<noteq> q))"
proof -
  have p: "sound p" "snapshot_ok p" unfolding p_def using run_from_start [OF assms(1,2)] by blast+
  obtain w where w: "main_at p = M_Waiting w" using no_task_done_waits [OF p assms(4)] by blast
  let ?p = "process_step rfs s order Signal p"
  have s0: "sound ?p" by (rule sound_event [OF p(1) assms(1,2)])
  have st: "stop_set ?p" and m: "main_at ?p = M_Waiting w" using w by (auto simp: loop_simps)
  have f: "stop_first ?p"
    by (rule stop_first_Signal [OF w soundD(7) [OF p(1) w] soundD(4) [OF p(1)] assms(4)])
  have q: "sound q \<and> stop_set q \<and> stop_first q"
    unfolding q_def
  proof (rule process_run_keeps)
    fix e p
    assume "sound p \<and> stop_set p \<and> stop_first p"
    then show "sound (process_step rfs s order e p) \<and> stop_set (process_step rfs s order e p) \<and> stop_first (process_step rfs s order e p)"
      using sound_event [OF _ assms(1,2)] stop_set_event stop_first_event [OF _ soundD(7) assms(1)] by blast
  qed (use s0 st f in blast)
  show "moves rfs s order es' ?p < 80"
    using moves_bound [OF s0 st assms(1,2), of rfs s es'] remaining_bound [OF s0 st m] by linarith
  show "main_ended (main_at q) \<Longrightarrow> main_at q = M_Ended (Ok ()) \<and> (\<exists>t. performed q = t @ [stopped])"
    using q by (cases "main_at q") (auto simp: stop_first_def)
  show "\<not> main_ended (main_at q) \<Longrightarrow> (\<forall>x. process_step rfs s order (Turn x) q \<noteq> q) \<or>
      (\<exists>k. closing q k \<and> (\<forall>r. may_wake r \<longrightarrow> process_step rfs s order (Completes k r) q \<noteq> q))"
    using q never_stuck [OF _ _ _ assms(1,2)] by blast
qed

end
