(* ===== verification/Agent_Effects.thy ===== *)
theory Agent_Effects
  imports Agent_Liveness
begin

text \<open>
  What the agent does outside, against where its tasks are: requests only after what the code
  promises, and what was opened is closed once.
\<close>

section \<open>Emissions of a step\<close>

fun posts_to :: "string \<Rightarrow> agent_effect \<Rightarrow> bool" where
  "posts_to u (Post v b) = (v = u)"
| "posts_to u _ = False"

lemma posts_to_iff: "posts_to u e \<longleftrightarrow> (\<exists>b. e = Post u b)"
  by (cases e) auto

definition registrations :: "agent_effect list \<Rightarrow> nat" where
  "registrations l = length (filter (posts_to ''/api/v1/nodes'') l)"

definition beats :: "agent_settings \<Rightarrow> agent_effect list \<Rightarrow> nat" where
  "beats s l = length (filter (posts_to (heartbeat_path s)) l)"

definition closes :: "agent_effect list \<Rightarrow> nat" where
  "closes l = length (filter (\<lambda>e. e = Client_Close) l)"

definition cleanups :: "agent_effect list \<Rightarrow> nat" where
  "cleanups l = length (filter (\<lambda>e. e = Runner_Cleanup) l)"

definition listens :: "agent_settings \<Rightarrow> agent_effect list \<Rightarrow> nat" where
  "listens s l = length (filter (\<lambda>e. e = listening s) l)"

lemmas counted = registrations_def beats_def closes_def cleanups_def listens_def

lemma beats_pos: "0 < beats s l \<longleftrightarrow> (\<exists>b. Post (heartbeat_path s) b \<in> set l)"
  by (auto simp: beats_def filter_empty_conv posts_to_iff)

lemma counted_append [simp]:
  "registrations (a @ b) = registrations a + registrations b" "beats s (a @ b) = beats s a + beats s b"
  "closes (a @ b) = closes a + closes b" "cleanups (a @ b) = cleanups a + cleanups b"
  "listens s (a @ b) = listens s a + listens s b"
  by (simp_all add: counted)

lemma counted_Nil [simp]:
  "registrations [] = 0" "beats s [] = 0" "closes [] = 0" "cleanups [] = 0" "listens s [] = 0"
  by (simp_all add: counted)

lemma path_not_nodes [simp]: "heartbeat_path s \<noteq> ''/api/v1/nodes''" "''/api/v1/nodes'' \<noteq> heartbeat_path s"
  by (auto simp: heartbeat_path_def)

lemma registers_emits:
  obtains m where "snd (register_begins s u t) = t @ m" and "beats s m = 0" "closes m = 0" "cleanups m = 0" "listens s m = 0"
    and "registrations m = (if is_ok (fst (register_begins s u t)) then 1 else 0)"
proof (cases "primary_ip u t")
  case (Pair q t')
  then have t': "t' = t @ [Socket_Close]" by (simp add: primary_ip_eq)
  show thesis
  proof (cases q)
    case (Ok ip)
    with Pair t' show thesis
      by (intro that [of "[Socket_Close, Post ''/api/v1/nodes'' (register_payload s ip)]"])
         (simp_all add: register_begins_def act_simps counted listening_def)
  next
    case (Raise e)
    with Pair t' show thesis
      by (intro that [of "[Socket_Close]"]) (simp_all add: register_begins_def act_simps counted listening_def)
  qed
qed

lemma register_ends_emits:
  obtains m where "snd (register_ends rfs s r t) = t @ m" and "beats s m = 0" "closes m = 0" "cleanups m = 0" "listens s m = 0"
    "registrations m = 0"
proof -
  have "\<exists>m. snd (register_ends rfs s r t) = t @ m \<and> set m \<subseteq> range (Agent_Log ''http_client'' Info ''registered'') \<union>
      range (Agent_Log ''http_client'' Info ''already_registered'')"
    by (cases "json r"; cases "rfs r") (auto simp: register_ends_def act_simps)
  then obtain m where m: "snd (register_ends rfs s r t) = t @ m" "set m \<subseteq> range (Agent_Log ''http_client'' Info ''registered'') \<union>
      range (Agent_Log ''http_client'' Info ''already_registered'')" by blast
  then have n: "e \<noteq> Client_Close \<and> e \<noteq> Runner_Cleanup \<and> e \<noteq> listening s \<and> (\<nexists>p b. e = Post p b)" if "e \<in> set m" for e
    using that by (auto simp: listening_def)
  then show thesis by (intro that [OF m(1)]) (auto simp: counted filter_empty_conv posts_to_iff)
qed

text \<open>The reply that registers.\<close>

fun registers_with :: "(http_response \<Rightarrow> unit res) \<Rightarrow> reply res \<Rightarrow> bool" where
  "registers_with rfs (Ok (Answered r)) = is_ok (register_value rfs r)"
| "registers_with rfs _ = False"

text \<open>Where the heartbeat task is, by what it has sent: in its attempts, in its loop, closing, ended.\<close>

fun in_loop :: "hb_state \<Rightarrow> bool" where
  "in_loop HB_Beating = True"
| "in_loop HB_Pausing = True"
| "in_loop _ = False"

fun attempts_made :: "hb_state \<Rightarrow> nat" where
  "attempts_made HB_New = 0"
| "attempts_made (HB_Registering k d) = k"
| "attempts_made (HB_Backing_Off k d) = k"
| "attempts_made _ = 10"

fun client_closed :: "hb_state \<Rightarrow> bool" where
  "client_closed (HB_Closing e) = True"
| "client_closed (HB_Ended e) = True"
| "client_closed _ = False"

fun is_closing :: "hb_state \<Rightarrow> bool" where
  "is_closing (HB_Closing e) = True"
| "is_closing _ = False"

definition emits :: "(http_response \<Rightarrow> unit res) \<Rightarrow> agent_settings \<Rightarrow> hb_state \<Rightarrow> reply res \<Rightarrow> hb_state \<Rightarrow> agent_effect list \<Rightarrow> bool" where
  "emits rfs s st r st' m \<longleftrightarrow>
     cleanups m = 0 \<and> listens s m = 0 \<and>
     (in_loop st' \<or> 0 < beats s m \<longrightarrow> in_loop st \<or> (\<exists>k d. st = HB_Registering k d) \<and> registers_with rfs r) \<and>
     (in_loop st \<or> 0 < beats s m \<longrightarrow> in_loop st' \<or> client_closed st') \<and>
     (client_closed st \<longrightarrow> client_closed st' \<and> m = []) \<and>
     registrations m + attempts_made st \<le> attempts_made st' \<and> attempts_made st' \<le> 10 \<and>
     closes m = (if is_closing st' \<and> \<not> client_closed st then 1 else 0) \<and>
     (is_closing st' \<and> client_closed st \<longrightarrow> is_closing st) \<and>
     (client_closed st' \<and> \<not> is_closing st' \<longrightarrow> m = [] \<and> (st = HB_New \<or> client_closed st))"

definition step_emits :: "(http_response \<Rightarrow> unit res) \<Rightarrow> agent_settings \<Rightarrow> hb_state \<Rightarrow> reply res
    \<Rightarrow> hb_state \<times> agent_effect list \<Rightarrow> agent_effect list \<Rightarrow> bool" where
  "step_emits rfs s st r c t \<longleftrightarrow> (\<exists>m. snd c = t @ m \<and> emits rfs s st r (fst c) m)"

lemma counted_success [simp]:
  "registrations [Heartbeats_Inc x] = 0" "beats s [Heartbeats_Inc x] = 0" "closes [Heartbeats_Inc x] = 0"
  "cleanups [Heartbeats_Inc x] = 0" "listens s [Heartbeats_Inc x] = 0"
  by (simp_all add: counted listening_def)

lemma ended_emits:
  "step_emits rfs s HB_New r (HB_Ended e, t) t" "step_emits rfs s (HB_Closing e') r (HB_Ended e, t) t"
  by (simp_all add: step_emits_def emits_def)

lemma attempt_failed_emits:
  obtains m where "snd (attempt_failed k d e t) = t @ m"
    "cleanups m = 0" "listens s m = 0" "beats s m = 0" "registrations m = 0"
    "closes m = (if is_closing (fst (attempt_failed k d e t)) then 1 else 0)"
    "fst (attempt_failed k d e t) = HB_Backing_Off k d \<or> fst (attempt_failed k d e t) = HB_Closing e"
proof (cases "is_HTTPError e")
  case True
  then show thesis
    by (intro that [of "[Agent_Log ''heartbeat'' Warning ''register_failed''
          [(''attempt'', PInt (int k)), (''error'', PStr (str_exc e))], Sleep d]"])
       (simp_all add: attempt_failed_def counted listening_def)
next
  case False
  then show thesis
    by (intro that [of "[Client_Close]"]) (simp_all add: attempt_failed_def leave_def counted listening_def)
qed

lemma begin_attempt_emits:
  assumes "attempts_made st < k" and "k \<le> 10" and "\<not> client_closed st" and "\<not> in_loop st"
  shows "step_emits rfs s st r (begin_attempt s x k d t) t"
proof -
  obtain m where m: "snd (register_begins s (sock_name x) t) = t @ m" "beats s m = 0" "closes m = 0" "cleanups m = 0" "listens s m = 0"
    "registrations m = (if is_ok (fst (register_begins s (sock_name x) t)) then 1 else 0)"
    by (rule registers_emits)
  show ?thesis
  proof (cases "register_begins s (sock_name x) t")
    case (Pair q t')
    show ?thesis
    proof (cases q)
      case (Ok u)
      then show ?thesis
        using Pair m assms by (simp add: step_emits_def begin_attempt_def emits_def)
    next
      case (Raise e)
      obtain n where n: "snd (attempt_failed k d e t') = t' @ n"
        "cleanups n = 0" "listens s n = 0" "beats s n = 0" "registrations n = 0"
        "closes n = (if is_closing (fst (attempt_failed k d e t')) then 1 else 0)"
        "fst (attempt_failed k d e t') = HB_Backing_Off k d \<or> fst (attempt_failed k d e t') = HB_Closing e"
        by (rule attempt_failed_emits [of k d e t' s]) blast
      have "t' = t @ m" using m(1) Pair by simp
      with n m Pair Raise assms have "snd (attempt_failed k d e t') = t @ m @ n \<and>
          emits rfs s st r (fst (attempt_failed k d e t')) (m @ n)"
        by (elim disjE) (simp_all add: emits_def)
      then have "step_emits rfs s st r (attempt_failed k d e t') t" unfolding step_emits_def by blast
      then show ?thesis using Pair Raise by (simp add: begin_attempt_def)
    qed
  qed
qed

lemma leave_emits: "attempts_made st \<le> 10 \<Longrightarrow> \<not> client_closed st \<Longrightarrow> step_emits rfs s st r (leave e t) t"
  by (simp add: step_emits_def emits_def leave_def counted listening_def)

lemma failed_attempt_emits:
  assumes "k \<le> 10"
  shows "step_emits rfs s (HB_Registering k d) r (attempt_failed k d e t) t"
proof -
  obtain n where n: "snd (attempt_failed k d e t) = t @ n"
    "cleanups n = 0" "listens s n = 0" "beats s n = 0" "registrations n = 0"
    "closes n = (if is_closing (fst (attempt_failed k d e t)) then 1 else 0)"
    "fst (attempt_failed k d e t) = HB_Backing_Off k d \<or> fst (attempt_failed k d e t) = HB_Closing e"
    by (rule attempt_failed_emits [of k d e t s]) blast
  then show ?thesis using assms
    unfolding step_emits_def by (intro exI [of _ n]) (elim disjE; simp add: emits_def)
qed

lemma in_loop_attempts: "in_loop st \<Longrightarrow> attempts_made st = 10 \<and> \<not> client_closed st"
  by (cases st) auto

lemma begin_beat_emits:
  assumes "snd c = t @ m" "beats s m = 0" "closes m = 0" "cleanups m = 0" "listens s m = 0" "registrations m = 0"
    and "in_loop st \<or> (\<exists>k d. st = HB_Registering k d) \<and> registers_with rfs r" and "attempts_made st \<le> 10"
  shows "step_emits rfs s st r (begin_beat s (snd c)) t"
proof -
  have "emits rfs s st r HB_Beating (m @ [Post (heartbeat_path s) []])"
    using assms in_loop_attempts [of st] by (auto simp: emits_def counted listening_def)
  then show ?thesis using assms(1) by (auto simp: step_emits_def begin_beat_def)
qed

lemma begin_pause_emits:
  assumes "in_loop st" and "beats s m = 0" "closes m = 0" "cleanups m = 0" "listens s m = 0" "registrations m = 0"
  shows "step_emits rfs s st r (begin_pause s x (t @ m)) t"
proof -
  have "emits rfs s st r HB_Pausing (m @ [Sleep (of_int (heartbeat_interval s) + jitter_draw x)])"
    using assms in_loop_attempts [of st] by (auto simp: emits_def counted listening_def)
  then show ?thesis by (auto simp: step_emits_def begin_pause_def)
qed

lemma stays_emits: "attempts_made st \<le> 10 \<Longrightarrow> step_emits rfs s st r (st, t) t"
  by (cases st) (simp_all add: step_emits_def emits_def)

lemma beat_failed_emits: "in_loop st \<Longrightarrow> step_emits rfs s st r (beat_failed s x e t) t"
  unfolding beat_failed_def using in_loop_attempts [of st]
  by (auto intro!: begin_pause_emits leave_emits simp: counted listening_def)

lemma hb_step_emits:
  assumes "attempts_made st \<le> 10"
  shows "step_emits rfs s st r (hb_step rfs s x st r t) t"
proof (cases "(rfs, s, x, st, r, t)" rule: hb_step.cases)
  case (3 rfs' s' x' k d h t')
  obtain m where m: "snd (register_ends rfs s h t) = t @ m" "beats s m = 0" "closes m = 0" "cleanups m = 0" "listens s m = 0"
    "registrations m = 0" by (rule register_ends_emits)
  obtain q t1 where q: "register_ends rfs s h t = (q, t1)" by fastforce
  have v: "q = register_value rfs h" using register_ends_fst [of rfs s h t] q by simp
  show ?thesis
  proof (cases q)
    case (Ok b)
    then have "is_ok (register_value rfs h)" using v by simp
    have "step_emits rfs s st r (begin_beat s (snd (q, t1 @ [loop_starting s]))) t"
      by (rule begin_beat_emits [of _ _ "m @ [loop_starting s]"])
         (use \<open>is_ok (register_value rfs h)\<close> 3 assms m q in \<open>auto simp: counted listening_def loop_starting_def\<close>)
    then show ?thesis using 3 q Ok by simp
  next
    case (Raise e)
    obtain n where n: "snd (attempt_failed k d e t1) = t1 @ n"
      "cleanups n = 0" "listens s n = 0" "beats s n = 0" "registrations n = 0"
      "closes n = (if is_closing (fst (attempt_failed k d e t1)) then 1 else 0)"
      "fst (attempt_failed k d e t1) = HB_Backing_Off k d \<or> fst (attempt_failed k d e t1) = HB_Closing e"
      by (rule attempt_failed_emits [of k d e t1 s]) blast
    have "step_emits rfs s st r (attempt_failed k d e t1) t"
      unfolding step_emits_def
      by (rule exI [of _ "m @ n"], rule disjE [OF n(7)]) (use 3 n m q assms in \<open>simp_all add: emits_def\<close>)
    then show ?thesis using 3 q Raise by simp
  qed
next
  case (9 rfs' s' x' t')
  have "step_emits rfs s st r (begin_beat s (snd ((), t))) t"
    by (rule begin_beat_emits [of _ _ "[]"]) (use 9 in simp_all)
  then show ?thesis using 9 by simp
qed (use assms in \<open>auto intro!: begin_attempt_emits leave_emits begin_pause_emits beat_failed_emits stays_emits
  failed_attempt_emits ended_emits simp: split: res.splits\<close>)

section \<open>The trace of the process\<close>

definition hb_trace :: "(http_response \<Rightarrow> unit res) \<Rightarrow> agent_settings \<Rightarrow> loop_event list \<Rightarrow> hb_state \<Rightarrow> agent_effect list \<Rightarrow> bool" where
  "hb_trace rfs s es st l \<longleftrightarrow>
     registrations l \<le> attempts_made st \<and> attempts_made st \<le> 10 \<and>
     (in_loop st \<or> 0 < beats s l \<longrightarrow> (\<exists>r. Completes Heartbeat_Task r \<in> set es \<and> registers_with rfs r)) \<and>
     (0 < beats s l \<longrightarrow> in_loop st \<or> client_closed st) \<and>
     (\<not> client_closed st \<longrightarrow> closes l = 0) \<and> (is_closing st \<longrightarrow> closes l = 1) \<and>
     (client_closed st \<longrightarrow> closes l = 1 \<or> closes l = 0 \<and> registrations l = 0 \<and> beats s l = 0)"

fun ms_trace :: "agent_settings \<Rightarrow> ms_state \<Rightarrow> agent_effect list \<Rightarrow> bool" where
  "ms_trace s MS_Serving l \<longleftrightarrow> listens s l = 1 \<and> cleanups l = 0"
| "ms_trace s (MS_Cleaning q) l \<longleftrightarrow> listens s l = 1 \<and> cleanups l = 1"
| "ms_trace s (MS_Ended q) l \<longleftrightarrow> cleanups l = listens s l \<and> listens s l \<le> 1"
| "ms_trace s _ l \<longleftrightarrow> listens s l = 0 \<and> cleanups l = 0"

definition trace_ok :: "(http_response \<Rightarrow> unit res) \<Rightarrow> agent_settings \<Rightarrow> agent_effect list \<Rightarrow> loop_event list \<Rightarrow> process \<Rightarrow> bool" where
  "trace_ok rfs s t es p \<longleftrightarrow>
     (\<exists>l. performed p = t @ l \<and> hb_trace rfs s es (heartbeat_task p) l \<and> ms_trace s (metrics_task p) l) \<and>
     (\<forall>r. Step Heartbeat_Task r \<in> set (ready p) \<and> registers_with rfs r \<longrightarrow> Completes Heartbeat_Task r \<in> set es)"

lemma hb_traceD:
  assumes "hb_trace rfs s es st l"
  shows "registrations l \<le> attempts_made st" "attempts_made st \<le> 10"
    "in_loop st \<or> 0 < beats s l \<Longrightarrow> \<exists>r. Completes Heartbeat_Task r \<in> set es \<and> registers_with rfs r"
    "0 < beats s l \<Longrightarrow> in_loop st \<or> client_closed st"
    "\<not> client_closed st \<Longrightarrow> closes l = 0" "is_closing st \<Longrightarrow> closes l = 1"
    "client_closed st \<Longrightarrow> closes l = 1 \<or> closes l = 0 \<and> registrations l = 0 \<and> beats s l = 0"
  using assms by (simp_all only: hb_trace_def) blast+

lemma emitsD:
  assumes "emits rfs s st r st' m"
  shows "in_loop st' \<or> 0 < beats s m \<Longrightarrow> in_loop st \<or> (\<exists>k d. st = HB_Registering k d) \<and> registers_with rfs r"
    "in_loop st \<or> 0 < beats s m \<Longrightarrow> in_loop st' \<or> client_closed st'"
    "client_closed st \<Longrightarrow> client_closed st' \<and> m = []"
    "registrations m + attempts_made st \<le> attempts_made st'" "attempts_made st' \<le> 10"
    "closes m = (if is_closing st' \<and> \<not> client_closed st then 1 else 0)"
    "is_closing st' \<Longrightarrow> client_closed st \<Longrightarrow> is_closing st"
    "client_closed st' \<Longrightarrow> \<not> is_closing st' \<Longrightarrow> m = [] \<and> (st = HB_New \<or> client_closed st)"
    "cleanups m = 0" "listens s m = 0"
  using assms by (simp_all only: emits_def) blast+

lemma hb_trace_emits:
  assumes "hb_trace rfs s es st l" and "emits rfs s st r st' m"
    and "registers_with rfs r \<longrightarrow> Completes Heartbeat_Task r \<in> set es"
  shows "hb_trace rfs s es st' (l @ m)"
proof -
  note l = hb_traceD [OF assms(1)] and m = emitsD [OF assms(2)]
  have "\<exists>r. Completes Heartbeat_Task r \<in> set es \<and> registers_with rfs r" if "in_loop st' \<or> 0 < beats s (l @ m)"
    using that l(3) m(1) assms(3) by (cases "0 < beats s l") auto
  moreover have "in_loop st' \<or> client_closed st'" if "0 < beats s (l @ m)"
    using that l(4) m(2,3) by (cases "0 < beats s l") auto
  moreover have "closes (l @ m) = 0" if "\<not> client_closed st'"
    using that l(5) m(3,6) by (cases st') auto
  moreover have k: "closes (l @ m) = 1" if "is_closing st'"
    using that l(5,6) m(3,6,7) by (cases "client_closed st") auto
  moreover have "closes (l @ m) = 1 \<or> closes (l @ m) = 0 \<and> registrations (l @ m) = 0 \<and> beats s (l @ m) = 0"
    if "client_closed st'"
  proof (cases "is_closing st'")
    case False
    then have "m = []" "st = HB_New \<or> client_closed st" using m(8) that by blast+
    then show ?thesis using l(1,4,5,7) by (elim disjE) auto
  qed (use k in blast)
  moreover have "registrations (l @ m) \<le> attempts_made st'" "attempts_made st' \<le> 10" using l(1) m(4,5) by auto
  ultimately show ?thesis unfolding hb_trace_def by blast
qed

lemma hb_trace_same:
  assumes "hb_trace rfs s es st l" and "registrations m = 0" "beats s m = 0" "closes m = 0"
  shows "hb_trace rfs s es st (l @ m)"
  using assms by (simp add: hb_trace_def)

lemma ms_trace_same: "ms_trace s st l \<Longrightarrow> listens s m = 0 \<Longrightarrow> cleanups m = 0 \<Longrightarrow> ms_trace s st (l @ m)"
  by (cases st) simp_all

lemma hb_trace_later: "hb_trace rfs s es st l \<Longrightarrow> hb_trace rfs s (es @ es') st l"
  by (auto simp: hb_trace_def)

lemma ms_step_emits:
  assumes "ms_trace s st l"
  obtains m where "snd (ms_step s x stop st r (t @ l)) = t @ l @ m" and "ms_trace s (fst (ms_step s x stop st r (t @ l))) (l @ m)"
    and "registrations m = 0" "beats s m = 0" "closes m = 0"
proof -
  have c: "registrations [listening s] = 0" "beats s [listening s] = 0" "closes [listening s] = 0" "cleanups [listening s] = 0"
    "listens s [listening s] = 1" "registrations [Runner_Cleanup] = 0" "beats s [Runner_Cleanup] = 0" "closes [Runner_Cleanup] = 0"
    "cleanups [Runner_Cleanup] = 1" "listens s [Runner_Cleanup] = 0"
    by (simp_all add: counted listening_def)
  then have c2: "registrations [listening s, Runner_Cleanup] = 0" "beats s [listening s, Runner_Cleanup] = 0"
    "closes [listening s, Runner_Cleanup] = 0" "cleanups [listening s, Runner_Cleanup] = 1" "listens s [listening s, Runner_Cleanup] = 1"
    by (simp_all add: counted listening_def)
  have "\<exists>m \<in> {[], [listening s], [Runner_Cleanup], [listening s, Runner_Cleanup]}.
      snd (ms_step s x stop st r (t @ l)) = t @ l @ m \<and> ms_trace s (fst (ms_step s x stop st r (t @ l))) (l @ m)"
    using assms c c2
    by (cases "(s, x, stop, st, r, t @ l)" rule: ms_step.cases) (auto simp: clean_up_def split: res.splits)
  with c c2 show thesis by (auto intro: that)
qed

text \<open>What \<open>main\<close> logs.\<close>

lemma after_wait_emits:
  obtains m where "snd (after_wait ds t) = t @ m" "registrations m = 0" "beats s m = 0" "closes m = 0" "cleanups m = 0" "listens s m = 0"
proof -
  have "\<exists>m. snd (surface ds t) = t @ m \<and> set m \<subseteq> range (Agent_Log ''main'' Error ''task_crashed'')" for ds
    by (induction ds arbitrary: t rule: surface.induct) (auto simp: act_simps split: res.splits)
  then have "\<exists>m. snd (after_wait ds t) = t @ m \<and>
      set m \<subseteq> range (Agent_Log ''main'' Error ''task_crashed'') \<union> range (Agent_Log ''main'' Info ''agent_stopped'')"
    by (auto simp: after_wait_def act_simps) blast
  then obtain m where m: "snd (after_wait ds t) = t @ m"
      "set m \<subseteq> range (Agent_Log ''main'' Error ''task_crashed'') \<union> range (Agent_Log ''main'' Info ''agent_stopped'')" by blast
  then have "e \<noteq> Client_Close \<and> e \<noteq> Runner_Cleanup \<and> e \<noteq> listening s \<and> (\<nexists>p b. e = Post p b)" if "e \<in> set m" for e
    using that by (auto simp: listening_def)
  then show thesis by (intro that [OF m(1)]) (auto simp: counted filter_empty_conv posts_to_iff)
qed

lemma trace_ok_same:
  assumes "trace_ok rfs s t es p"
    and "heartbeat_task q = heartbeat_task p" "metrics_task q = metrics_task p" "performed q = performed p"
    and "\<And>r. Step Heartbeat_Task r \<in> set (ready q) \<Longrightarrow> registers_with rfs r \<Longrightarrow>
      Step Heartbeat_Task r \<in> set (ready p) \<or> Completes Heartbeat_Task r \<in> set es'"
  shows "trace_ok rfs s t (es @ es') q"
  using assms hb_trace_later [of rfs s es "heartbeat_task p" _ es'] by (fastforce simp: trace_ok_def)

lemma trace_ok_finish:
  assumes "trace_ok rfs s t es p"
  shows "trace_ok rfs s t es (finish ds p)"
proof -
  obtain l where l: "performed p = t @ l" "hb_trace rfs s es (heartbeat_task p) l" "ms_trace s (metrics_task p) l"
    using assms by (auto simp: trace_ok_def)
  obtain m where "snd (after_wait ds (t @ l)) = (t @ l) @ m" "registrations m = 0" "beats s m = 0" "closes m = 0" "cleanups m = 0" "listens s m = 0"
    by (rule after_wait_emits)
  then have "performed (finish ds p) = t @ l @ m \<and> hb_trace rfs s es (heartbeat_task p) (l @ m) \<and> ms_trace s (metrics_task p) (l @ m)"
    using l by (simp add: loop_simps hb_trace_same ms_trace_same)
  then show ?thesis using assms by (auto simp: trace_ok_def loop_simps)
qed

lemma trace_ok_tell: "trace_ok rfs s t es p \<Longrightarrow> trace_ok rfs s t es (schedule (tell q) p)"
  by (auto simp: trace_ok_def loop_simps tell_def split: main_state.splits)

lemma trace_ok_advance:
  assumes "trace_ok rfs s t es p" and "k = Heartbeat_Task \<Longrightarrow> registers_with rfs r \<Longrightarrow> Completes Heartbeat_Task r \<in> set es"
  shows "trace_ok rfs s t es (advance rfs s x k r p)"
proof -
  obtain l where l: "performed p = t @ l" "hb_trace rfs s es (heartbeat_task p) l" "ms_trace s (metrics_task p) l"
    using assms by (auto simp: trace_ok_def)
  have q: "ready (advance rfs s x k r p) = ready p" by (simp add: loop_simps)
  have "\<exists>m. performed (advance rfs s x k r p) = t @ l @ m \<and> hb_trace rfs s es (heartbeat_task (advance rfs s x k r p)) (l @ m) \<and>
      ms_trace s (metrics_task (advance rfs s x k r p)) (l @ m)"
  proof (cases k)
    case Heartbeat_Task
    obtain m where m: "snd (hb_step rfs s x (heartbeat_task p) r (t @ l)) = (t @ l) @ m"
      "emits rfs s (heartbeat_task p) r (fst (hb_step rfs s x (heartbeat_task p) r (t @ l))) m"
      using hb_step_emits [OF hb_traceD(2) [OF l(2)], of rfs s r x "t @ l"] by (auto simp: step_emits_def)
    have "hb_trace rfs s es (fst (hb_step rfs s x (heartbeat_task p) r (t @ l))) (l @ m)"
      by (rule hb_trace_emits [OF l(2) m(2)]) (use assms(2) Heartbeat_Task in simp)
    then show ?thesis
      using m Heartbeat_Task l emitsD(9,10) [OF m(2)]
      by (intro exI [of _ m]) (auto simp: advance_def ms_trace_same split: prod.splits)
  next
    case Metrics_Task
    obtain m where m: "snd (ms_step s x (stop_set p) (metrics_task p) r (t @ l)) = t @ l @ m"
      "ms_trace s (fst (ms_step s x (stop_set p) (metrics_task p) r (t @ l))) (l @ m)"
      "registrations m = 0" "beats s m = 0" "closes m = 0"
      by (rule ms_step_emits [OF l(3)])
    then show ?thesis
      using Metrics_Task l
      by (intro exI [of _ m]) (auto simp: advance_def hb_trace_same split: prod.splits)
  next
    case Stopper
    then show ?thesis using l by (intro exI [of _ "[]"]) (simp add: advance_def Let_def)
  qed
  then show ?thesis using assms(1) q by (auto simp: trace_ok_def)
qed

lemma trace_ok_event:
  assumes "trace_ok rfs s t es p"
  shows "trace_ok rfs s t (es @ [e]) (process_step rfs s order e p)"
proof (cases e)
  case Signal
  then show ?thesis by (intro trace_ok_same [OF assms]) (auto simp: loop_simps split: if_splits)
next
  case (Completes k r)
  then show ?thesis by (intro trace_ok_same [OF assms]) (auto simp: loop_simps split: if_splits)
next
  case (Turn x)
  have a: "trace_ok rfs s t (es @ [e]) p" by (rule trace_ok_same [OF assms]) simp_all
  show ?thesis
    unfolding Turn
  proof (rule process_turn [where P = "trace_ok rfs s t (es @ [Turn x])", OF a [unfolded Turn]])
    fix c cs
    assume r: "ready p = c # cs"
    let ?p = "p\<lparr>ready := cs\<rparr>"
    have p: "trace_ok rfs s t (es @ [Turn x]) ?p" by (rule trace_ok_same [OF assms]) (use r in auto)
    have same: "trace_ok rfs s t (es @ [Turn x]) q"
      if "heartbeat_task q = heartbeat_task ?p" "metrics_task q = metrics_task ?p" "performed q = performed ?p"
        "\<And>r. Step Heartbeat_Task r \<in> set (ready q) \<Longrightarrow> registers_with rfs r \<Longrightarrow> Step Heartbeat_Task r \<in> set (ready ?p)" for q
      using trace_ok_same [OF p that(1-3), of "[]"] that(4) by auto
    have ct: "Step Heartbeat_Task v \<in> set (ready (fold cancel ks ?p)) \<Longrightarrow> registers_with rfs v \<Longrightarrow> Step Heartbeat_Task v \<in> set (ready ?p)" for v ks
      using cancels_steps [of Heartbeat_Task v ks ?p] by auto
    show "trace_ok rfs s t (es @ [Turn x]) (run_callback rfs s order x c ?p)"
    proof (cases c)
      case (Step k v)
      let ?q = "p\<lparr>ready := cs, must_cancel := must_cancel p - {k}\<rparr>"
      have "trace_ok rfs s t (es @ [Turn x]) ?q" by (rule same) simp_all
      then have "trace_ok rfs s t (es @ [Turn x]) (advance rfs s x k (if k \<in> must_cancel p then Raise CancelledError else v) ?q)"
        by (rule trace_ok_advance) (use assms r Step in \<open>auto simp: trace_ok_def split: if_splits\<close>)
      then show ?thesis
        using Step by (auto simp: step_task_def Let_def intro: trace_ok_tell)
    next
      case On_Completion
      then show ?thesis by (auto simp: on_completion_def loop_simps intro!: same)
    next
      case On_Child
      then show ?thesis by (auto simp: on_child_def loop_simps split: main_state.splits intro!: same)
    next
      case Main_Step
      have f: "trace_ok rfs s t (es @ [Turn x]) (fold cancel ks ?p)" for ks
        by (rule same) (use ct in \<open>simp_all add: loop_simps\<close>)
      have m: "trace_ok rfs s t (es @ [Turn x]) (q\<lparr>main_at := n\<rparr>)" if "trace_ok rfs s t (es @ [Turn x]) q" for q n
        using that by (simp add: trace_ok_def)
      show ?thesis
        using Main_Step p f m
        by (auto simp: main_step_def wait_returns_def Let_def split: main_state.splits intro!: trace_ok_finish)
    qed
  qed
qed

lemma trace_ok_run: "trace_ok rfs s t es (process_run rfs s order es (process_start t))"
proof (induction es rule: rev_induct)
  case Nil
  show ?case by (simp add: trace_ok_def process_start_def hb_trace_def)
next
  case (snoc e es)
  have "process_run rfs s order (es @ [e]) (process_start t) = process_step rfs s order e (process_run rfs s order es (process_start t))"
    by (induction es arbitrary: t) (simp_all add: process_run_append)
  then show ?case using trace_ok_event [OF snoc] by simp
qed

end
