(* ===== verification/Process_Properties.thy ===== *)
theory Process_Properties
  imports Agent_Effects
begin

text \<open>
  The properties of the agent's process: its three tasks on the event loop, under every schedule of
  signals, ended calls and turns, and every order in which its sets of tasks are iterated.
\<close>

text \<open>A quiet environment and answers for the schedules of the witnesses.\<close>

definition lab_outside :: outside where
  "lab_outside = \<lparr>new_client = Ok \<lparr>base_url = ''https://controller'', timeout_seconds = 10, connect_seconds = 5, user_agent = ''agent''\<rparr>,
     sock_name = Ok ''10.50.20.11'', jitter_draw = 3, tls_context = Raise (OtherException ''SSLError'')\<rparr>"

definition lab_turns :: "nat \<Rightarrow> loop_event list" where
  "lab_turns n = replicate n (Turn lab_outside)"

definition created :: loop_event where
  "created = Completes Heartbeat_Task (Ok (Answered \<lparr>status_code = 201, json = Ok PNone\<rparr>))"

section \<open>The heartbeat task\<close>

text \<open>
  C35: The heartbeat task, resumed \<open>await\<close> by \<open>await\<close> on what its calls give, does what \<open>run\<close> does in
  one go: the same requests, sleeps, counts and log lines in the same order, the same exception.
\<close>
theorem heartbeat_task_is_run_heartbeat:
  assumes "\<forall>j \<in> {1..10}. socket_answers (udp (env j))"
  shows "hb_run rfs s (heartbeat_feed rfs (Ok c) env bs) (HB_New, t) =
    (case run_heartbeat rfs (Ok c) s env bs t of
       (Ok _, t') \<Rightarrow> begin_beat s t'
     | (Raise e, t') \<Rightarrow> (HB_Closing e, t'))"
  by (rule hb_run_is_run_heartbeat [OF assms])


definition refused_attempt :: attempt where
  "refused_attempt = \<lparr>udp = Ok ''10.50.20.11'', answer = Raise (ValueError ''no JSON''), nap = Ok ()\<rparr>"

theorem heartbeat_task_is_run_heartbeat_witness:
  "fst (hb_run status_check agent_defaults
     (heartbeat_feed status_check (new_client lab_outside) (\<lambda>_. refused_attempt) []) (HB_New, [])) = HB_Closing (ValueError ''no JSON'')"
proof -
  obtain c where c: "new_client lab_outside = Ok c" by (simp add: lab_outside_def)
  have "fst (run_heartbeat status_check (new_client lab_outside) agent_defaults (\<lambda>_. refused_attempt) [] []) = Raise (ValueError ''no JSON'')"
    by code_simp
  then have "fst (run_heartbeat status_check (Ok c) agent_defaults (\<lambda>_. refused_attempt) [] []) = Raise (ValueError ''no JSON'')"
    by (simp only: c)
  then show ?thesis
    using heartbeat_task_is_run_heartbeat [of "\<lambda>_. refused_attempt" status_check agent_defaults c "[]" "[]"]
    unfolding c by (auto simp: socket_answers_def refused_attempt_def split: prod.splits)
qed

text \<open>
  C13: The agent does not beat before it is known to the controller: whenever it has posted a heartbeat,
  a registration of its has been answered by 201, 409 or another success; and whether it ever registers
  or not, it sends ten registrations at most.
\<close>
theorem no_beat_before_registration:
  assumes "performed (process_run rfs s order es (process_start t)) = t @ l"
  shows "registrations l \<le> 10 \<and>
    (Post (heartbeat_path s) b \<in> set l \<longrightarrow>
      (\<exists>r. Completes Heartbeat_Task (Ok (Answered r)) \<in> set es \<and> is_ok (register_value rfs r)))"
proof -
  have h: "hb_trace rfs s es (heartbeat_task (process_run rfs s order es (process_start t))) l"
    using trace_ok_run [of rfs s t es order] assms(1) by (auto simp: trace_ok_def)
  have "\<exists>r. Completes Heartbeat_Task (Ok (Answered r)) \<in> set es \<and> is_ok (register_value rfs r)"
    if "Post (heartbeat_path s) b \<in> set l"
  proof -
    have "0 < beats s l" using that beats_pos by blast
    then obtain r where "Completes Heartbeat_Task r \<in> set es" "registers_with rfs r" using hb_traceD(3) [OF h] by blast
    then show ?thesis by (cases r rule: may_wake.cases) auto
  qed
  moreover have "registrations l \<le> 10" using hb_traceD(1,2) [OF h] by linarith
  ultimately show ?thesis by blast
qed

theorem no_beat_before_registration_witness:
  "registrations (performed (process_run status_check agent_defaults all_tasks (lab_turns 3) (process_start []))) \<le> 10 \<and>
   (\<exists>r. Completes Heartbeat_Task (Ok (Answered r)) \<in> set (lab_turns 3 @ created # lab_turns 1) \<and> is_ok (register_value status_check r)) \<and>
   beats agent_defaults (performed (process_run status_check agent_defaults all_tasks (lab_turns 3 @ created # lab_turns 1) (process_start []))) = 1"
proof -
  let ?l = "performed (process_run status_check agent_defaults all_tasks (lab_turns 3 @ created # lab_turns 1) (process_start []))"
  have "beats agent_defaults ?l = 1" by code_simp
  moreover from this obtain b where "Post (heartbeat_path agent_defaults) b \<in> set ?l"
    using beats_pos [of agent_defaults ?l] by auto
  ultimately show ?thesis
    using no_beat_before_registration [of status_check agent_defaults all_tasks "lab_turns 3 @ created # lab_turns 1" "[]" ?l]
      no_beat_before_registration [of status_check agent_defaults all_tasks "lab_turns 3" "[]"
        "performed (process_run status_check agent_defaults all_tasks (lab_turns 3) (process_start []))"] by auto
qed

text \<open>
  A heartbeat answered by a success without a JSON body ends the loop, and so the process: the
  \<open>ValueError\<close> of the decoder is no \<open>HTTPError\<close>.
\<close>

lemma beat_without_json_ends_the_task:
  assumes "rfs r = Ok ()" and "json r = Raise (ValueError m)"
  shows "hb_step rfs s x HB_Beating (Ok (Answered r)) t = (HB_Closing (ValueError m), t @ [Client_Close])"
  using assms by (simp add: heartbeat_ends_def beat_failed_def leave_def)

section \<open>The end of the process\<close>

text \<open>
  C12: A signal stops the agent. If no task had ended when it came, then whatever the schedule: fewer
  than eighty events change the process after it; until \<open>main\<close> has ended every turn of the loop changes
  it, or a task is closing what it holds and the end of that call changes it; and when \<open>main\<close> has ended,
  it has returned, after the log line of a stop by signal.
\<close>
theorem signal_stops_the_agent:
  assumes "set order = UNIV" and "distinct order"
    and "p = process_run rfs s order es (process_start t)" and "\<And>k. outcome p k = None"
    and "q = process_run rfs s order es' (process_step rfs s order Signal p)"
  shows "moves rfs s order es' (process_step rfs s order Signal p) < 80 \<and>
    (if main_ended (main_at q) then main_at q = M_Ended (Ok ()) \<and> (\<exists>t. performed q = t @ [stopped])
     else (\<forall>x. process_step rfs s order (Turn x) q \<noteq> q) \<or>
       (\<exists>k. closing q k \<and> (\<forall>r. may_wake r \<longrightarrow> process_step rfs s order (Completes k r) q \<noteq> q)))"
  using signal_stops [OF assms] by simp

definition shutdown :: "loop_event list" where
  "shutdown = lab_turns 6 @ Completes Heartbeat_Task (Ok Woken) # lab_turns 3"

theorem signal_stops_the_agent_witness:
  "main_at (process_run status_check agent_defaults all_tasks (lab_turns 3 @ Signal # shutdown) (process_start [])) = M_Ended (Ok ())"
proof -
  let ?p = "process_run status_check agent_defaults all_tasks (lab_turns 3) (process_start [])"
  have "outcome ?p Heartbeat_Task = None" "outcome ?p Metrics_Task = None" "outcome ?p Stopper = None" by code_simp+
  then have o: "outcome ?p k = None" for k by (cases k) (simp_all only:)
  have "main_ended (main_at (process_run status_check agent_defaults all_tasks shutdown
      (process_step status_check agent_defaults all_tasks Signal ?p)))" by code_simp
  then show ?thesis
    using signal_stops_the_agent [OF all_tasks(1,2) refl o refl, of shutdown]
    by (simp only: process_run_append process_run.simps if_True)
qed

text \<open>
  C34: The agent ends with success only after a signal: without one \<open>main\<close> ends, if it does, with the
  exception of a worker that crashed, which it raises again. In every case all three tasks have ended
  before it does.
\<close>
theorem crash_is_surfaced:
  assumes "set order = UNIV" and "distinct order"
    and "main_at (process_run rfs s order es (process_start t)) = M_Ended q"
  shows "(case q of
      Ok _ \<Rightarrow> Signal \<in> set es
    | Raise e \<Rightarrow> \<exists>k. k \<noteq> Stopper \<and> outcome (process_run rfs s order es (process_start t)) k = Some (Raise e)) \<and>
    (\<forall>k. outcome (process_run rfs s order es (process_start t)) k \<noteq> None)"
  using ended_by [OF assms] by (cases q) auto

definition broken_outside :: outside where
  "broken_outside = lab_outside\<lparr>new_client := Raise (OtherException ''SSLError'')\<rparr>"

theorem crash_is_surfaced_witness:
  "\<exists>k. k \<noteq> Stopper \<and> outcome (process_run status_check agent_defaults all_tasks (replicate 10 (Turn broken_outside)) (process_start [])) k =
    Some (Raise (OtherException ''SSLError''))"
proof -
  have "main_at (process_run status_check agent_defaults all_tasks (replicate 10 (Turn broken_outside)) (process_start [])) =
      M_Ended (Raise (OtherException ''SSLError''))" by code_simp
  from crash_is_surfaced [OF all_tasks(1,2) this] show ?thesis by simp
qed

text \<open>
  A crash that ends its task after the signal came, but before \<open>wait\<close> returns, is not surfaced: the
  stopper is among the tasks that are done, and \<open>main\<close> returns before it looks at the others.
\<close>

definition crash_and_signal :: "loop_event list" where
  "crash_and_signal = lab_turns 3 @ [Completes Heartbeat_Task (Raise (ValueError ''no JSON''))] @ lab_turns 1 @
     [Completes Heartbeat_Task (Ok Woken), Signal] @ lab_turns 10"

lemma crash_with_a_signal_is_dropped:
  "let p = process_run status_check agent_defaults all_tasks crash_and_signal (process_start [])
   in main_at p = M_Ended (Ok ()) \<and> outcome p Heartbeat_Task = Some (Raise (ValueError ''no JSON''))"
  by code_simp

text \<open>
  C36: The agent leaves nothing open: when \<open>main\<close> has ended, the metrics server that listened has been
  cleaned up, once, and the client that sent a request has been closed, once.
\<close>
theorem process_leaves_nothing_open:
  assumes "set order = UNIV" and "distinct order"
    and "main_ended (main_at (process_run rfs s order es (process_start t)))"
    and "performed (process_run rfs s order es (process_start t)) = t @ l"
  shows "cleanups l = listens s l \<and> listens s l \<le> 1 \<and> (if registrations l + beats s l = 0 then closes l \<le> 1 else closes l = 1)"
proof -
  let ?p = "process_run rfs s order es (process_start t)"
  obtain q where "main_at ?p = M_Ended q" using assms(3) by (cases "main_at ?p") auto
  then have e: "outcome ?p k \<noteq> None" for k by (rule ended_by(3) [OF assms(1,2)])
  have h: "hb_trace rfs s es (heartbeat_task ?p) l" and m: "ms_trace s (metrics_task ?p) l"
    using trace_ok_run [of rfs s t es order] assms(4) by (auto simp: trace_ok_def)
  have "client_closed (heartbeat_task ?p)" using e [of Heartbeat_Task] by (auto split: hb_state.splits)
  moreover have "\<exists>q. metrics_task ?p = MS_Ended q" using e [of Metrics_Task] by (auto split: ms_state.splits)
  ultimately show ?thesis using hb_traceD(7) [OF h] m by auto
qed

theorem process_leaves_nothing_open_witness:
  "closes (performed (process_run status_check agent_defaults all_tasks (lab_turns 3 @ Signal # shutdown) (process_start []))) = 1"
proof -
  let ?p = "process_run status_check agent_defaults all_tasks (lab_turns 3 @ Signal # shutdown) (process_start [])"
  have "main_ended (main_at ?p)" "registrations (performed ?p) = 1" by code_simp+
  from process_leaves_nothing_open [OF all_tasks(1,2) this(1), of "performed ?p"] this(2) show ?thesis by simp
qed

end
