(* ===== verification/Programs.thy ===== *)
theory Programs
  imports Fleet
begin

text \<open>
  A request as the event loop runs it. Every \<open>await\<close> on the session is a point where other requests
  may run: a handler is a program that reads what is committed, reads the clock, and changes what is
  committed in one transaction at most at a time. Rely/guarantee reasoning about such programs is
  the locale \<open>rely_guarantee\<close>: what a program finds may have moved on by the steps of others, and its
  own steps are of its kind.
\<close>

section \<open>Programs\<close>

text \<open>
  \<open>Select\<close> is a query outside of a transaction, answered from what is committed at that moment.
  \<open>Transact\<close> is what lies between the first statement that writes and \<open>commit\<close>: SQLite has one
  writer at a time, so it happens at one moment; it may raise, and then commits nothing.
\<close>

datatype ('d, 'r) prog =
    Finish "'r res"
  | Select "'d \<Rightarrow> ('d, 'r) prog"
  | Clock "int \<Rightarrow> ('d, 'r) prog"
  | Transact "'d \<Rightarrow> 'd res" "('d, 'r) prog"

text \<open>One step, at a time \<open>t\<close>; and a call of the session that raises instead of answering.\<close>

fun prog_step :: "int \<Rightarrow> ('d, 'r) prog \<Rightarrow> 'd \<Rightarrow> ('d, 'r) prog \<times> 'd" where
  "prog_step t (Finish r) d = (Finish r, d)"
| "prog_step t (Select f) d = (f d, d)"
| "prog_step t (Clock f) d = (f t, d)"
| "prog_step t (Transact g p) d =
     (case g d of Ok d' \<Rightarrow> (p, d') | Raise e \<Rightarrow> (Finish (Raise e), d))"

fun prog_break :: "exn \<Rightarrow> ('d, 'r) prog \<Rightarrow> ('d, 'r) prog" where
  "prog_break e (Finish r) = Finish r"
| "prog_break e (Select f) = Finish (Raise e)"
| "prog_break e (Clock f) = Clock f"
| "prog_break e (Transact g p) = Finish (Raise e)"

text \<open>A run that nothing interrupts; \<open>c k\<close> is the \<open>k\<close>-th reading of the clock.\<close>

primrec exec :: "(nat \<Rightarrow> int) \<Rightarrow> ('d, 'r) prog \<Rightarrow> nat \<Rightarrow> 'd \<Rightarrow> 'r res \<times> 'd" where
  "exec c (Finish r) k d = (r, d)"
| "exec c (Select f) k d = exec c (f d) k d"
| "exec c (Clock f) k d = exec c (f (c k)) (Suc k) d"
| "exec c (Transact g p) k d =
     (case g d of Ok d' \<Rightarrow> exec c p k d' | Raise e \<Rightarrow> (Raise e, d))"

text \<open>Only a transaction changes what is committed.\<close>

lemma prog_step_changes:
  "prog_step t p d = (p', d') \<Longrightarrow> d' \<noteq> d \<Longrightarrow> \<exists>g q. p = Transact g q \<and> g d = Ok d'"
  by (cases p) (auto split: res.splits)

text \<open>The steps of a program, taken one after the other, are its uninterrupted run.\<close>

fun after_reading :: "('d, 'r) prog \<Rightarrow> nat \<Rightarrow> nat" where
  "after_reading (Clock f) k = Suc k"
| "after_reading p k = k"

lemma exec_prog_step:
  "exec c p k d = (case prog_step (c k) p d of (p', d') \<Rightarrow> exec c p' (after_reading p k) d')"
  by (cases p) (auto split: res.splits)

section \<open>Rely and guarantee\<close>

text \<open>
  \<open>within L T Q p d\<close>: started at \<open>d\<close> among steps of others that stay in \<open>L\<close>, every commit of \<open>p\<close> is
  in \<open>T\<close>, and its result, if it comes to one, satisfies \<open>Q\<close>.
\<close>

primrec within :: "('d \<Rightarrow> 'd \<Rightarrow> bool) \<Rightarrow> ('d \<Rightarrow> 'd \<Rightarrow> bool) \<Rightarrow> ('r res \<Rightarrow> bool) \<Rightarrow> ('d, 'r) prog \<Rightarrow> 'd \<Rightarrow> bool" where
  "within L T Q (Finish r) d = Q r"
| "within L T Q (Select f) d = (\<forall>d'. L d d' \<longrightarrow> within L T Q (f d') d')"
| "within L T Q (Clock f) d = (\<forall>t. within L T Q (f t) d)"
| "within L T Q (Transact g p) d =
     ((\<forall>e. Q (Raise e)) \<and> (\<forall>d' d''. L d d' \<longrightarrow> g d' = Ok d'' \<longrightarrow> T d' d'' \<and> within L T Q p d''))"

text \<open>What is committed, and the programs that run on it, each with a tag.\<close>

record ('d, 'k, 'r) pool =
  committed :: 'd
  tasks :: "('k \<times> ('d, 'r) prog) list"

definition spawn :: "'k \<Rightarrow> ('d, 'r) prog \<Rightarrow> ('d, 'k, 'r) pool \<Rightarrow> ('d, 'k, 'r) pool" where
  "spawn k p s = s\<lparr>tasks := tasks s @ [(k, p)]\<rparr>"

definition resume :: "nat \<Rightarrow> int \<Rightarrow> ('d, 'k, 'r) pool \<Rightarrow> ('d, 'k, 'r) pool" where
  "resume j t s =
     (if j < length (tasks s)
      then case tasks s ! j of (k, p) \<Rightarrow>
             case prog_step t p (committed s) of (p', d) \<Rightarrow>
               s\<lparr>committed := d, tasks := (tasks s)[j := (k, p')]\<rparr>
      else s)"

definition break_off :: "nat \<Rightarrow> exn \<Rightarrow> ('d, 'k, 'r) pool \<Rightarrow> ('d, 'k, 'r) pool" where
  "break_off j e s =
     (if j < length (tasks s)
      then case tasks s ! j of (k, p) \<Rightarrow> s\<lparr>tasks := (tasks s)[j := (k, prog_break e p)]\<rparr>
      else s)"

locale rely_guarantee =
  fixes inv :: "'d \<Rightarrow> bool"
    and L :: "'d \<Rightarrow> 'd \<Rightarrow> bool"
    and T :: "'k \<Rightarrow> 'd \<Rightarrow> 'd \<Rightarrow> bool"
    and Q :: "'k \<Rightarrow> 'r res \<Rightarrow> bool"
  assumes rely_refl: "L d d"
    and rely_trans: "L d d' \<Longrightarrow> L d' d'' \<Longrightarrow> L d d''"
    and rely_inv: "inv d \<Longrightarrow> L d d' \<Longrightarrow> inv d'"
    and guarantee_rely: "inv d \<Longrightarrow> T k d d' \<Longrightarrow> L d d'"
    and may_raise: "Q k (Raise e)"
begin

lemma within_stable: "within L (T k) (Q k) p d \<Longrightarrow> L d d' \<Longrightarrow> within L (T k) (Q k) p d'"
  by (induction p) (auto intro: rely_trans)

lemma within_step:
  assumes "within L (T k) (Q k) p d" and "prog_step t p d = (p', d')"
  shows "within L (T k) (Q k) p' d' \<and> (d' = d \<or> T k d d')"
  using assms rely_refl by (cases p) (auto split: res.splits)

lemma within_break: "within L (T k) (Q k) p d \<Longrightarrow> within L (T k) (Q k) (prog_break e p) d"
  using may_raise by (cases p) auto

definition pool_safe :: "('d, 'k, 'r) pool \<Rightarrow> bool" where
  "pool_safe s \<longleftrightarrow> inv (committed s) \<and> (\<forall>(k, p) \<in> set (tasks s). within L (T k) (Q k) p (committed s))"

text \<open>The result a safe pool's task has come to.\<close>

lemma pool_result: "pool_safe s \<Longrightarrow> (k, Finish r) \<in> set (tasks s) \<Longrightarrow> Q k r"
  by (auto simp: pool_safe_def)

lemma pool_safe_spawn:
  "pool_safe s \<Longrightarrow> (inv (committed s) \<Longrightarrow> within L (T k) (Q k) p (committed s)) \<Longrightarrow> pool_safe (spawn k p s)"
  by (auto simp: pool_safe_def spawn_def)

lemma pool_safe_break:
  assumes "pool_safe s"
  shows "pool_safe (break_off j e s)"
proof (cases "j < length (tasks s)")
  case True
  obtain k p where kp: "tasks s ! j = (k, p)" by fastforce
  then have "(k, p) \<in> set (tasks s)" using True nth_mem by metis
  then have "within L (T k) (Q k) (prog_break e p) (committed s)"
    using assms by (auto simp: pool_safe_def intro: within_break)
  then show ?thesis
    using assms True kp set_update_subset_insert [of "tasks s" j "(k, prog_break e p)"]
    by (auto simp: pool_safe_def break_off_def dest!: subsetD)
qed (use assms in \<open>simp add: break_off_def\<close>)

text \<open>A step is a step of the kind of its task, and keeps every task safe.\<close>

lemma pool_step:
  assumes "pool_safe s"
  shows "pool_safe (resume j t s)"
    and "committed (resume j t s) = committed s \<or>
      (\<exists>(k, p) \<in> set (tasks s). T k (committed s) (committed (resume j t s)))"
    and "L (committed s) (committed (resume j t s))"
proof -
  have "pool_safe (resume j t s) \<and> (committed (resume j t s) = committed s \<or>
      (\<exists>(k, p) \<in> set (tasks s). T k (committed s) (committed (resume j t s)))) \<and>
    L (committed s) (committed (resume j t s))"
  proof (cases "j < length (tasks s)")
    case False
    then show ?thesis using assms rely_refl by (simp add: resume_def)
  next
    case True
    obtain k p where kp: "tasks s ! j = (k, p)" by fastforce
    obtain p' d where st: "prog_step t p (committed s) = (p', d)" by fastforce
    have mem: "(k, p) \<in> set (tasks s)" using True kp nth_mem by metis
    have i: "inv (committed s)" and w: "within L (T k) (Q k) p (committed s)"
      using assms mem by (auto simp: pool_safe_def)
    have s': "resume j t s = s\<lparr>committed := d, tasks := (tasks s)[j := (k, p')]\<rparr>"
      using True kp st by (simp add: resume_def)
    note step = within_step [OF w st]
    have l: "L (committed s) d" using step i guarantee_rely rely_refl by blast
    have "within L (T k'') (Q k'') q d" if "(k'', q) \<in> set ((tasks s)[j := (k, p')])" for k'' q
    proof (cases "(k'', q) = (k, p')")
      case False
      then have "(k'', q) \<in> set (tasks s)"
        using that set_update_subset_insert [of "tasks s" j "(k, p')"] by blast
      then show ?thesis using assms l by (auto simp: pool_safe_def intro: within_stable)
    qed (use step in simp)
    then have "pool_safe (resume j t s)" using rely_inv [OF i l] by (auto simp: pool_safe_def s')
    then show ?thesis using l step mem by (auto simp: s')
  qed
  then show "pool_safe (resume j t s)"
    and "committed (resume j t s) = committed s \<or>
      (\<exists>(k, p) \<in> set (tasks s). T k (committed s) (committed (resume j t s)))"
    and "L (committed s) (committed (resume j t s))" by blast+
qed

text \<open>A change is the commit of the transaction at which the resumed task stands.\<close>

lemma pool_change:
  assumes "pool_safe s" and "committed (resume j t s) \<noteq> committed s"
  shows "j < length (tasks s) \<and> (\<exists>k g p. tasks s ! j = (k, Transact g p) \<and>
    g (committed s) = Ok (committed (resume j t s)) \<and> T k (committed s) (committed (resume j t s)))"
proof -
  have j: "j < length (tasks s)" using assms(2) by (auto simp: resume_def split: if_splits)
  obtain k p where kp: "tasks s ! j = (k, p)" by fastforce
  obtain p' d where st: "prog_step t p (committed s) = (p', d)" by fastforce
  have d: "committed (resume j t s) = d" using j kp st by (simp add: resume_def)
  have "within L (T k) (Q k) p (committed s)" using assms(1) j kp nth_mem [OF j] by (auto simp: pool_safe_def)
  then have "T k (committed s) d" using within_step [OF _ st] assms(2) d by blast
  moreover obtain g q where "p = Transact g q" "g (committed s) = Ok d"
    using prog_step_changes [OF st] assms(2) d by blast
  ultimately show ?thesis using j kp d by simp
qed

end

end
