(* ===== verification/Interleaving.thy ===== *)
theory Interleaving
  imports Programs Responses
begin

text \<open>
  The requests of the controller as programs that may be interleaved at every \<open>await\<close> on the
  session, and the process that runs them: \<open>app/api/nodes.py\<close>, \<open>app/core/security.py\<close> and
  \<open>app/main.py\<close> once more, with the effects on what is committed and the answers, without the log
  lines and counters (\<open>Nodes\<close> and \<open>Api\<close> have those).

  A query outside of a transaction sees what is committed at that moment; the driver begins a
  transaction at the first statement that writes. The last reading of the clock, for the audit
  row of a registration, is made inside the transaction and stands just before it here.
\<close>

section \<open>Queries and writes\<close>

text \<open>\<open>scalar_one_or_none\<close>.\<close>

fun scalar_one_or_none :: "'a list \<Rightarrow> 'a option res" where
  "scalar_one_or_none [] = Ok None"
| "scalar_one_or_none [x] = Ok (Some x)"
| "scalar_one_or_none _ = Raise (DatabaseError ''Multiple rows were found when one or none was required'')"

text \<open>\<open>select(Node).where(Node.node_id == x)\<close>, then what the handler does with the row.\<close>

definition node_by_id_prog :: "string \<Rightarrow> (node option \<Rightarrow> (db, 'r) prog) \<Rightarrow> (db, 'r) prog" where
  "node_by_id_prog x f = Select (\<lambda>d.
     case scalar_one_or_none (filter (\<lambda>n. node_id n = x) (fst d)) of
       Ok r \<Rightarrow> f r
     | Raise e \<Rightarrow> Finish (Raise e))"

text \<open>\<open>session.refresh(node)\<close>: the row again. A row keeps its \<open>node_id\<close>, by which it is looked up here.\<close>

definition refresh_prog :: "string \<Rightarrow> (db, response) prog" where
  "refresh_prog x = Select (\<lambda>d.
     case find (\<lambda>n. node_id n = x) (fst d) of
       Some n \<Rightarrow> Finish (Ok (R_node n))
     | None \<Rightarrow> Finish (Raise (DatabaseError ''Could not refresh instance'')))"

text \<open>A committed refusal and the exception that follows it.\<close>

definition refuse_prog :: "mtls_identity \<Rightarrow> string \<Rightarrow> (string \<times> pyval) list \<Rightarrow> exn \<Rightarrow> (db, 'r) prog" where
  "refuse_prog i tgt det e = Clock (\<lambda>t.
     Transact (\<lambda>(ns, es). Ok (ns, write_event es (refusal_event i tgt det t))) (Finish (Raise e)))"

text \<open>The two rows of a registration; the unique index is checked when they are written.\<close>

definition insert_node :: "mtls_identity \<Rightarrow> node_create \<Rightarrow> int \<Rightarrow> int \<Rightarrow> int \<Rightarrow> db \<Rightarrow> db res" where
  "insert_node i p t1 t2 t3 d = (case d of (ns, es) \<Rightarrow>
     if node_id p \<in> node_id ` set ns then Raise IntegrityError
     else Ok (write_node ns (Node_of p t1 t2), write_event es (register_event i p t3)))"

text \<open>
  The columns a heartbeat writes: an UPDATE sets the attributes that were changed, so \<open>state\<close> only
  when the row that was read was onboarding. It raises when its row is gone.
\<close>

definition beat_columns :: "bool \<Rightarrow> int \<Rightarrow> node \<Rightarrow> node" where
  "beat_columns activate t n =
     (if activate then n\<lparr>state := ACTIVE\<rparr> else n)\<lparr>last_heartbeat_at := Some (Naive t), updated_at := Naive t\<rparr>"

definition update_row :: "int option \<Rightarrow> (node \<Rightarrow> node) \<Rightarrow> node list \<Rightarrow> node list" where
  "update_row k f ns = map (\<lambda>r. if node_pk r = k then f r else r) ns"

definition update_node :: "node \<Rightarrow> bool \<Rightarrow> int \<Rightarrow> audit_event list \<Rightarrow> db \<Rightarrow> db res" where
  "update_node n activate t evs d = (case d of (ns, es) \<Rightarrow>
     if node_pk n \<in> node_pk ` set ns
     then Ok (update_row (node_pk n) (beat_columns activate t) ns, foldl write_event es evs)
     else Raise (DatabaseError ''UPDATE statement on table 'nodes' expected to update 1 row(s); 0 were matched.''))"

section \<open>The handlers\<close>

definition register_prog :: "node_create \<Rightarrow> mtls_identity \<Rightarrow> (db, response) prog" where
  "register_prog p i =
     (if \<not> may_register i p
      then refuse_prog i (''node:'' @ node_id p) [(''reason'', PStr ''actor not authorized to register this node'')]
             (HTTPException 403 ''Cannot register a node on behalf of another identity'')
      else node_by_id_prog (node_id p) (\<lambda>existing.
        if existing \<noteq> None
        then Finish (Raise (HTTPException 409 (''Node '' @ quoted (node_id p) @ '' is already registered'')))
        else Clock (\<lambda>t1. Clock (\<lambda>t2. Clock (\<lambda>t3.
               Transact (insert_node i p t1 t2 t3) (refresh_prog (node_id p)))))))"

text \<open>The own heartbeat of the node whose row \<open>n\<close> the handler has read.\<close>

definition beat_prog :: "node \<Rightarrow> mtls_identity \<Rightarrow> (db, response) prog" where
  "beat_prog n i = Clock (\<lambda>t1.
     if state n = ONBOARDING
     then Clock (\<lambda>t2. Transact (update_node n True t1 [activation_event i n t2]) (refresh_prog (node_id n)))
     else Transact (update_node n False t1 []) (refresh_prog (node_id n)))"

definition heartbeat_prog :: "string \<Rightarrow> mtls_identity \<Rightarrow> (db, response) prog" where
  "heartbeat_prog x i =
     node_by_id_prog x (\<lambda>found. case found of
       None \<Rightarrow> Finish (Raise (HTTPException 404 (''Node '' @ quoted x @ '' not found'')))
     | Some n \<Rightarrow>
         if id_common_name i \<noteq> common_name n
         then refuse_prog i (''node:'' @ x)
                [(''reason'', PStr ''heartbeat from non-matching identity''), (''claimed_node'', PStr x)]
                (HTTPException 403 ''Cannot heartbeat on behalf of another node'')
         else beat_prog n i)"

definition get_node_prog :: "string \<Rightarrow> (db, response) prog" where
  "get_node_prog x = node_by_id_prog x (\<lambda>found. case found of
       None \<Rightarrow> Finish (Raise (HTTPException 404 (''Node '' @ quoted x @ '' not found'')))
     | Some n \<Rightarrow> Finish (Ok (R_node n)))"

definition list_nodes_prog :: "(db, response) prog" where
  "list_nodes_prog = Select (\<lambda>d. Finish (Ok (R_nodes (sort_key node_id (fst d)))))"

text \<open>The order of audit rows with equal time stamps is the database's: here the later row first.\<close>

definition list_audit_prog :: "audit_params \<Rightarrow> (db, response) prog" where
  "list_audit_prog p = Select (\<lambda>d.
     Finish (Ok (R_events (take (nat (p_limit p)) (drop (nat (p_offset p))
       (rev (sort_key event_time (filter (query_matches (audit_stmt p)) (snd d)))))))))"

definition health_prog :: "controller_settings \<Rightarrow> (db, response) prog" where
  "health_prog cfg = Clock (\<lambda>t. Finish (Ok (R_health
     \<lparr>h_status = ''ok'', h_service = service_name cfg, h_version = service_version cfg, h_timestamp = Aware t\<rparr>)))"

section \<open>From the headers to the handler\<close>

definition dev_bypass :: mtls_identity where
  "dev_bypass = \<lparr>id_common_name = ''dev-bypass'', full_dn = [], verified = False, serial = None\<rparr>"

text \<open>What \<open>get_mtls_identity\<close> gives, without its log lines and counters.\<close>

definition identify :: "controller_settings \<Rightarrow> headers \<Rightarrow> mtls_identity res" where
  "identify cfg h =
     (if allow_unauthenticated cfg \<and> truthy (x_client_verify h) = None then Ok dev_bypass
      else case identity_of h of Some i \<Rightarrow> Ok i | None \<Rightarrow> Raise (snd (auth_refusal h)))"

fun handler_prog :: "controller_settings \<Rightarrow> request \<Rightarrow> mtls_identity \<Rightarrow> (db, response) prog" where
  "handler_prog cfg GET_health i = health_prog cfg"
| "handler_prog cfg GET_whoami i = Finish (Ok (R_whoami (whoami i)))"
| "handler_prog cfg GET_nodes i = list_nodes_prog"
| "handler_prog cfg (POST_nodes p) i = register_prog p i"
| "handler_prog cfg (GET_node x) i = get_node_prog x"
| "handler_prog cfg (POST_heartbeat x p) i = heartbeat_prog x i"
| "handler_prog cfg (GET_audit p) i = list_audit_prog p"

text \<open>\<open>require_live_identity\<close>: the set of revoked serials is read once, when the request comes in.\<close>

definition require_live_prog :: "int set \<Rightarrow> mtls_identity \<Rightarrow> (db, 'r) prog \<Rightarrow> (db, 'r) prog" where
  "require_live_prog R i p =
     (case serial i of
        None \<Rightarrow> p
      | Some n \<Rightarrow>
          if n \<in> R
          then refuse_prog i (''cert:'' @ py_hex n)
                 [(''reason'', PStr ''certificate revoked''), (''serial'', PStr (py_hex n))]
                 (HTTPException 403 ''Client certificate has been revoked'')
          else p)"

text \<open>
  The dependencies first; then arguments that do not fit their declarations answer 422 (the detail
  is the list of what does not fit, left out here); then the handler.

  A turn of the program is a query, a transaction or a reading of the clock. The code does not yield
  at a reading of the clock, so each of its schedules is one of these, with the reading taken at once.
  Waiting for a pooled connection or for the writer's lock is not getting a turn; a wait that ends in
  a timeout or a cancellation is a call that is broken off. Counts of turns are counts of these steps.
\<close>

definition request_prog :: "controller_settings \<Rightarrow> headers \<Rightarrow> int set \<Rightarrow> request \<Rightarrow> (db, response) prog" where
  "request_prog cfg h R req =
     (if \<not> protected req then health_prog cfg
      else case identify cfg h of
        Raise e \<Rightarrow> Finish (Raise e)
      | Ok i \<Rightarrow> require_live_prog R i
          (if valid_request req then handler_prog cfg req i
           else Finish (Raise (HTTPException 422 ''Unprocessable Entity''))))"

section \<open>The process\<close>

text \<open>
  The requests in progress, each with its headers and the revoked serials it was admitted under, on
  what is committed; and the revocation cache. An event is a request that comes in, a request that
  goes on to its next \<open>await\<close> at some time, one whose call of the session raises (a lock that is not
  got in time, a cancelled connection), or the revocation loop that stores a new list.
\<close>

record admission =
  a_headers :: headers
  a_revoked :: "int set"
  a_request :: request

record server =
  s_pool :: "(db, admission, response) pool"
  s_revoked :: "int set"

datatype event =
    Arrive headers request
  | Resume nat int
  | Break nat exn
  | New_crl "int set"

fun server_step :: "controller_settings \<Rightarrow> event \<Rightarrow> server \<Rightarrow> server" where
  "server_step cfg (Arrive h req) s =
     s\<lparr>s_pool := spawn \<lparr>a_headers = h, a_revoked = s_revoked s, a_request = req\<rparr>
                   (request_prog cfg h (s_revoked s) req) (s_pool s)\<rparr>"
| "server_step cfg (Resume j t) s = s\<lparr>s_pool := resume j t (s_pool s)\<rparr>"
| "server_step cfg (Break j e) s = s\<lparr>s_pool := break_off j e (s_pool s)\<rparr>"
| "server_step cfg (New_crl R) s = s\<lparr>s_revoked := R\<rparr>"

fun server_run :: "controller_settings \<Rightarrow> event list \<Rightarrow> server \<Rightarrow> server" where
  "server_run cfg [] s = s"
| "server_run cfg (e # es) s = server_run cfg es (server_step cfg e s)"

definition server_start :: "db \<Rightarrow> int set \<Rightarrow> server" where
  "server_start d R = \<lparr>s_pool = \<lparr>committed = d, tasks = []\<rparr>, s_revoked = R\<rparr>"

definition s_db :: "server \<Rightarrow> db" where
  "s_db s = committed (s_pool s)"

definition s_task :: "server \<Rightarrow> nat \<Rightarrow> (db, response) prog" where
  "s_task s j = snd (tasks (s_pool s) ! j)"

end
