(* ===== verification/Interleaving_Safe.thy ===== *)
theory Interleaving_Safe
  imports Interleaving
begin

text \<open>
  What the interleaved requests keep: the steps one commit may make (\<open>conc_step\<close>), the relation
  every commit stays in whatever others did since the handler's query (\<open>moves_on\<close>), and the proof
  that each program of \<open>Interleaving\<close> keeps to them. The locale \<open>rely_guarantee\<close> carries this to
  every schedule.
\<close>

section \<open>The steps of a commit\<close>

text \<open>
  As \<open>spec_step\<close>, but a heartbeat writes columns of the row as it is now: it may find a row active
  that was onboarding when the handler read it, and then records an activation once more.
\<close>

inductive conc_step :: "int set \<Rightarrow> mtls_identity \<Rightarrow> request \<Rightarrow> db \<Rightarrow> db \<Rightarrow> bool" for R i where
  c_refuse: "conc_step R i req (ns, es) (ns, write_event es (refusal_event i tgt det t))"
| c_enrol: "live R i \<Longrightarrow> may_register i p \<Longrightarrow> valid_node_create p \<Longrightarrow> node_id p \<notin> node_id ` set ns \<Longrightarrow>
     conc_step R i (POST_nodes p) (ns, es)
       (write_node ns (Node_of p t1 t2), write_event es (register_event i p t))"
| c_activate: "live R i \<Longrightarrow> n \<in> set ns \<Longrightarrow> common_name n = id_common_name i \<Longrightarrow>
     state n \<in> {ONBOARDING, ACTIVE} \<Longrightarrow>
     conc_step R i (POST_heartbeat (node_id n) x) (ns, es)
       (update_row (node_pk n) (beat_columns True t1) ns, write_event es (activation_event i n t2))"
| c_beat: "live R i \<Longrightarrow> n \<in> set ns \<Longrightarrow> common_name n = id_common_name i \<Longrightarrow> state n \<noteq> ONBOARDING \<Longrightarrow>
     conc_step R i (POST_heartbeat (node_id n) x) (ns, es)
       (update_row (node_pk n) (beat_columns False t) ns, es)"

definition tables_ok :: "db \<Rightarrow> bool" where
  "tables_ok d \<longleftrightarrow> store_ok d \<and> rows_valid (fst d)"

definition moves_on :: "db \<Rightarrow> db \<Rightarrow> bool" where
  "moves_on d d' \<longleftrightarrow> continues (fst d) (fst d') \<and> prefix (snd d) (snd d') \<and>
     (tables_ok d \<longrightarrow> tables_ok d') \<and> (accounted d \<longrightarrow> accounted d')"

lemma beat_columns_fields [simp]:
  "node_id (beat_columns b t n) = node_id n" "common_name (beat_columns b t n) = common_name n"
  "role (beat_columns b t n) = role n" "ip_address (beat_columns b t n) = ip_address n"
  "node_notes (beat_columns b t n) = node_notes n" "node_pk (beat_columns b t n) = node_pk n"
  "created_at (beat_columns b t n) = created_at n" "state (beat_columns b t n) = (if b then ACTIVE else state n)"
  "last_heartbeat_at (beat_columns b t n) = Some (Naive t)" "updated_at (beat_columns b t n) = Naive t"
  by (simp_all add: beat_columns_def)

lemma update_row_maps [simp]:
  "map node_id (update_row k (beat_columns b t) ns) = map node_id ns"
  "map node_pk (update_row k (beat_columns b t) ns) = map node_pk ns"
  by (simp_all add: update_row_def)

lemma update_row_images [simp]:
  "node_id ` set (update_row k (beat_columns b t) ns) = node_id ` set ns"
  "node_pk ` set (update_row k (beat_columns b t) ns) = node_pk ` set ns"
  by (metis set_map update_row_maps(1)) (metis set_map update_row_maps(2))

lemma pk_unique:
  "node_table_ok ns \<Longrightarrow> n \<in> set ns \<Longrightarrow> r \<in> set ns \<Longrightarrow> node_pk r = node_pk n \<Longrightarrow> r = n"
  unfolding node_table_ok_def by (metis map_eq_distinct_unique)

lemma node_table_ok_update:
  assumes "node_table_ok ns"
  shows "node_table_ok (update_row k (beat_columns b t) ns)"
proof -
  have "\<forall>x \<in> node_pk ` set ns. x \<noteq> None" using assms by (auto simp: node_table_ok_def)
  then have "\<forall>x \<in> node_pk ` set (update_row k (beat_columns b t) ns). x \<noteq> None" by simp
  then have "\<forall>n \<in> set (update_row k (beat_columns b t) ns). node_pk n \<noteq> None" by blast
  then show ?thesis using assms unfolding node_table_ok_def by simp
qed

lemma continues_update:
  assumes "node_table_ok ns" and "n \<in> set ns" and "b \<longrightarrow> state n \<in> {ONBOARDING, ACTIVE}"
  shows "continues ns (update_row (node_pk n) (beat_columns b t) ns)"
proof -
  have "same_node r (if node_pk r = node_pk n then beat_columns b t r else r)" if "r \<in> set ns" for r
    using assms(3) pk_unique [OF assms(1,2) that] by (auto simp: same_node_def)
  then have "list_all2 same_node ns (update_row (node_pk n) (beat_columns b t) ns)"
    by (simp add: update_row_def list_all2_map2 list_all2_same)
  then show ?thesis unfolding continues_def by (intro exI [of _ "update_row (node_pk n) (beat_columns b t) ns"] exI [of _ "[]"]) simp
qed

lemma continues_append [simp]: "continues ns (ns @ new)"
  unfolding continues_def by (intro exI [of _ ns] exI [of _ new]) (simp add: list_all2_same)

lemma accounted_more:
  "accounted (ns, es) \<Longrightarrow> node_id ` set ns' = node_id ` set ns \<Longrightarrow> accounted (ns', es) \<and> accounted (ns', write_event es e)"
  by (auto simp: accounted_def write_event_set)

lemma accounted_enrol:
  assumes "accounted (ns, es)"
  shows "accounted (write_node ns (Node_of p t1 t2), write_event es (register_event i p t))"
proof -
  have "registers (node_id p) (register_event i p t)"
    by (simp add: registers_def register_event_def)
  with assms show ?thesis
    by (auto simp: accounted_def write_new_node write_event_set registers_fields)
qed

lemma rows_valid_continues:
  assumes "continues ns ns'" and "length ns' = length ns" and "rows_valid ns"
  shows "rows_valid ns'"
proof -
  obtain rows new where c: "ns' = rows @ new" "list_all2 same_node ns rows"
    using assms(1) unfolding continues_def by blast
  then have r: "ns' = rows" "list_all2 same_node ns rows"
    using assms(2) list_all2_lengthD [OF c(2)] by simp_all
  show ?thesis unfolding rows_valid_def
  proof
    fix n' assume "n' \<in> set ns'"
    then obtain n where n: "n \<in> set ns" "same_node n n'" using list_all2_mem2 [OF r(2)] r(1) by blast
    then show "valid_node_create (node_base.truncate n')"
      using assms(3) by (auto simp: rows_valid_def valid_node_create_fields same_node_def)
  qed
qed

lemma update_row_length [simp]: "length (update_row k f ns) = length ns"
  by (simp add: update_row_def)

lemma rows_valid_new:
  assumes "rows_valid ns" and "valid_node_create p"
  shows "rows_valid (write_node ns (Node_of p t1 t2))"
proof -
  have "valid_node_create (node_base.truncate ((node_row (Node_of p t1 t2))\<lparr>node_pk := k\<rparr>))" for k
    using assms(2) unfolding valid_node_create_fields by (simp add: valid_node_create_def)
  then show ?thesis using assms(1) by (auto simp: rows_valid_def write_new_node)
qed

lemma conc_step_continues:
  assumes "store_ok d" and "conc_step R i req d d'"
  shows "continues (fst d) (fst d')"
  using assms(2,1)
  by (induction rule: conc_step.induct)
     (simp_all add: continues_refl write_new_node continues_update store_ok_def)

lemma conc_step_tables_ok:
  assumes "tables_ok d" and "conc_step R i req d d'"
  shows "tables_ok d'"
  using assms(2,1)
proof (induction rule: conc_step.induct)
  case (c_activate n ns x es t1 t2)
  then have "continues ns (update_row (node_pk n) (beat_columns True t1) ns)"
    by (intro continues_update) (simp_all add: tables_ok_def store_ok_def)
  with c_activate show ?case
    by (auto simp: tables_ok_def store_ok_def event_table_ok_write node_table_ok_update intro: rows_valid_continues)
next
  case (c_beat n ns x es t)
  then have "continues ns (update_row (node_pk n) (beat_columns False t) ns)"
    by (intro continues_update) (simp_all add: tables_ok_def store_ok_def)
  with c_beat show ?case
    by (auto simp: tables_ok_def store_ok_def node_table_ok_update intro: rows_valid_continues)
qed (simp_all add: tables_ok_def store_ok_def event_table_ok_write node_table_ok_enrol rows_valid_new)

lemma conc_step_moves_on:
  assumes "tables_ok d" and "conc_step R i req d d'"
  shows "moves_on d d'"
proof -
  have "prefix (snd d) (snd d')" using assms(2) by (induction rule: conc_step.induct) simp_all
  moreover have "accounted d \<Longrightarrow> accounted d'"
    using assms(2) by (induction rule: conc_step.induct) (simp_all add: accounted_more accounted_enrol)
  ultimately show ?thesis
    using assms conc_step_continues [OF _ assms(2)] conc_step_tables_ok [OF assms]
    by (simp add: moves_on_def tables_ok_def)
qed

lemma moves_on_refl: "moves_on d d"
  by (simp add: moves_on_def continues_refl)

lemma moves_on_trans: "moves_on d d' \<Longrightarrow> moves_on d' d'' \<Longrightarrow> moves_on d d''"
  unfolding moves_on_def by (meson continues_trans prefix_order.trans)

text \<open>What a request that came in with these headers may commit, and what it may answer.\<close>

definition commits :: "controller_settings \<Rightarrow> admission \<Rightarrow> db \<Rightarrow> db \<Rightarrow> bool" where
  "commits cfg a d d' \<longleftrightarrow>
     (\<exists>i. identify cfg (a_headers a) = Ok i \<and> conc_step (a_revoked a) i (a_request a) d d')"

text \<open>
  An answer of the request's kind, about the node it names, that passes its response model; a page of
  the audit log holds rows that match the query.
\<close>

fun answers :: "request \<Rightarrow> response \<Rightarrow> bool" where
  "answers GET_health (R_health _) = True"
| "answers GET_whoami (R_whoami _) = True"
| "answers GET_nodes (R_nodes ns) = (sorted (map node_id ns) \<and> response_body (R_nodes ns) \<noteq> None)"
| "answers (POST_nodes p) (R_node n) =
     (node_id n = node_id p \<and> response_body (R_node n) \<noteq> None)"
| "answers (GET_node x) (R_node n) = (node_id n = x \<and> response_body (R_node n) \<noteq> None)"
| "answers (POST_heartbeat x _) (R_node n) = (node_id n = x \<and> response_body (R_node n) \<noteq> None)"
| "answers (GET_audit p) (R_events es) =
     (int (length es) \<le> p_limit p \<and> (\<forall>e \<in> set es. event_pk e \<noteq> None \<and> query_matches (audit_stmt p) e))"
| "answers _ _ = False"

fun well_answered :: "request \<Rightarrow> response res \<Rightarrow> bool" where
  "well_answered req (Ok r) = answers req r"
| "well_answered req (Raise e) = True"

interpretation requests: rely_guarantee tables_ok moves_on "commits cfg" "\<lambda>a. well_answered (a_request a)" for cfg
proof (unfold_locales, goal_cases)
  case (3 d d') then show ?case by (simp add: moves_on_def)
next
  case (4 d k d') then show ?case by (auto simp: commits_def intro: conc_step_moves_on)
qed (fact moves_on_refl, fact moves_on_trans, simp)

section \<open>Every program keeps to its steps\<close>

abbreviation well_behaved :: "controller_settings \<Rightarrow> admission \<Rightarrow> (db, response) prog \<Rightarrow> db \<Rightarrow> bool" where
  "well_behaved cfg a \<equiv> within moves_on (commits cfg a) (well_answered (a_request a))"

lemma commitsI:
  "identify cfg (a_headers a) = Ok i \<Longrightarrow> conc_step (a_revoked a) i (a_request a) d d' \<Longrightarrow> commits cfg a d d'"
  by (auto simp: commits_def)

lemma moves_on_ok: "moves_on d d' \<Longrightarrow> tables_ok d \<Longrightarrow> tables_ok d'"
  by (simp add: moves_on_def)

lemma within_refuse:
  assumes "identify cfg (a_headers a) = Ok i"
  shows "well_behaved cfg a (refuse_prog i tgt det e) d"
  using assms by (auto simp: refuse_prog_def intro: commitsI c_refuse)

text \<open>A row of a table in order passes its response model.\<close>

lemma row_answers:
  assumes "tables_ok d" and "n \<in> set (fst d)"
  shows "response_body (R_node n) \<noteq> None"
  using assms response_body_rows(1) [of "fst d" n] by (simp add: tables_ok_def store_ok_def)

lemma within_refresh:
  assumes "tables_ok d" and "\<And>n. node_id n = x \<Longrightarrow> response_body (R_node n) \<noteq> None \<Longrightarrow> answers (a_request a) (R_node n)"
  shows "well_behaved cfg a (refresh_prog x) d"
proof -
  have "well_behaved cfg a (case find (\<lambda>n. node_id n = x) (fst d') of
       Some n \<Rightarrow> Finish (Ok (R_node n))
     | None \<Rightarrow> Finish (Raise (DatabaseError ''Could not refresh instance''))) d'" if "moves_on d d'" for d'
  proof (cases "find (\<lambda>n. node_id n = x) (fst d')")
    case (Some n)
    then have "n \<in> set (fst d')" "node_id n = x" by (auto dest: find_SomeD)
    then have "answers (a_request a) (R_node n)"
      using assms(2) row_answers [OF moves_on_ok [OF that assms(1)]] by blast
    then show ?thesis using Some by simp
  qed simp
  then show ?thesis by (simp add: refresh_prog_def)
qed

lemma scalar_one_or_none_Ok:
  "scalar_one_or_none xs = Ok r \<Longrightarrow> xs = (case r of None \<Rightarrow> [] | Some x \<Rightarrow> [x])"
  by (cases xs rule: scalar_one_or_none.cases) auto

lemma within_node_by_id:
  assumes none: "\<And>d'. L d d' \<Longrightarrow> within L T Q (f None) d'"
    and some: "\<And>d' n. L d d' \<Longrightarrow> n \<in> set (fst d') \<Longrightarrow> node_id n = x \<Longrightarrow> within L T Q (f (Some n)) d'"
    and raise: "\<And>e. Q (Raise e)"
  shows "within L T Q (node_by_id_prog x f) d"
proof -
  have "within L T Q (case scalar_one_or_none (filter (\<lambda>n. node_id n = x) (fst d')) of
      Ok r \<Rightarrow> f r | Raise e \<Rightarrow> Finish (Raise e)) d'" if "L d d'" for d'
  proof (cases "scalar_one_or_none (filter (\<lambda>n. node_id n = x) (fst d'))")
    case (Ok r)
    show ?thesis
    proof (cases r)
      case None
      then show ?thesis using Ok none [OF that] by simp
    next
      case (Some n)
      then have "filter (\<lambda>n. node_id n = x) (fst d') = [n]"
        using scalar_one_or_none_Ok [OF Ok] by simp
      then have "n \<in> set (filter (\<lambda>n. node_id n = x) (fst d'))" by simp
      then show ?thesis using Ok Some some [OF that] by simp
    qed
  qed (simp add: raise)
  then show ?thesis by (simp add: node_by_id_prog_def)
qed

text \<open>The commit of a heartbeat on a table that has moved on since its query is still one of its steps.\<close>

lemma update_conc_step:
  assumes "live R i" and "n \<in> set (fst d)" and "common_name n = id_common_name i" and "moves_on d d'"
    and "b \<and> state n = ONBOARDING \<and> evs = [activation_event i n t2] \<or> \<not> b \<and> state n \<noteq> ONBOARDING \<and> evs = []"
    and "update_node n b t1 evs d' = Ok d''"
  shows "conc_step R i (POST_heartbeat (node_id n) x) d' d''"
proof -
  obtain ns es where d: "d' = (ns, es)" by (cases d')
  have "continues (fst d) (fst d')" using assms(4) by (simp add: moves_on_def)
  then obtain n' where n': "n' \<in> set ns" "same_node n n'"
    using continuesD [OF _ assms(2)] d by (metis fst_conv)
  then have f: "node_pk n = node_pk n'" "common_name n' = id_common_name i" "node_id n = node_id n'"
    "activation_event i n t2 = activation_event i n' t2"
    using assms(3) by (simp_all add: same_node_def activation_event_def)
  have d'': "d'' = (update_row (node_pk n') (beat_columns b t1) ns, foldl write_event es evs)"
    using assms(6) by (simp add: update_node_def d f(1) split: if_splits)
  from assms(5) show ?thesis
  proof (elim disjE conjE)
    assume b: "b" and on: "state n = ONBOARDING" and evs: "evs = [activation_event i n t2]"
    have "state n' \<in> {ONBOARDING, ACTIVE}" using on n'(2) by (auto simp: same_node_def)
    then show ?thesis using c_activate [OF assms(1) n'(1) f(2)] b evs f(3,4) by (simp add: d d'')
  next
    assume b: "\<not> b" and off: "state n \<noteq> ONBOARDING" and evs: "evs = []"
    have "state n' \<noteq> ONBOARDING" using off n'(2) by (auto simp: same_node_def)
    then show ?thesis using c_beat [OF assms(1) n'(1) f(2)] b evs f(3) by (simp add: d d'')
  qed
qed

lemma insert_conc_step:
  assumes "live R i" and "may_register i p" and "valid_node_create p" and "insert_node i p t1 t2 t3 d = Ok d'"
  shows "conc_step R i (POST_nodes p) d d'"
proof -
  obtain ns es where d: "d = (ns, es)" by (cases d)
  show ?thesis using assms unfolding d by (auto simp: insert_node_def intro: c_enrol split: if_splits)
qed

lemma within_register:
  assumes "identify cfg (a_headers a) = Ok i" and "live (a_revoked a) i" and "a_request a = POST_nodes p"
    and "valid_node_create p" and "tables_ok d"
  shows "well_behaved cfg a (register_prog p i) d"
proof (cases "may_register i p")
  case False
  then show ?thesis by (simp add: register_prog_def within_refuse [OF assms(1)])
next
  case True
  have c: "commits cfg a d' d''" if "insert_node i p t1 t2 t3 d' = Ok d''" for d' d'' t1 t2 t3
    using insert_conc_step [OF assms(2) True assms(4) that] assms(1,3) by (auto intro: commitsI)
  have t: "well_behaved cfg a (Transact (insert_node i p t1 t2 t3) (refresh_prog (node_id p))) d'"
    if "tables_ok d'" for d' t1 t2 t3
  proof -
    have "well_behaved cfg a (refresh_prog (node_id p)) d2" if "moves_on d' d1" "insert_node i p t1 t2 t3 d1 = Ok d2" for d1 d2
      using requests.guarantee_rely [OF moves_on_ok [OF that(1) \<open>tables_ok d'\<close>] c [OF that(2)]]
        moves_on_ok [OF that(1) \<open>tables_ok d'\<close>] assms(3) by (intro within_refresh) (auto dest: moves_on_ok)
    then show ?thesis using c by simp
  qed
  show ?thesis
    using True moves_on_ok [OF _ assms(5)]
    by (auto simp: register_prog_def simp del: within.simps(4) intro!: within_node_by_id t)
qed

lemma within_update:
  assumes "identify cfg (a_headers a) = Ok i" and "live (a_revoked a) i"
    and "a_request a = POST_heartbeat (node_id n) x" and "tables_ok d"
    and "n \<in> set (fst d)" and "common_name n = id_common_name i"
    and "b \<and> state n = ONBOARDING \<and> evs = [activation_event i n t2] \<or> \<not> b \<and> state n \<noteq> ONBOARDING \<and> evs = []"
  shows "well_behaved cfg a (Transact (update_node n b t1 evs) (refresh_prog (node_id n))) d"
proof -
  have c: "commits cfg a d' d''" if "moves_on d d'" and "update_node n b t1 evs d' = Ok d''" for d' d''
    using update_conc_step [OF assms(2,5,6) that(1) assms(7) that(2)] assms(1,3) by (auto intro: commitsI)
  have "well_behaved cfg a (refresh_prog (node_id n)) d2" if "moves_on d d1" "update_node n b t1 evs d1 = Ok d2" for d1 d2
    using requests.guarantee_rely [OF moves_on_ok [OF that(1) assms(4)] c [OF that]]
      moves_on_ok [OF that(1) assms(4)] assms(3) by (intro within_refresh) (auto dest: moves_on_ok)
  then show ?thesis using c by simp
qed

lemma within_beat:
  assumes "identify cfg (a_headers a) = Ok i" and "live (a_revoked a) i"
    and "a_request a = POST_heartbeat (node_id n) x" and "tables_ok d"
    and "n \<in> set (fst d)" and "id_common_name i = common_name n"
  shows "well_behaved cfg a (beat_prog n i) d"
  using within_update [OF assms(1-5)] assms(6) by (simp add: beat_prog_def del: within.simps(4))

lemma within_heartbeat:
  assumes "identify cfg (a_headers a) = Ok i" and "live (a_revoked a) i"
    and "a_request a = POST_heartbeat x y" and "tables_ok d"
  shows "well_behaved cfg a (heartbeat_prog x i) d"
  unfolding heartbeat_prog_def
proof (rule within_node_by_id, goal_cases)
  case (2 d' n)
  have "well_behaved cfg a (beat_prog n i) d'" if "id_common_name i = common_name n"
    using within_beat [OF assms(1,2) _ moves_on_ok [OF 2(1) assms(4)] 2(2) that] assms(3) 2(3) by simp
  then show ?case using within_refuse [OF assms(1)] by simp
qed simp_all

lemma within_get_node:
  assumes "a_request a = GET_node x" and "tables_ok d"
  shows "well_behaved cfg a (get_node_prog x) d"
  unfolding get_node_prog_def
proof (rule within_node_by_id, goal_cases)
  case (2 d' n)
  then show ?case using row_answers [OF moves_on_ok [OF 2(1) assms(2)] 2(2)] assms(1) by simp
qed simp_all

lemma within_list:
  assumes "a_request a = GET_nodes" and "tables_ok d"
  shows "well_behaved cfg a list_nodes_prog d"
proof -
  have "response_body (R_nodes (sort_key node_id (fst d'))) \<noteq> None" if "moves_on d d'" for d'
    using response_body_rows(2) [of "fst d'" "sort_key node_id (fst d')"] moves_on_ok [OF that assms(2)]
    by (simp add: tables_ok_def store_ok_def del: response_body.simps)
  then show ?thesis by (simp add: list_nodes_prog_def assms(1) del: response_body.simps)
qed

lemma within_handler:
  assumes "identify cfg (a_headers a) = Ok i" and "live (a_revoked a) i" and "valid_request (a_request a)" and "tables_ok d"
  shows "well_behaved cfg a (handler_prog cfg (a_request a) i) d"
proof (cases "a_request a")
  case (POST_nodes p)
  then show ?thesis using within_register [OF assms(1,2) POST_nodes _ assms(4)] assms(3) by simp
next
  case (POST_heartbeat x p)
  then show ?thesis using within_heartbeat [OF assms(1,2) POST_heartbeat assms(4)] by simp
next
  case (GET_node x)
  then show ?thesis using within_get_node [OF GET_node assms(4)] by simp
next
  case GET_nodes
  then show ?thesis using within_list [OF GET_nodes assms(4)] by simp
next
  case (GET_audit p)
  then have "1 \<le> p_limit p" using assms(3) by (simp add: valid_audit_params_def)
  then have "int (min k (nat (p_limit p))) \<le> p_limit p" for k by linarith
  moreover have "event_pk e \<noteq> None" if "moves_on d d'" "e \<in> set (snd d')" for d' e
    using moves_on_ok [OF that(1) assms(4)] that(2) by (simp add: tables_ok_def store_ok_def event_table_ok_def)
  ultimately show ?thesis using GET_audit by (auto simp: list_audit_prog_def dest!: in_set_takeD in_set_dropD)
qed (simp_all add: health_prog_def)

lemma within_request:
  assumes "tables_ok d"
  shows "well_behaved cfg \<lparr>a_headers = h, a_revoked = R, a_request = req\<rparr> (request_prog cfg h R req) d"
proof (cases "protected req")
  case False
  then have "req = GET_health" by (cases req) auto
  then show ?thesis by (simp add: request_prog_def health_prog_def)
next
  case True
  show ?thesis
  proof (cases "identify cfg h")
    case (Ok i)
    let ?a = "\<lparr>a_headers = h, a_revoked = R, a_request = req\<rparr>"
    have i: "identify cfg (a_headers ?a) = Ok i" using Ok by simp
    have "well_behaved cfg ?a (if valid_request req then handler_prog cfg req i
        else Finish (Raise (HTTPException 422 ''Unprocessable Entity''))) d" if "live R i"
      using within_handler [OF i _ _ assms] that by simp
    then show ?thesis
      using Ok True within_refuse [OF i] by (auto simp: request_prog_def require_live_prog_def live_def split: option.splits)
  qed (use True in \<open>simp add: request_prog_def\<close>)
qed

section \<open>Every schedule\<close>

definition server_safe :: "controller_settings \<Rightarrow> server \<Rightarrow> bool" where
  "server_safe cfg s \<longleftrightarrow> requests.pool_safe cfg (s_pool s)"

lemma server_safe_start: "tables_ok d \<Longrightarrow> server_safe cfg (server_start d R)"
  by (simp add: server_safe_def server_start_def requests.pool_safe_def)

lemma server_safe_step:
  assumes "server_safe cfg s"
  shows "server_safe cfg (server_step cfg e s)"
proof (cases e)
  case (Arrive h req)
  then show ?thesis
    using assms requests.pool_safe_spawn [OF _ within_request] by (simp add: server_safe_def)
qed (use assms in \<open>simp_all add: server_safe_def requests.pool_step(1) requests.pool_safe_break\<close>)

lemma server_safe_run: "server_safe cfg s \<Longrightarrow> server_safe cfg (server_run cfg evs s)"
  by (induction evs arbitrary: s) (simp_all add: server_safe_step)

lemma s_db_step_other:
  "s_db (server_step cfg (Arrive h req) s) = s_db s" "s_db (server_step cfg (New_crl R) s) = s_db s"
  "s_db (server_step cfg (Break j e) s) = s_db s"
  by (simp_all add: s_db_def spawn_def break_off_def split: prod.splits)

lemma server_step_moves_on:
  assumes "server_safe cfg s"
  shows "moves_on (s_db s) (s_db (server_step cfg e s))"
proof (cases e)
  case (Resume j t)
  then show ?thesis using requests.pool_step(3) assms by (simp add: server_safe_def s_db_def)
qed (simp_all add: s_db_step_other moves_on_refl del: server_step.simps)

lemma server_run_moves_on:
  "server_safe cfg s \<Longrightarrow> moves_on (s_db s) (s_db (server_run cfg evs s))"
proof (induction evs arbitrary: s)
  case (Cons e evs)
  then show ?case
    using server_step_moves_on [OF Cons.prems, of e] server_safe_step [OF Cons.prems, of e]
    by (auto intro: moves_on_trans)
qed (simp add: moves_on_refl)

text \<open>
  On whose behalf one step of the process changes what is committed: the step resumes a request that
  stands at a transaction, and what is committed afterwards is the outcome of that transaction.
\<close>

lemma server_step_change:
  assumes "server_safe cfg s" and "s_db (server_step cfg e s) \<noteq> s_db s"
  obtains j t a g p where "e = Resume j t" and "j < length (tasks (s_pool s))"
    and "tasks (s_pool s) ! j = (a, Transact g p)" and "g (s_db s) = Ok (s_db (server_step cfg e s))"
    and "commits cfg a (s_db s) (s_db (server_step cfg e s))"
proof (cases e)
  case (Resume j t)
  then have "committed (resume j t (s_pool s)) \<noteq> committed (s_pool s)" using assms(2) by (simp add: s_db_def)
  from requests.pool_change [OF _ this] that [OF Resume] show thesis
    using assms(1) Resume by (auto simp: server_safe_def s_db_def)
qed (use assms(2) in \<open>simp_all add: s_db_step_other del: server_step.simps\<close>)

lemma server_step_commits:
  assumes "server_safe cfg s"
  shows "s_db (server_step cfg e s) = s_db s \<or>
    (\<exists>(a, p) \<in> set (tasks (s_pool s)). commits cfg a (s_db s) (s_db (server_step cfg e s)))"
proof (cases "s_db (server_step cfg e s) = s_db s")
  case False
  from server_step_change [OF assms this] nth_mem show ?thesis by (metis (no_types, lifting) case_prodI)
qed simp

end
