(* ===== verification/Interleaving_Alone.thy ===== *)
theory Interleaving_Alone
  imports Interleaving_Safe
begin

text \<open>
  A request's program, run without interruption on a database in order, is the request of \<open>Api\<close>: the
  same answer and the same rows committed. So the two models of a handler, the one on a session with
  its faults and effects and the one that can be interleaved, are of the same code.
\<close>

text \<open>Rows as the columns hold them, without a time zone.\<close>

definition rows_stored :: "node list \<Rightarrow> bool" where
  "rows_stored ns \<longleftrightarrow> (\<forall>n \<in> set ns. node_row n = n)"

lemma naive_idem [simp]: "naive (naive t) = naive t"
  by (simp add: naive_def)

lemma node_row_idem: "node_row (node_row n) = node_row n"
  by (cases n) (simp add: node_row_def option.map_comp comp_def)

lemma node_row_pk: "node_row (n\<lparr>node_pk := k\<rparr>) = (node_row n)\<lparr>node_pk := k\<rparr>"
  by (cases n) (simp add: node_row_def)

lemma rows_stored_write: "rows_stored ns \<Longrightarrow> rows_stored (write_node ns n)"
  by (auto simp: rows_stored_def write_node_def node_row_idem node_row_pk split: option.splits)

lemma spec_step_rows_stored: "spec_step R i d d' \<Longrightarrow> rows_stored (fst d) \<Longrightarrow> rows_stored (fst d')"
  by (induction rule: spec_step.induct) (auto intro: rows_stored_write)

lemma scalar_one_or_none_find:
  assumes "distinct (map node_id ns)"
  shows "scalar_one_or_none (filter (\<lambda>n. node_id n = x) ns) = Ok (find (\<lambda>n. node_id n = x) ns)"
  using distinct_filter_key [OF assms, of x] by (simp split: option.splits)

lemma exec_node_by_id:
  assumes "store_ok d"
  shows "exec c (node_by_id_prog x f) k d = exec c (f (find (\<lambda>n. node_id n = x) (fst d))) k d"
  using assms by (simp add: node_by_id_prog_def scalar_one_or_none_find store_ok_def node_table_ok_def)

lemma exec_refuse:
  "exec c (refuse_prog i tgt det e) k d = (Raise e, (fst d, write_event (snd d) (refusal_event i tgt det (c k))))"
  by (cases d) (simp add: refuse_prog_def)

lemma exec_refresh:
  assumes "distinct (map node_id (fst d))" and "n \<in> set (fst d)" and "node_id n = x"
  shows "exec c (refresh_prog x) k d = (Ok (R_node n), d)"
  using find_unique [OF assms(1,2)] assms(3) by (simp add: refresh_prog_def)

lemma find_no_row: "x \<notin> node_id ` set ns \<Longrightarrow> find (\<lambda>n. node_id n = x) ns = None"
  by (auto simp: find_None_iff)

lemma find_row: "node_table_ok ns \<Longrightarrow> n \<in> set ns \<Longrightarrow> find (\<lambda>m. node_id m = node_id n) ns = Some n"
  by (simp add: find_unique node_table_ok_def)

section \<open>The registrations\<close>

lemma exec_register_refused:
  "\<not> may_register i p \<Longrightarrow> exec c (register_prog p i) k d =
     (Raise (HTTPException 403 ''Cannot register a node on behalf of another identity''),
      (fst d, write_event (snd d) (refusal_event i (''node:'' @ node_id p)
         [(''reason'', PStr ''actor not authorized to register this node'')] (c k))))"
  by (simp add: register_prog_def exec_refuse)

lemma exec_register_duplicate:
  assumes "store_ok d" and "may_register i p" and "node_id p \<in> node_id ` set (fst d)"
  shows "exec c (register_prog p i) k d =
     (Raise (HTTPException 409 (''Node '' @ quoted (node_id p) @ '' is already registered'')), d)"
proof -
  have "find (\<lambda>n. node_id n = node_id p) (fst d) \<noteq> None"
    unfolding find_None_iff using assms(3) by auto
  then show ?thesis using assms(1,2) by (auto simp: register_prog_def exec_node_by_id)
qed

lemma exec_register_new:
  assumes "store_ok (ns, es)" and "may_register i p" and "node_id p \<notin> node_id ` set ns"
  shows "exec c (register_prog p i) k (ns, es) =
     (Ok (R_node (new_row ns p (c k) (c (Suc k)))),
      (ns @ [new_row ns p (c k) (c (Suc k))], write_event es (register_event i p (c (Suc (Suc k))))))"
proof -
  let ?ns = "ns @ [new_row ns p (c k) (c (Suc k))]"
  have w: "write_node ns (Node_of p (c k) (c (Suc k))) = ?ns"
    by (simp add: write_new_node new_row_def)
  have "distinct (map node_id ?ns)"
    using assms(1,3) by (simp add: store_ok_def node_table_ok_def new_row_def)
  then have "exec c (refresh_prog (node_id p)) j (?ns, es') = (Ok (R_node (new_row ns p (c k) (c (Suc k)))), (?ns, es'))" for j es'
    by (intro exec_refresh) (simp_all add: new_row_def)
  then show ?thesis
    using assms by (simp add: register_prog_def exec_node_by_id find_no_row insert_node_def w)
qed

section \<open>The heartbeats\<close>

lemma beat_columns_row:
  "node_row n = n \<Longrightarrow> beat_columns (state n = ONBOARDING) t n = node_row (beaten n t)"
  unfolding beat_columns_def beaten_def by (cases n) (simp add: node_row_def naive_def)

lemma update_row_write:
  assumes "node_table_ok ns" and "rows_stored ns" and "n \<in> set ns"
  shows "update_row (node_pk n) (beat_columns (state n = ONBOARDING) t) ns = write_node ns (beaten n t)"
proof -
  obtain k where k: "node_pk n = Some k" using assms(1,3) by (auto simp: node_table_ok_def)
  have "(if node_pk r = node_pk n then beat_columns (state n = ONBOARDING) t r else r) =
      (if node_pk r = Some k then node_row (beaten n t) else r)" if "r \<in> set ns" for r
    using pk_unique [OF assms(1,3) that] k beat_columns_row assms(2,3) by (auto simp: rows_stored_def)
  then show ?thesis using k by (simp add: update_row_def write_node_def)
qed

lemma update_node_write:
  assumes "node_table_ok ns" and "rows_stored ns" and "n \<in> set ns" and "b \<longleftrightarrow> state n = ONBOARDING"
  shows "update_node n b t evs (ns, es) = Ok (write_node ns (beaten n t), foldl write_event es evs)"
  using update_row_write [OF assms(1-3)] assms(3,4) by (simp add: update_node_def)

lemma exec_beat:
  assumes "store_ok (ns, es)" and "rows_stored ns" and "n \<in> set ns"
  shows "exec c (beat_prog n i) k (ns, es) =
    (Ok (R_node (node_row (beaten n (c k)))), (write_node ns (beaten n (c k)),
      if state n = ONBOARDING then write_event es (activation_event i n (c (Suc k))) else es))"
proof -
  have ok: "node_table_ok ns" using assms(1) by (simp add: store_ok_def)
  then have "distinct (map node_id (write_node ns (beaten n t)))"
    and "node_row (beaten n t) \<in> set (write_node ns (beaten n t))" for t
    using node_table_ok_beaten [OF ok assms(3)] mem.beaten_row_written [OF assms(3)] assms(3)
    by (simp_all add: node_table_ok_def)
  then have r: "exec c (refresh_prog (node_id n)) j (write_node ns (beaten n t), es') =
      (Ok (R_node (node_row (beaten n t))), (write_node ns (beaten n t), es'))" for t j es'
    by (intro exec_refresh) simp_all
  show ?thesis by (simp add: beat_prog_def update_node_write [OF ok assms(2,3)] r)
qed

lemma exec_heartbeat_own:
  assumes "store_ok (ns, es)" and "rows_stored ns" and "n \<in> set ns" and "id_common_name i = common_name n"
  shows "exec c (heartbeat_prog (node_id n) i) k (ns, es) =
    (Ok (R_node (node_row (beaten n (c k)))), (write_node ns (beaten n (c k)),
      if state n = ONBOARDING then write_event es (activation_event i n (c (Suc k))) else es))"
  using exec_beat [OF assms(1-3)] assms
  by (simp add: heartbeat_prog_def exec_node_by_id find_row store_ok_def)

lemma exec_heartbeat_refused:
  assumes "store_ok d" and "n \<in> set (fst d)" and "id_common_name i \<noteq> common_name n"
  shows "exec c (heartbeat_prog (node_id n) i) k d =
     (Raise (HTTPException 403 ''Cannot heartbeat on behalf of another node''),
      (fst d, write_event (snd d) (refusal_event i (''node:'' @ node_id n)
         [(''reason'', PStr ''heartbeat from non-matching identity''), (''claimed_node'', PStr (node_id n))] (c k))))"
  using assms by (simp add: heartbeat_prog_def exec_node_by_id find_row exec_refuse store_ok_def)

lemma exec_heartbeat_unknown:
  assumes "store_ok d" and "x \<notin> node_id ` set (fst d)"
  shows "exec c (heartbeat_prog x i) k d =
     (Raise (HTTPException 404 (''Node '' @ quoted x @ '' not found'')), d)"
  using assms by (simp add: heartbeat_prog_def exec_node_by_id find_no_row)

section \<open>The whole request\<close>

context orm_live begin

text \<open>The programs of the admitted requests, one case per endpoint.\<close>

definition alone :: "controller_settings \<Rightarrow> headers \<Rightarrow> request \<Rightarrow> 'a world \<Rightarrow> response res \<times> db" where
  "alone cfg h req w =
     exec (\<lambda>k. clock w (reads w + k)) (request_prog cfg h (revoked_serials w) req) 0 (durable (abs (sess w)))"

lemma alone_admitted:
  assumes "\<not> allow_unauthenticated cfg" and "identity_of h = Some i" and "live (revoked_serials w) i" and "protected req"
    and "valid_request req"
  shows "alone cfg h req w =
    exec (\<lambda>k. clock w (reads w + k)) (handler_prog cfg req i) 0 (durable (abs (sess w)))"
  using assms by (simp add: alone_def request_prog_def identify_def require_live_prog_def live_def split: option.splits)

lemma alone_register:
  assumes "store_ok (durable (abs (sess w)))" and "\<not> allow_unauthenticated cfg"
    and "identity_of h = Some i" and "live (revoked_serials w) i" and "valid_node_create p"
  shows "\<exists>w'. run_request S cfg h (POST_nodes p) w = (fst (alone cfg h (POST_nodes p) w), w') \<and>
    durable (abs (sess w')) = snd (alone cfg h (POST_nodes p) w)"
proof -
  obtain ns es where d: "durable (abs (sess w)) = (ns, es)" by (cases "durable (abs (sess w))")
  have a: "alone cfg h (POST_nodes p) w =
      exec (\<lambda>k. clock w (reads w + k)) (register_prog p i) 0 (durable (abs (sess w)))"
    using alone_admitted [OF assms(2-4), of "POST_nodes p"] assms(5) by simp
  consider (no) "\<not> may_register i p" | (dup) "may_register i p" "node_id p \<in> node_id ` set ns"
    | (new) "may_register i p" "node_id p \<notin> node_id ` set ns" by blast
  then show ?thesis
  proof cases
    case no
    with request_register_refused_live [OF assms(1,3,4), of p cfg] d show ?thesis by (simp add: a exec_register_refused)
  next
    case dup
    with request_register_duplicate_live [OF assms(1,3,4), of p cfg] d assms(1) show ?thesis
      by (simp add: a exec_register_duplicate)
  next
    case new
    with request_register_live [OF assms(1,3,4), of p cfg] d assms(1) show ?thesis
      by (simp add: a exec_register_new numeral_2_eq_2)
  qed
qed

lemma alone_heartbeat:
  assumes "store_ok (durable (abs (sess w)))" and "rows_stored (fst (durable (abs (sess w))))"
    and "\<not> allow_unauthenticated cfg" and "identity_of h = Some i" and "live (revoked_serials w) i"
  shows "\<exists>w'. run_request S cfg h (POST_heartbeat x p) w = (fst (alone cfg h (POST_heartbeat x p) w), w') \<and>
    durable (abs (sess w')) = snd (alone cfg h (POST_heartbeat x p) w)"
proof -
  obtain ns es where d: "durable (abs (sess w)) = (ns, es)" by (cases "durable (abs (sess w))")
  note a = alone_admitted [OF assms(3-5), of "POST_heartbeat x p"]
  consider (no) "x \<notin> node_id ` set ns"
    | (own) n where "n \<in> set ns" "node_id n = x" "id_common_name i = common_name n"
    | (other) n where "n \<in> set ns" "node_id n = x" "id_common_name i \<noteq> common_name n" by blast
  then show ?thesis
  proof cases
    case no
    with request_heartbeat_unknown_live [OF assms(1,4,5), of x cfg p] d assms(1) show ?thesis
      by (simp add: a exec_heartbeat_unknown)
  next
    case own
    have "store_ok (ns, es)" "rows_stored ns" "n \<in> set (fst (durable (abs (sess w))))" using assms(1,2) d own by simp_all
    then show ?thesis
      using request_heartbeat_own_live [OF assms(1,4,5) _ own(3), of cfg p] own
        exec_heartbeat_own [of ns es n i "\<lambda>k. clock w (reads w + k)" 0]
      by (cases "state n = ONBOARDING") (simp_all add: a d del: run_request.simps)
  next
    case other
    with request_heartbeat_refused_live [OF assms(1,4,5), of n cfg p] d assms(1) show ?thesis
      using exec_heartbeat_refused [of "(ns, es)" n i "\<lambda>k. clock w (reads w + k)" 0] by (simp add: a)
  qed
qed

lemma alone_get_node:
  assumes "store_ok (durable (abs (sess w)))" and "\<not> allow_unauthenticated cfg"
    and "identity_of h = Some i" and "live (revoked_serials w) i"
  shows "\<exists>w'. run_request S cfg h (GET_node x) w = (fst (alone cfg h (GET_node x) w), w') \<and>
    durable (abs (sess w')) = snd (alone cfg h (GET_node x) w)"
  using request_get_node_live [OF assms(1,3,4), of cfg x] alone_admitted [OF assms(2-4), of "GET_node x"] assms(1)
  by (simp add: get_node_prog_def exec_node_by_id split: option.splits)

text \<open>The program of a request, run alone, is the request.\<close>

lemma run_request_alone:
  assumes "store_ok (durable (abs (sess w)))" and "rows_stored (fst (durable (abs (sess w))))"
    and "\<not> allow_unauthenticated cfg" and "\<And>p. req \<noteq> GET_audit p" and "valid_request req"
  shows "\<exists>w'. run_request S cfg h req w = (fst (alone cfg h req w), w') \<and>
    durable (abs (sess w')) = snd (alone cfg h req w)"
proof (cases "protected req")
  case False
  then have "req = GET_health" by (cases req) auto
  then show ?thesis
    by (simp add: alone_def request_prog_def health_prog_def health_def act_map_def bnd_def now_def ret_def)
next
  case True
  show ?thesis
  proof (cases "identity_of h")
    case None
    obtain handler where r: "run_request S cfg h req = MTLSIdentityDep S cfg h handler"
      by (rule protected_request [OF True])
    show ?thesis
      using MTLSIdentityDep_refused [OF None assms(3), of S handler w] None True assms(3)
      by (auto simp: r alone_def request_prog_def identify_def)
  next
    case (Some i)
    show ?thesis
    proof (cases "live (revoked_serials w) i")
      case False
      then obtain n where n: "serial i = Some n" "n \<in> revoked_serials w"
        by (auto simp: live_def split: option.splits)
      then have "alone cfg h req w = (Raise (HTTPException 403 ''Client certificate has been revoked''),
          (fst (durable (abs (sess w))), write_event (snd (durable (abs (sess w))))
             (refusal_event i (''cert:'' @ py_hex n)
                [(''reason'', PStr ''certificate revoked''), (''serial'', PStr (py_hex n))] (clock w (reads w)))))"
        using Some True assms(3) by (simp add: alone_def request_prog_def identify_def require_live_prog_def exec_refuse)
      with request_revoked_live [OF assms(1) Some n True, of cfg] show ?thesis by auto
    next
      case live: True
      note a = alone_admitted [OF assms(3) Some live True assms(5)]
      show ?thesis
      proof (cases req)
        case GET_whoami
        then show ?thesis using request_whoami_live [OF Some live, of cfg] a by simp
      next
        case GET_nodes
        then show ?thesis using request_list_live [OF assms(1) Some live, of cfg] a by (simp add: list_nodes_prog_def)
      next
        case (POST_nodes p)
        then show ?thesis using alone_register [OF assms(1,3) Some live] assms(5) by simp
      next
        case (GET_node x)
        then show ?thesis using alone_get_node [OF assms(1,3) Some live] by simp
      next
        case (POST_heartbeat x p)
        then show ?thesis using alone_heartbeat [OF assms(1,2,3) Some live] by simp
      qed (use True assms(4) in auto)
    qed
  qed
qed

end

end
