(* ===== verification/Interleaving_Races.thy ===== *)
theory Interleaving_Races
  imports Interleaving_Alone
begin

text \<open>
  Schedules of the interleaved controller: every request comes to an end, and two requests about
  the same node whose queries both precede the first commit.
\<close>

section \<open>Every request ends\<close>

text \<open>At most \<open>m\<close> steps are left to a program, whatever it reads and whatever its transaction gives.\<close>

fun ends_in :: "nat \<Rightarrow> ('d, 'r) prog \<Rightarrow> bool" where
  "ends_in m (Finish r) \<longleftrightarrow> True"
| "ends_in 0 p \<longleftrightarrow> False"
| "ends_in (Suc m) (Select f) \<longleftrightarrow> (\<forall>d. ends_in m (f d))"
| "ends_in (Suc m) (Clock f) \<longleftrightarrow> (\<forall>t. ends_in m (f t))"
| "ends_in (Suc m) (Transact g p) \<longleftrightarrow> ends_in m p"

lemma ends_in_0: "ends_in 0 p \<longleftrightarrow> (\<exists>r. p = Finish r)"
  by (cases p) auto

lemma ends_in_mono: "ends_in m p \<Longrightarrow> m \<le> k \<Longrightarrow> ends_in k p"
proof (induction m p arbitrary: k rule: ends_in.induct)
  case (3 m f) then show ?case by (cases k) auto
next
  case (4 m f) then show ?case by (cases k) auto
next
  case (5 m g p) then show ?case by (cases k) auto
qed auto

lemma ends_in_step: "ends_in (Suc m) p \<Longrightarrow> ends_in m (fst (prog_step t p d))"
  by (cases p) (auto split: res.splits)

lemma ends_in_break: "ends_in m p \<Longrightarrow> ends_in m (prog_break e p)"
  by (cases p; cases m) auto

lemma ends_in_refresh: "ends_in (Suc m) (refresh_prog x)"
  by (auto simp: refresh_prog_def split: option.splits)

lemma ends_in_refuse: "ends_in (Suc (Suc m)) (refuse_prog i tgt det e)"
  by (cases m) (simp_all add: refuse_prog_def)

lemma ends_in_node_by_id: "(\<And>r. ends_in m (f r)) \<Longrightarrow> ends_in (Suc m) (node_by_id_prog x f)"
  by (auto simp: node_by_id_prog_def split: res.splits)

lemma ends_in_handler: "ends_in 6 (handler_prog cfg req i)"
proof (cases req)
  case (POST_nodes p)
  have "ends_in 6 (node_by_id_prog (node_id p) (\<lambda>existing.
        if existing \<noteq> None
        then Finish (Raise (HTTPException 409 (''Node '' @ quoted (node_id p) @ '' is already registered'')))
        else Clock (\<lambda>t1. Clock (\<lambda>t2. Clock (\<lambda>t3.
               Transact (insert_node i p t1 t2 t3) (refresh_prog (node_id p)))))))"
    by (simp add: eval_nat_numeral ends_in_node_by_id ends_in_refresh)
  then show ?thesis using POST_nodes by (simp add: register_prog_def ends_in_refuse eval_nat_numeral)
next
  case (POST_heartbeat x p)
  have "ends_in 5 (beat_prog n i)" for n
    by (simp add: beat_prog_def eval_nat_numeral ends_in_refresh)
  then have "ends_in 6 (heartbeat_prog x i)"
    by (simp add: heartbeat_prog_def eval_nat_numeral ends_in_node_by_id ends_in_refuse split: option.splits)
  then show ?thesis using POST_heartbeat by simp
next
  case (GET_node x)
  have "ends_in 6 (get_node_prog x)"
    unfolding get_node_prog_def eval_nat_numeral by (rule ends_in_node_by_id) (simp split: option.splits)
  then show ?thesis using GET_node by simp
qed (simp_all add: eval_nat_numeral health_prog_def list_nodes_prog_def list_audit_prog_def)

lemma ends_in_request: "ends_in 6 (request_prog cfg h R req)"
  using ends_in_handler
  by (auto simp: request_prog_def require_live_prog_def health_prog_def eval_nat_numeral ends_in_refuse split: res.splits option.splits)

text \<open>How often a schedule lets the task at a position go on.\<close>

definition turns :: "nat \<Rightarrow> event list \<Rightarrow> nat" where
  "turns j evs = length (filter (\<lambda>e. \<exists>t. e = Resume j t) evs)"

lemma resume_task:
  assumes "j < length (tasks s)"
  shows "snd (tasks (resume k t s) ! j) =
    (if k = j then fst (prog_step t (snd (tasks s ! j)) (committed s)) else snd (tasks s ! j))"
  using assms by (auto simp: resume_def split: prod.splits)

lemma break_task:
  assumes "j < length (tasks s)"
  shows "snd (tasks (break_off k e s) ! j) = (if k = j then prog_break e (snd (tasks s ! j)) else snd (tasks s ! j))"
  using assms by (auto simp: break_off_def split: prod.splits)

lemma server_step_tasks:
  "length (tasks (s_pool s)) \<le> length (tasks (s_pool (server_step cfg e s)))"
  by (cases e) (auto simp: spawn_def resume_def break_off_def split: prod.splits)

lemma server_step_ends:
  assumes "j < length (tasks (s_pool s))" and "ends_in m (s_task s j)"
  shows "ends_in (m - turns j [e]) (s_task (server_step cfg e s) j)"
proof (cases e)
  case (Resume k t)
  show ?thesis
  proof (cases m)
    case 0
    then obtain r where "s_task s j = Finish r" using assms(2) ends_in_0 by blast
    then show ?thesis using Resume assms(1) by (simp add: s_task_def resume_task)
  next
    case (Suc m')
    then show ?thesis
      using Resume assms ends_in_step [of m' "s_task s j" t "committed (s_pool s)"]
      by (auto simp: s_task_def resume_task turns_def)
  qed
qed (use assms ends_in_break in \<open>auto simp: s_task_def turns_def spawn_def nth_append break_task\<close>)

lemma server_run_ends:
  "j < length (tasks (s_pool s)) \<Longrightarrow> ends_in m (s_task s j) \<Longrightarrow>
     ends_in (m - turns j evs) (s_task (server_run cfg evs s) j)"
proof (induction evs arbitrary: s m)
  case (Cons e evs)
  have "j < length (tasks (s_pool (server_step cfg e s)))"
    using Cons.prems(1) server_step_tasks [of s cfg e] by simp
  from Cons.IH [OF this server_step_ends [OF Cons.prems]]
  have "ends_in (m - turns j [e] - turns j evs) (s_task (server_run cfg (e # evs) s) j)" by simp
  moreover have "m - turns j [e] - turns j evs = m - turns j (e # evs)" by (simp add: turns_def)
  ultimately show ?case by simp
qed (simp add: turns_def)

lemma request_ends:
  assumes "j = length (tasks (s_pool s))" and "6 \<le> turns j evs"
  shows "\<exists>r. s_task (server_run cfg evs (server_step cfg (Arrive h req) s)) j = Finish r"
proof -
  let ?s = "server_step cfg (Arrive h req) s"
  have "j < length (tasks (s_pool ?s))" "ends_in 6 (s_task ?s j)"
    using assms(1) ends_in_request by (simp_all add: spawn_def s_task_def)
  from server_run_ends [OF this, of evs cfg] assms(2) show ?thesis by (simp add: ends_in_0)
qed

section \<open>Two heartbeats of an onboarding node\<close>

text \<open>The tasks of a process with two of them, and its state after each kind of event.\<close>

definition two :: "int set \<Rightarrow> db \<Rightarrow> (db, response) prog \<Rightarrow> (db, response) prog \<Rightarrow> admission \<Rightarrow> admission \<Rightarrow> server" where
  "two R d p q a b = \<lparr>s_pool = \<lparr>committed = d, tasks = [(a, p), (b, q)]\<rparr>, s_revoked = R\<rparr>"

lemma two_arrive:
  "\<exists>a b. server_run cfg [Arrive h req, Arrive h' req'] (server_start d R) =
     two R d (request_prog cfg h R req) (request_prog cfg h' R req') a b"
  by (auto simp: two_def server_start_def spawn_def)

lemma two_resume:
  "server_step cfg (Resume 0 t) (two R d p q a b) = (case prog_step t p d of (p', d') \<Rightarrow> two R d' p' q a b)"
  "server_step cfg (Resume (Suc 0) t) (two R d p q a b) = (case prog_step t q d of (q', d') \<Rightarrow> two R d' p q' a b)"
  by (simp_all add: two_def resume_def split: prod.splits)

lemma two_fields [simp]:
  "s_db (two R d p q a b) = d" "s_task (two R d p q a b) 0 = p" "s_task (two R d p q a b) (Suc 0) = q"
  by (simp_all add: two_def s_db_def s_task_def)

text \<open>Both queries first, then one request to its end, then the other.\<close>

definition overlap :: "headers \<Rightarrow> request \<Rightarrow> headers \<Rightarrow> request \<Rightarrow> int \<Rightarrow> int \<Rightarrow> event list" where
  "overlap h req h' req' t u =
     [Arrive h req, Arrive h' req', Resume 0 t, Resume 1 u] @
     replicate 5 (Resume 0 t) @ replicate 5 (Resume 1 u)"

lemma server_run_append: "server_run cfg (as @ bs) s = server_run cfg bs (server_run cfg as s)"
  by (induction as arbitrary: s) simp_all

lemma prog_step_node_by_id:
  assumes "store_ok d"
  shows "prog_step t (node_by_id_prog x f) d = (f (find (\<lambda>n. node_id n = x) (fst d)), d)"
  using assms by (simp add: node_by_id_prog_def scalar_one_or_none_find store_ok_def node_table_ok_def)

lemma prog_step_refresh:
  assumes "node_table_ok (fst d)" and "n \<in> set (fst d)" and "node_id n = x"
  shows "prog_step t (refresh_prog x) d = (Finish (Ok (R_node n)), d)"
  using find_row [OF assms(1,2)] assms(3) by (simp add: refresh_prog_def)

lemma request_prog_admitted:
  assumes "\<not> allow_unauthenticated cfg" and "identity_of h = Some i" and "live R i"
    and "protected req" and "valid_request req"
  shows "request_prog cfg h R req = handler_prog cfg req i"
  using assms by (simp add: request_prog_def identify_def require_live_prog_def live_def split: option.splits)

lemma updated_row:
  assumes "node_table_ok ns" and "n \<in> set ns" and "node_pk m = node_pk n"
  shows "node_table_ok (update_row (node_pk m) (beat_columns b t) ns)"
    and "beat_columns b t n \<in> set (update_row (node_pk m) (beat_columns b t) ns)"
  using node_table_ok_update [OF assms(1)] assms(2,3) by (force simp: update_row_def)+

lemma overlapping_beats:
  assumes "store_ok (ns, es)" and "n \<in> set ns" and "state n = ONBOARDING"
    and "\<not> allow_unauthenticated cfg" and "identity_of h = Some i" and "live R i"
    and "id_common_name i = common_name n"
    and s_def: "s = server_run cfg (overlap h (POST_heartbeat (node_id n) p) h (POST_heartbeat (node_id n) q) t u)
      (server_start (ns, es) R)"
  shows "s_task s 0 = Finish (Ok (R_node (beat_columns True t n)))"
    and "s_task s 1 = Finish (Ok (R_node (beat_columns True u (beat_columns True t n))))"
    and "snd (s_db s) = write_event (write_event es (activation_event i n t)) (activation_event i n u)"
proof -
  have ok: "node_table_ok ns" using assms(1) by (simp add: store_ok_def)
  let ?P = "request_prog cfg h R (POST_heartbeat (node_id n) p)"
  have P: "request_prog cfg h R (POST_heartbeat (node_id n) x) = heartbeat_prog (node_id n) i" for x
    using request_prog_admitted [OF assms(4-6), of "POST_heartbeat (node_id n) x"] by simp
  have sel: "prog_step v (heartbeat_prog (node_id n) i) (ns, es) = (beat_prog n i, (ns, es))" for v
    using assms(1,2,7) ok by (simp add: heartbeat_prog_def prog_step_node_by_id find_row)
  let ?ns1 = "update_row (node_pk n) (beat_columns True t) ns" and ?n1 = "beat_columns True t n"
  let ?ns2 = "update_row (node_pk n) (beat_columns True u) ?ns1" and ?n2 = "beat_columns True u ?n1"
  note r1 = updated_row [OF ok assms(2) refl, of True t]
  have "node_pk n = node_pk ?n1" by simp
  note r2 = updated_row [OF r1 this, of True u]
  have ref1: "prog_step v (refresh_prog (node_id n)) (?ns1, e) = (Finish (Ok (R_node ?n1)), (?ns1, e))" for v e
    by (rule prog_step_refresh) (simp_all only: fst_conv r1 beat_columns_fields)
  have ref2: "prog_step v (refresh_prog (node_id n)) (?ns2, e) = (Finish (Ok (R_node ?n2)), (?ns2, e))" for v e
    by (rule prog_step_refresh) (simp_all only: fst_conv r2 beat_columns_fields)
  have up1: "update_node n True t [activation_event i n t] (ns, e) = Ok (?ns1, write_event e (activation_event i n t))" for e
    using assms(2) by (simp add: update_node_def)
  have "node_pk n \<in> node_pk ` set ?ns1" using assms(2) by simp
  then have up2: "update_node n True u [activation_event i n u] (?ns1, e) = Ok (?ns2, write_event e (activation_event i n u))" for e
    by (simp only: update_node_def) simp
  obtain a b where start: "server_run cfg [Arrive h (POST_heartbeat (node_id n) p), Arrive h (POST_heartbeat (node_id n) q)]
      (server_start (ns, es) R) = two R (ns, es) (heartbeat_prog (node_id n) i) (heartbeat_prog (node_id n) i) a b"
    using two_arrive [of cfg h _ h _ "(ns, es)" R] P by metis
  have "s = server_run cfg ([Resume 0 t, Resume 1 u] @ replicate 5 (Resume 0 t) @ replicate 5 (Resume 1 u))
      (server_run cfg [Arrive h (POST_heartbeat (node_id n) p), Arrive h (POST_heartbeat (node_id n) q)] (server_start (ns, es) R))"
    unfolding s_def overlap_def by (simp only: server_run_append [symmetric] append.simps)
  also have "\<dots> = two R (?ns2, write_event (write_event es (activation_event i n t)) (activation_event i n u))
      (Finish (Ok (R_node ?n1))) (Finish (Ok (R_node ?n2))) a b"
    unfolding start
    by (simp add: eval_nat_numeral two_resume sel beat_prog_def assms(3) up1 up2 ref1 ref2 del: server_step.simps)
  finally have s: "s = two R (?ns2, write_event (write_event es (activation_event i n t)) (activation_event i n u))
      (Finish (Ok (R_node ?n1))) (Finish (Ok (R_node ?n2))) a b" .
  show "s_task s 0 = Finish (Ok (R_node (beat_columns True t n)))"
    and "s_task s 1 = Finish (Ok (R_node (beat_columns True u (beat_columns True t n))))"
    and "snd (s_db s) = write_event (write_event es (activation_event i n t)) (activation_event i n u)"
    unfolding s by simp_all
qed

section \<open>Two registrations of one node\<close>

lemma overlapping_creates:
  assumes "store_ok (ns, es)" and "node_id p \<notin> node_id ` set ns"
    and "\<not> allow_unauthenticated cfg" and "valid_node_create p"
    and "identity_of h = Some i" and "live R i" and "may_register i p"
    and "identity_of h' = Some i'" and "live R i'" and "may_register i' p"
    and s_def: "s = server_run cfg (overlap h (POST_nodes p) h' (POST_nodes p) t u) (server_start (ns, es) R)"
  shows "s_task s 0 = Finish (Ok (R_node (new_row ns p t t)))"
    and "s_task s 1 = Finish (Raise IntegrityError)"
    and "s_db s = (ns @ [new_row ns p t t], write_event es (register_event i p t))"
proof -
  let ?row = "new_row ns p t t" and ?es = "write_event es (register_event i p t)"
  define create where "create = (\<lambda>i. Clock (\<lambda>t1. Clock (\<lambda>t2. Clock (\<lambda>t3.
      Transact (insert_node i p t1 t2 t3) (refresh_prog (node_id p))))))"
  have P: "request_prog cfg h R (POST_nodes p) = register_prog p i"
    "request_prog cfg h' R (POST_nodes p) = register_prog p i'"
    using request_prog_admitted [OF assms(3,5,6), of "POST_nodes p"]
      request_prog_admitted [OF assms(3,8,9), of "POST_nodes p"] assms(4) by simp_all
  have sel: "prog_step v (register_prog p j) (ns, es) = (create j, (ns, es))" if "may_register j p" for v j
    using that assms(1,2) by (simp add: register_prog_def prog_step_node_by_id find_no_row create_def)
  have ins: "insert_node i p t t t (ns, es) = Ok (ns @ [?row], ?es)"
    using assms(2) by (simp add: insert_node_def write_new_node new_row_def)
  have dup: "insert_node j p v v v (ns @ [?row], ?es) = Raise IntegrityError" for j v
    by (simp add: insert_node_def new_row_def)
  have "node_table_ok (ns @ [?row])"
    using node_table_ok_enrol [of ns p t t] assms(1,2) by (simp add: store_ok_def write_new_node new_row_def)
  then have ref: "prog_step v (refresh_prog (node_id p)) (ns @ [?row], e) = (Finish (Ok (R_node ?row)), (ns @ [?row], e))" for v e
    by (intro prog_step_refresh) (simp_all add: new_row_def)
  obtain a b where start: "server_run cfg [Arrive h (POST_nodes p), Arrive h' (POST_nodes p)]
      (server_start (ns, es) R) = two R (ns, es) (register_prog p i) (register_prog p i') a b"
    using two_arrive [of cfg h "POST_nodes p" h' "POST_nodes p" "(ns, es)" R] unfolding P by blast
  have "s = server_run cfg ([Resume 0 t, Resume 1 u] @ replicate 5 (Resume 0 t) @ replicate 5 (Resume 1 u))
      (server_run cfg [Arrive h (POST_nodes p), Arrive h' (POST_nodes p)] (server_start (ns, es) R))"
    unfolding s_def overlap_def by (simp only: server_run_append [symmetric] append.simps)
  also have "\<dots> = two R (ns @ [?row], ?es) (Finish (Ok (R_node ?row))) (Finish (Raise IntegrityError)) a b"
    unfolding start
    by (simp add: eval_nat_numeral two_resume sel [OF assms(7)] sel [OF assms(10)] create_def ins dup ref del: server_step.simps)
  finally have s: "s = two R (ns @ [?row], ?es) (Finish (Ok (R_node ?row))) (Finish (Raise IntegrityError)) a b" .
  show "s_task s 0 = Finish (Ok (R_node (new_row ns p t t)))"
    and "s_task s 1 = Finish (Raise IntegrityError)"
    and "s_db s = (ns @ [new_row ns p t t], write_event es (register_event i p t))"
    unfolding s by simp_all
qed

section \<open>Rows changed by one step of the process\<close>

lemma conc_step_rows:
  assumes "conc_step R i req d d'" and "store_ok d" and "n' \<in> set (fst d')" and "n' \<notin> set (fst d)"
  shows "live R i \<and>
    ((\<exists>n x. n \<in> set (fst d) \<and> req = POST_heartbeat (node_id n) x \<and> common_name n = id_common_name i \<and> same_node n n') \<or>
     (\<exists>p. req = POST_nodes p \<and> may_register i p \<and> node_id n' = node_id p \<and> common_name n' = common_name p))"
  using assms
proof (induction rule: conc_step.induct)
  case (c_enrol p ns es t1 t2 t)
  then show ?case by (auto simp: write_new_node)
next
  case (c_activate n ns x es t1 t2)
  then have ok: "node_table_ok ns" by (simp add: store_ok_def)
  from c_activate obtain r where r: "r \<in> set ns" "node_pk r = node_pk n" "n' = beat_columns True t1 r"
    by (auto simp: update_row_def split: if_splits)
  then have "r = n" using pk_unique [OF ok \<open>n \<in> set ns\<close>] by simp
  then have "same_node n n'" using r(3) c_activate(4) by (auto simp: same_node_def)
  then show ?case using c_activate(1,2,3) by auto
next
  case (c_beat n ns x es t)
  then have ok: "node_table_ok ns" by (simp add: store_ok_def)
  from c_beat obtain r where r: "r \<in> set ns" "node_pk r = node_pk n" "n' = beat_columns False t r"
    by (auto simp: update_row_def split: if_splits)
  then have "r = n" using pk_unique [OF ok \<open>n \<in> set ns\<close>] by simp
  then have "same_node n n'" using r(3) by (auto simp: same_node_def)
  then show ?case using c_beat(1,2,3) by auto
qed simp

lemma identify_verified:
  "identify cfg h = Ok i \<Longrightarrow> \<not> allow_unauthenticated cfg \<Longrightarrow> identity_of h = Some i"
  by (auto simp: identify_def split: option.splits)

lemma server_step_rows:
  assumes "server_safe cfg s" and "\<not> allow_unauthenticated cfg"
    and "n' \<in> set (fst (s_db (server_step cfg e s)))" and "n' \<notin> set (fst (s_db s))"
  shows "\<exists>j t a g p i. e = Resume j t \<and> j < length (tasks (s_pool s)) \<and>
    tasks (s_pool s) ! j = (a, Transact g p) \<and> g (s_db s) = Ok (s_db (server_step cfg e s)) \<and>
    identity_of (a_headers a) = Some i \<and> live (a_revoked a) i \<and>
    ((\<exists>n x. n \<in> set (fst (s_db s)) \<and> a_request a = POST_heartbeat (node_id n) x \<and>
        common_name n = id_common_name i \<and> same_node n n') \<or>
     (\<exists>p. a_request a = POST_nodes p \<and> may_register i p \<and> node_id n' = node_id p \<and> common_name n' = common_name p))"
proof -
  have "s_db (server_step cfg e s) \<noteq> s_db s" using assms(3,4) by auto
  from server_step_change [OF assms(1) this] obtain j t a g p where
    ap: "e = Resume j t" "j < length (tasks (s_pool s))" "tasks (s_pool s) ! j = (a, Transact g p)"
      "g (s_db s) = Ok (s_db (server_step cfg e s))"
    and c: "commits cfg a (s_db s) (s_db (server_step cfg e s))" .
  from c obtain i where i: "identify cfg (a_headers a) = Ok i"
    and st: "conc_step (a_revoked a) i (a_request a) (s_db s) (s_db (server_step cfg e s))"
    by (auto simp: commits_def)
  have "store_ok (s_db s)" using assms(1) by (simp add: server_safe_def requests.pool_safe_def tables_ok_def s_db_def)
  from conc_step_rows [OF st this assms(3,4)] identify_verified [OF i assms(2)] ap
  show ?thesis by blast
qed

end
