(* ===== verification/Interleaving_Activations.thy ===== *)
theory Interleaving_Activations
  imports Interleaving_Races
begin

text \<open>
  How many activations of a node overlapping heartbeats can commit: what a program may still add to a
  count is bounded along its steps, and once the row is active only heartbeats that were in progress
  may add one.
\<close>

section \<open>What a program may add to a count\<close>

text \<open>
  \<open>spends I c k p\<close>: whatever \<open>p\<close> finds of what satisfies \<open>I\<close>, its commits add at most \<open>k\<close> to the count
  \<open>c\<close>. \<open>remains I p\<close>: no commit of \<open>p\<close> leaves \<open>I\<close>.
\<close>

primrec spends :: "('d \<Rightarrow> bool) \<Rightarrow> ('d \<Rightarrow> nat) \<Rightarrow> ('d, 'r) prog \<Rightarrow> nat \<Rightarrow> bool" where
  "spends I c (Finish r) = (\<lambda>k. True)"
| "spends I c (Select f) = (\<lambda>k. \<forall>d. I d \<longrightarrow> spends I c (f d) k)"
| "spends I c (Clock f) = (\<lambda>k. \<forall>t. spends I c (f t) k)"
| "spends I c (Transact g p) = (\<lambda>k. \<exists>j \<le> k. (\<forall>d d'. I d \<longrightarrow> g d = Ok d' \<longrightarrow> c d' \<le> c d + j) \<and> spends I c p (k - j))"

primrec remains :: "('d \<Rightarrow> bool) \<Rightarrow> ('d, 'r) prog \<Rightarrow> bool" where
  "remains I (Finish r) = True"
| "remains I (Select f) = (\<forall>d. remains I (f d))"
| "remains I (Clock f) = (\<forall>t. remains I (f t))"
| "remains I (Transact g p) = ((\<forall>d d'. I d \<longrightarrow> g d = Ok d' \<longrightarrow> I d') \<and> remains I p)"

lemma spends_mono: "spends I c p k \<Longrightarrow> k \<le> k' \<Longrightarrow> spends I c p k'"
proof (induction p arbitrary: k k')
  case (Select f)
  then show ?case by (simp add: rangeI) (metis rangeI)
next
  case (Clock f)
  then show ?case by (simp add: rangeI) (metis rangeI)
next
  case (Transact g p)
  then obtain j where j: "j \<le> k" "\<forall>d d'. I d \<longrightarrow> g d = Ok d' \<longrightarrow> c d' \<le> c d + j" "spends I c p (k - j)" by auto
  have "spends I c p (k' - j)" by (rule Transact.IH [OF j(3)]) (use Transact.prems(2) in simp)
  moreover have "j \<le> k'" using j(1) Transact.prems(2) by simp
  ultimately have "\<exists>j \<le> k'. (\<forall>d d'. I d \<longrightarrow> g d = Ok d' \<longrightarrow> c d' \<le> c d + j) \<and> spends I c p (k' - j)"
    using j(2) by blast
  then show ?case by simp
qed simp

lemma spends_under: "spends (\<lambda>_. True) c p k \<Longrightarrow> spends I c p k"
  by (induction p arbitrary: k) auto

lemma spends_step:
  assumes "spends I c p k" and "I d" and "prog_step t p d = (p', d')"
  obtains j where "j \<le> k" and "c d' \<le> c d + j" and "spends I c p' (k - j)"
proof (cases p)
  case (Transact g q)
  then obtain j where j: "j \<le> k" "\<forall>d d'. I d \<longrightarrow> g d = Ok d' \<longrightarrow> c d' \<le> c d + j" "spends I c q (k - j)"
    using assms(1) by auto
  show thesis
  proof (cases "g d")
    case (Ok e)
    then show thesis using Transact assms(2,3) j by (intro that [of j]) auto
  next
    case (Raise e)
    then show thesis using Transact assms(3) by (intro that [of 0]) auto
  qed
qed (use assms that [of 0] in auto)

lemma spends_break: "spends I c p k \<Longrightarrow> spends I c (prog_break e p) k"
  by (cases p) auto

lemma stable_step: "remains I p \<Longrightarrow> I d \<Longrightarrow> prog_step t p d = (p', d') \<Longrightarrow> remains I p' \<and> I d'"
  by (cases p) (auto split: res.splits)

lemma stable_step_any: "remains I p \<Longrightarrow> remains I (fst (prog_step t p d))"
  by (cases p) (auto split: res.splits)

lemma stable_break: "remains I p \<Longrightarrow> remains I (prog_break e p)"
  by (cases p) auto

section \<open>Pools\<close>

text \<open>The tasks of a pool with what each may still add.\<close>

definition affordable :: "('d \<Rightarrow> bool) \<Rightarrow> ('d \<Rightarrow> nat) \<Rightarrow> nat list \<Rightarrow> ('d, 'k, 'r) pool \<Rightarrow> bool" where
  "affordable I c ks s \<longleftrightarrow> list_all2 (\<lambda>(a, p) k. remains I p \<and> spends I c p k) (tasks s) ks"

lemma affordable_spawn:
  "affordable I c ks s \<Longrightarrow> remains I p \<Longrightarrow> spends I c p k \<Longrightarrow> affordable I c (ks @ [k]) (spawn a p s)"
  by (simp add: affordable_def spawn_def list_all2_appendI)

lemma affordable_break:
  assumes "affordable I c ks s"
  shows "affordable I c ks (break_off j e s)"
proof (cases "j < length (tasks s)")
  case True
  obtain a p where ap: "tasks s ! j = (a, p)" by fastforce
  have "j < length ks" using assms True by (simp add: affordable_def list_all2_lengthD)
  then have "remains I p \<and> spends I c p (ks ! j)"
    using assms True ap by (auto simp: affordable_def list_all2_conv_all_nth)
  then have "list_all2 (\<lambda>(a, p) k. remains I p \<and> spends I c p k) ((tasks s)[j := (a, prog_break e p)]) (ks[j := ks ! j])"
    using assms by (intro list_all2_update_cong) (auto simp: affordable_def spends_break stable_break)
  then show ?thesis using True ap by (simp add: affordable_def break_off_def)
qed (use assms in \<open>simp add: break_off_def\<close>)

lemma committed_break [simp]: "committed (break_off j e s) = committed s"
  by (simp add: break_off_def split: prod.splits)

lemma affordable_resume:
  assumes "affordable I c ks s" and "I (committed s)"
  obtains ks' where "affordable I c ks' (resume j t s)" and "I (committed (resume j t s))"
    and "c (committed (resume j t s)) + sum_list ks' \<le> c (committed s) + sum_list ks"
proof (cases "j < length (tasks s)")
  case True
  obtain a p where ap: "tasks s ! j = (a, p)" by fastforce
  have j: "j < length ks" using assms True by (simp add: affordable_def list_all2_lengthD)
  then have p: "remains I p" "spends I c p (ks ! j)"
    using assms True ap by (auto simp: affordable_def list_all2_conv_all_nth)
  obtain p' d where st: "prog_step t p (committed s) = (p', d)" by fastforce
  obtain i where i: "i \<le> ks ! j" "c d \<le> c (committed s) + i" "spends I c p' (ks ! j - i)"
    by (rule spends_step [OF p(2) assms(2) st])
  have s': "resume j t s = s\<lparr>committed := d, tasks := (tasks s)[j := (a, p')]\<rparr>"
    using True ap st by (simp add: resume_def)
  have "list_all2 (\<lambda>(a, p) k. remains I p \<and> spends I c p k) ((tasks s)[j := (a, p')]) (ks[j := ks ! j - i])"
    using assms i stable_step [OF p(1) assms(2) st] by (intro list_all2_update_cong) (auto simp: affordable_def)
  moreover have "sum_list (ks[j := ks ! j - i]) + i = sum_list ks"
    using i(1) j elem_le_sum_list [OF j] by (simp add: sum_list_update)
  ultimately show thesis
    using i stable_step [OF p(1) assms(2) st] by (intro that [of "ks[j := ks ! j - i]"]) (auto simp: s' affordable_def)
qed (use assms that [of ks] in \<open>simp add: resume_def\<close>)

section \<open>The requests\<close>

text \<open>The node is in the table and past onboarding.\<close>

definition active :: "string \<Rightarrow> db \<Rightarrow> bool" where
  "active x d \<longleftrightarrow> x \<in> node_id ` set (fst d) \<and> (\<forall>n \<in> set (fst d). node_id n = x \<longrightarrow> state n \<noteq> ONBOARDING)"

definition activated :: "string \<Rightarrow> db \<Rightarrow> nat" where
  "activated x d = activations x (snd d)"

lemma active_update:
  assumes "active x (ns, es)"
  shows "active x (update_row k (beat_columns a t) ns, es')"
proof -
  have "state r \<noteq> ONBOARDING" if r: "r \<in> set (update_row k (beat_columns a t) ns)" "node_id r = x" for r
  proof -
    obtain n where "n \<in> set ns" "r = (if node_pk n = k then beat_columns a t n else n)"
      using r(1) by (auto simp: update_row_def)
    then show ?thesis using assms r(2) by (auto simp: active_def split: if_splits)
  qed
  then show ?thesis using assms by (simp add: active_def)
qed

lemma stable_refresh: "remains I (refresh_prog x)"
  by (auto simp: refresh_prog_def split: option.splits)

lemma spends_refresh: "spends I c (refresh_prog x) k"
  by (auto simp: refresh_prog_def split: option.splits)

lemma stable_refuse: "remains (active x) (refuse_prog i tgt det e)"
  by (auto simp: refuse_prog_def active_def)

lemma spends_refuse: "spends I (activated x) (refuse_prog i tgt det e) 0"
  by (auto simp: refuse_prog_def activated_def activations_write_event refusal_event_def)

lemma stable_node_by_id: "(\<And>r. remains I (f r)) \<Longrightarrow> remains I (node_by_id_prog x f)"
  by (auto simp: node_by_id_prog_def split: res.splits)

lemma spends_node_by_id:
  assumes "spends I c (f None) k"
    and "\<And>n d. I d \<Longrightarrow> n \<in> set (fst d) \<Longrightarrow> node_id n = x \<Longrightarrow> spends I c (f (Some n)) k"
  shows "spends I c (node_by_id_prog x f) k"
proof -
  have "spends I c (case scalar_one_or_none (filter (\<lambda>n. node_id n = x) (fst d)) of Ok r \<Rightarrow> f r | Raise e \<Rightarrow> Finish (Raise e)) k"
    if "I d" for d
  proof (cases "filter (\<lambda>n. node_id n = x) (fst d)" rule: scalar_one_or_none.cases)
    case (2 n)
    then have "n \<in> set (filter (\<lambda>n. node_id n = x) (fst d))" by simp
    then have "n \<in> set (fst d) \<and> node_id n = x" by simp
    then show ?thesis using 2 assms(2) [OF that] by simp
  qed (use assms(1) in simp_all)
  then show ?thesis unfolding node_by_id_prog_def spends.simps by blast
qed

lemma stable_handler: "remains (active x) (handler_prog cfg req i)"
proof (cases req)
  case (POST_nodes p)
  have "active x d'" if "active x d" "insert_node i p t1 t2 t3 d = Ok d'" for d d' t1 t2 t3
    using that by (auto simp: insert_node_def active_def write_node_def split: prod.splits if_splits)
  then show ?thesis
    using POST_nodes by (auto simp: register_prog_def stable_refuse stable_refresh intro!: stable_node_by_id)
next
  case (POST_heartbeat y q)
  have "active x d'" if "active x d" "update_node n a t evs d = Ok d'" for d d' n a t evs
    using that active_update by (auto simp: update_node_def split: prod.splits if_splits)
  then have "remains (active x) (beat_prog n i)" for n
    by (auto simp: beat_prog_def stable_refresh)
  then show ?thesis
    using POST_heartbeat by (auto simp: heartbeat_prog_def stable_refuse intro!: stable_node_by_id split: option.splits)
next
  case (GET_node y)
  then show ?thesis by (auto simp: get_node_prog_def intro!: stable_node_by_id split: option.splits)
qed (auto simp: health_prog_def list_nodes_prog_def list_audit_prog_def)

lemma stable_request: "remains (active x) (request_prog cfg h R req)"
  using stable_handler [of x cfg req]
  by (auto simp: request_prog_def require_live_prog_def health_prog_def stable_refuse split: res.splits option.splits)

text \<open>A heartbeat may activate the node it names, once; if the row it read is active, not at all.\<close>

lemma spends_beat:
  shows "spends I (activated x) (beat_prog n i) (if node_id n = x \<and> state n = ONBOARDING then 1 else 0)"
proof (cases "state n = ONBOARDING")
  case False
  then show ?thesis
    by (auto simp: beat_prog_def spends_refresh update_node_def activated_def split: prod.splits if_splits)
next
  case True
  have "activated x d' \<le> activated x d + (if node_id n = x then 1 else 0)"
    if "update_node n True t1 [activation_event i n t2] d = Ok d'" for d d' t1 t2
    using that by (auto simp: update_node_def activated_def activations_write_event split: prod.splits if_splits)
  then show ?thesis
    using True by (auto simp: beat_prog_def spends_refresh intro!: exI [of _ "if node_id n = x then 1 else 0"])
qed

fun beats_node :: "string \<Rightarrow> request \<Rightarrow> bool" where
  "beats_node x (POST_heartbeat y p) \<longleftrightarrow> y = x"
| "beats_node x req \<longleftrightarrow> False"

lemma spends_other_handlers:
  assumes "\<And>y p. req \<noteq> POST_heartbeat y p"
  shows "spends I (activated x) (handler_prog cfg req i) 0"
proof (cases req)
  case (POST_nodes p)
  have "activated x d' \<le> activated x d" if "insert_node i p t1 t2 t3 d = Ok d'" for d d' t1 t2 t3
    using that by (auto simp: insert_node_def activated_def activations_write_event split: prod.splits if_splits)
  then show ?thesis
    using POST_nodes by (auto simp: register_prog_def spends_refuse spends_refresh intro!: spends_node_by_id)
next
  case (GET_node y)
  then show ?thesis by (auto simp: get_node_prog_def intro!: spends_node_by_id)
qed (use assms in \<open>auto simp: health_prog_def list_nodes_prog_def list_audit_prog_def\<close>)

lemma spends_heartbeat:
  assumes "\<And>n d. I d \<Longrightarrow> n \<in> set (fst d) \<Longrightarrow> node_id n = y \<Longrightarrow> spends I (activated x) (beat_prog n i) k"
  shows "spends I (activated x) (heartbeat_prog y i) k"
  unfolding heartbeat_prog_def
proof (rule spends_node_by_id)
  fix n d
  assume "I d" "n \<in> set (fst d)" "node_id n = y"
  from assms [OF this] spends_mono [OF spends_refuse]
  show "spends I (activated x) (case Some n of
        None \<Rightarrow> Finish (Raise (HTTPException 404 (''Node '' @ quoted y @ '' not found'')))
      | Some n \<Rightarrow>
          if id_common_name i \<noteq> common_name n
          then refuse_prog i (''node:'' @ y)
                 [(''reason'', PStr ''heartbeat from non-matching identity''), (''claimed_node'', PStr y)]
                 (HTTPException 403 ''Cannot heartbeat on behalf of another node'')
          else beat_prog n i) k"
    by auto
qed simp

lemma spends_handler: "spends I (activated x) (handler_prog cfg req i) (if beats_node x req then 1 else 0)"
proof (cases "\<exists>y p. req = POST_heartbeat y p")
  case True
  then obtain y p where r: "req = POST_heartbeat y p" by blast
  have "spends I (activated x) (beat_prog n i) (if y = x then 1 else 0)" if "node_id n = y" for n
    by (rule spends_mono [OF spends_beat]) (use that in auto)
  then show ?thesis using r by (auto intro!: spends_heartbeat)
next
  case False
  then show ?thesis using spends_mono [OF spends_other_handlers] by blast
qed

lemma spends_handler_active: "spends (active x) (activated x) (handler_prog cfg req i) 0"
proof (cases "\<exists>y p. req = POST_heartbeat y p")
  case True
  then obtain y p where r: "req = POST_heartbeat y p" by blast
  have "spends (active x) (activated x) (beat_prog n i) 0" if "active x d" "n \<in> set (fst d)" "node_id n = y" for n d
    by (rule spends_mono [OF spends_beat]) (use that in \<open>auto simp: active_def\<close>)
  then show ?thesis using r by (auto intro!: spends_heartbeat)
qed (use spends_other_handlers in blast)

lemma spends_request:
  "spends I (activated x) (request_prog cfg h R req) (if beats_node x req then 1 else 0)"
  "spends (active x) (activated x) (request_prog cfg h R req) 0"
  using spends_handler [of I x cfg req] spends_handler_active [of x cfg req] spends_mono [OF spends_refuse]
  by (auto simp: request_prog_def require_live_prog_def health_prog_def split: res.splits option.splits)

section \<open>The process\<close>

text \<open>The heartbeats of a node that are in progress.\<close>

fun in_progress :: "('d, 'r) prog \<Rightarrow> bool" where
  "in_progress (Finish r) = False"
| "in_progress _ = True"

definition beating :: "string \<Rightarrow> admission \<times> (db, response) prog \<Rightarrow> bool" where
  "beating x = (\<lambda>(a, p). beats_node x (a_request a) \<and> in_progress p)"

definition beats_in_progress :: "string \<Rightarrow> server \<Rightarrow> nat" where
  "beats_in_progress x s = length (filter (beating x) (tasks (s_pool s)))"

definition task_bounded :: "string \<Rightarrow> admission \<times> (db, response) prog \<Rightarrow> bool" where
  "task_bounded x = (\<lambda>(a, p). remains (active x) p \<and>
     spends (\<lambda>_. True) (activated x) p (if beats_node x (a_request a) then 1 else 0))"

definition tasks_bounded :: "string \<Rightarrow> server \<Rightarrow> bool" where
  "tasks_bounded x s \<longleftrightarrow> (\<forall>t \<in> set (tasks (s_pool s)). task_bounded x t)"

lemma task_bounded_step:
  assumes "task_bounded x (a, p)"
  shows "task_bounded x (a, fst (prog_step t p d))"
proof -
  obtain p' d' where st: "prog_step t p d = (p', d')" by (cases "prog_step t p d")
  have "spends (\<lambda>_. True) (activated x) p (if beats_node x (a_request a) then 1 else 0)"
    using assms by (simp add: task_bounded_def)
  from spends_step [OF this _ st] obtain j where
    "spends (\<lambda>_. True) (activated x) p' ((if beats_node x (a_request a) then 1 else 0) - j)" by auto
  from spends_mono [OF this, of "if beats_node x (a_request a) then 1 else 0"]
  show ?thesis using assms stable_step_any [of "active x" p t d] st by (simp add: task_bounded_def)
qed

lemma tasks_bounded_step:
  assumes "tasks_bounded x s"
  shows "tasks_bounded x (server_step cfg e s)"
proof (cases e)
  case (Arrive h req)
  then show ?thesis
    using assms stable_request spends_request(1) by (auto simp: tasks_bounded_def spawn_def task_bounded_def)
next
  case (Resume j t)
  show ?thesis
  proof (cases "j < length (tasks (s_pool s))")
    case True
    obtain a p where ap: "tasks (s_pool s) ! j = (a, p)" by fastforce
    obtain p' d where st: "prog_step t p (committed (s_pool s)) = (p', d)" by (cases "prog_step t p (committed (s_pool s))")
    have "task_bounded x (a, p)" using assms True ap nth_mem [OF True] by (simp add: tasks_bounded_def)
    from task_bounded_step [OF this, of t "committed (s_pool s)"] have "task_bounded x (a, p')" using st by simp
    then show ?thesis
      using assms Resume True ap st set_update_subset_insert [of "tasks (s_pool s)" j "(a, p')"]
      by (auto simp: tasks_bounded_def resume_def)
  qed (use assms Resume in \<open>simp add: tasks_bounded_def resume_def\<close>)
next
  case (Break j e)
  show ?thesis
  proof (cases "j < length (tasks (s_pool s))")
    case True
    obtain a p where ap: "tasks (s_pool s) ! j = (a, p)" by fastforce
    have "task_bounded x (a, p)" using assms True ap nth_mem [OF True] by (simp add: tasks_bounded_def)
    then have "task_bounded x (a, prog_break e p)" by (simp add: task_bounded_def stable_break spends_break)
    then show ?thesis
      using assms Break True ap set_update_subset_insert [of "tasks (s_pool s)" j "(a, prog_break e p)"]
      by (auto simp: tasks_bounded_def break_off_def)
  qed (use assms Break in \<open>simp add: tasks_bounded_def break_off_def\<close>)
next
  case (New_crl R)
  then show ?thesis using assms by (simp add: tasks_bounded_def)
qed

lemma tasks_bounded_run: "tasks_bounded x s \<Longrightarrow> tasks_bounded x (server_run cfg evs s)"
  by (induction evs arbitrary: s) (simp_all add: tasks_bounded_step)

lemma tasks_bounded_start: "tasks_bounded x (server_start d R)"
  by (simp add: tasks_bounded_def server_start_def)

lemma affordable_tasks:
  assumes "tasks_bounded x s"
  shows "affordable (active x) (activated x) (map (\<lambda>t. if beating x t then 1 else 0) (tasks (s_pool s))) (s_pool s)"
proof -
  have "remains (active x) p \<and> spends (active x) (activated x) p (if beating x (a, p) then 1 else 0)"
    if "task_bounded x (a, p)" for a p
    using that by (cases p) (auto simp: task_bounded_def beating_def intro: spends_under simp del: spends.simps(2-4))
  then have "list_all (\<lambda>t. case t of (a, p) \<Rightarrow> remains (active x) p \<and>
      spends (active x) (activated x) p (if beating x t then 1 else 0)) (tasks (s_pool s))"
    using assms by (fastforce simp: list_all_iff tasks_bounded_def)
  then show ?thesis
    unfolding affordable_def list_all2_map2 list_all2_same list_all_iff by (simp add: case_prod_unfold)
qed

lemma sum_indicator: "sum_list (map (\<lambda>t. if P t then 1 else 0) ts) = length (filter P ts)"
  by (induction ts) simp_all

lemma activations_run:
  assumes "affordable (active x) (activated x) ks (s_pool s)" and "active x (s_db s)"
  shows "activated x (s_db (server_run cfg evs s)) \<le> activated x (s_db s) + sum_list ks"
  using assms
proof (induction evs arbitrary: s ks)
  case (Cons e evs)
  obtain ks' where k: "affordable (active x) (activated x) ks' (s_pool (server_step cfg e s))"
    "active x (s_db (server_step cfg e s))"
    "activated x (s_db (server_step cfg e s)) + sum_list ks' \<le> activated x (s_db s) + sum_list ks"
  proof (cases e)
    case (Arrive h req)
    show thesis
      by (rule that [of "ks @ [0]"])
         (use Cons.prems Arrive affordable_spawn [OF Cons.prems(1) stable_request spends_request(2)] in
           \<open>simp_all add: s_db_def spawn_def\<close>)
  next
    case (Resume j t)
    obtain ks' where "affordable (active x) (activated x) ks' (resume j t (s_pool s))"
      "active x (committed (resume j t (s_pool s)))"
      "activated x (committed (resume j t (s_pool s))) + sum_list ks' \<le> activated x (committed (s_pool s)) + sum_list ks"
      by (rule affordable_resume [OF Cons.prems(1) Cons.prems(2) [unfolded s_db_def], of j t])
    then show thesis using Resume by (intro that [of ks']) (simp_all add: s_db_def)
  next
    case (Break j ex)
    then show thesis
      by (intro that [of ks]) (use Cons.prems affordable_break [OF Cons.prems(1), of j ex] in \<open>simp_all add: s_db_def\<close>)
  qed (use Cons.prems that [of ks] in \<open>simp add: s_db_def\<close>)
  from Cons.IH [OF k(1,2)] k(3) show ?case by simp
qed simp

text \<open>Once the row is active, later heartbeats add no activation; those in progress add at most one each.\<close>

lemma late_activations:
  assumes "tasks_bounded x s" and "active x (s_db s)"
  shows "activated x (s_db (server_run cfg evs s)) \<le> activated x (s_db s) + beats_in_progress x s"
  using activations_run [OF affordable_tasks [OF assms(1)] assms(2), of cfg evs]
  by (simp add: sum_indicator beats_in_progress_def)

end
