(* ===== verification/Interleaving_Outcomes.thy ===== *)
theory Interleaving_Outcomes
  imports Interleaving_Activations
begin

text \<open>
  What a request comes to when others overlap with it: the answer of a node's own heartbeat, what a
  registration leaves whatever its answer, and the answer of one that no other request disputes.
  \<open>rely_guarantee\<close> says what holds if a request answers; the locale \<open>promise\<close> says how it answers, if
  none of its own calls is broken off.
\<close>

section \<open>A promise kept among the steps of others\<close>

text \<open>
  \<open>achieves L Q p d\<close>: started at \<open>d\<close> among steps of others that stay in \<open>L\<close>, \<open>p\<close> comes only to a result
  and a state that satisfy \<open>Q\<close>.
\<close>

primrec achieves :: "('d \<Rightarrow> 'd \<Rightarrow> bool) \<Rightarrow> ('r res \<Rightarrow> 'd \<Rightarrow> bool) \<Rightarrow> ('d, 'r) prog \<Rightarrow> 'd \<Rightarrow> bool" where
  "achieves L Q (Finish r) = (\<lambda>d. Q r d)"
| "achieves L Q (Select f) = (\<lambda>d. \<forall>d'. L d d' \<longrightarrow> achieves L Q (f d') d')"
| "achieves L Q (Clock f) = (\<lambda>d. \<forall>t. achieves L Q (f t) d)"
| "achieves L Q (Transact g p) = (\<lambda>d. \<forall>d'. L d d' \<longrightarrow>
     (case g d' of Ok d'' \<Rightarrow> achieves L Q p d'' | Raise e \<Rightarrow> Q (Raise e) d'))"

locale promise =
  fixes L :: "'d \<Rightarrow> 'd \<Rightarrow> bool"
    and Q :: "'r res \<Rightarrow> 'd \<Rightarrow> bool"
  assumes others_refl: "L d d"
    and others_trans: "L d d' \<Longrightarrow> L d' d'' \<Longrightarrow> L d d''"
    and outcome_stable: "L d d' \<Longrightarrow> Q r d \<Longrightarrow> Q r d'"
begin

lemma achieves_stable: "achieves L Q p d \<Longrightarrow> L d d' \<Longrightarrow> achieves L Q p d'"
proof (induction p arbitrary: d d')
  case (Clock f)
  then show ?case by (simp add: rangeI) (metis rangeI)
qed (auto intro: others_trans outcome_stable)

lemma achieves_step: "achieves L Q p d \<Longrightarrow> prog_step t p d = (p', d') \<Longrightarrow> achieves L Q p' d'"
  using others_refl by (cases p) (auto split: res.splits)

text \<open>In a pool: the own steps of a task and those of others.\<close>

lemma achieves_resume:
  assumes "j < length (tasks s)" and "achieves L Q (snd (tasks s ! j)) (committed s)"
    and "k \<noteq> j \<Longrightarrow> L (committed s) (committed (resume k t s))"
  shows "achieves L Q (snd (tasks (resume k t s) ! j)) (committed (resume k t s))"
proof (cases "k = j")
  case True
  obtain a p where ap: "tasks s ! j = (a, p)" by fastforce
  obtain p' d where st: "prog_step t p (committed s) = (p', d)" by fastforce
  have "achieves L Q p' d" by (rule achieves_step [OF _ st]) (use assms(2) ap in simp)
  then show ?thesis using True assms(1) ap st by (simp add: resume_def)
next
  case False
  then show ?thesis using assms achieves_stable by (simp add: resume_task)
qed

end

section \<open>Schedules of the process\<close>

text \<open>No call of the request at a position is broken off; every step of another stays in \<open>L\<close>.\<close>

fun breaks :: "nat \<Rightarrow> event \<Rightarrow> bool" where
  "breaks j (Break k e) \<longleftrightarrow> k = j"
| "breaks j _ \<longleftrightarrow> False"

definition unbroken :: "nat \<Rightarrow> event list \<Rightarrow> bool" where
  "unbroken j evs \<longleftrightarrow> list_all (\<lambda>e. \<not> breaks j e) evs"

fun resumes :: "nat \<Rightarrow> event \<Rightarrow> bool" where
  "resumes j (Resume k t) \<longleftrightarrow> k = j"
| "resumes j _ \<longleftrightarrow> False"

fun others_stay :: "controller_settings \<Rightarrow> (db \<Rightarrow> db \<Rightarrow> bool) \<Rightarrow> nat \<Rightarrow> event list \<Rightarrow> server \<Rightarrow> bool" where
  "others_stay cfg L j [] s \<longleftrightarrow> True"
| "others_stay cfg L j (e # es) s \<longleftrightarrow>
     (\<not> resumes j e \<longrightarrow> L (s_db s) (s_db (server_step cfg e s))) \<and> others_stay cfg L j es (server_step cfg e s)"

locale request_promise = promise L Q for L :: "db \<Rightarrow> db \<Rightarrow> bool" and Q :: "response res \<Rightarrow> db \<Rightarrow> bool" +
  fixes cfg :: controller_settings
begin

lemma achieves_server_step:
  assumes "j < length (tasks (s_pool s))" and "achieves L Q (s_task s j) (s_db s)" and "\<not> breaks j e"
    and "\<not> resumes j e \<Longrightarrow> L (s_db s) (s_db (server_step cfg e s))"
  shows "achieves L Q (s_task (server_step cfg e s) j) (s_db (server_step cfg e s))"
proof (cases e)
  case (Resume k t)
  then show ?thesis
    using achieves_resume [OF assms(1), of k t] assms(2,4) by (simp add: s_task_def s_db_def)
qed (use assms in \<open>auto simp: s_task_def s_db_def spawn_def nth_append break_task committed_break\<close>)

lemma achieves_run:
  assumes "j < length (tasks (s_pool s))" and "achieves L Q (s_task s j) (s_db s)"
    and "unbroken j evs" and "others_stay cfg L j evs s"
  shows "achieves L Q (s_task (server_run cfg evs s) j) (s_db (server_run cfg evs s))"
  using assms
proof (induction evs arbitrary: s)
  case (Cons e evs)
  have "j < length (tasks (s_pool (server_step cfg e s)))"
    using Cons.prems(1) server_step_tasks [of s cfg e] by simp
  moreover have "achieves L Q (s_task (server_step cfg e s) j) (s_db (server_step cfg e s))"
    using Cons.prems by (intro achieves_server_step) (simp_all add: unbroken_def)
  ultimately show ?case using Cons.IH Cons.prems by (simp add: unbroken_def)
qed simp

text \<open>A request that comes in and gets its turns keeps its promise.\<close>

lemma request_achieves:
  assumes "achieves L Q (request_prog cfg h (s_revoked s) req) (s_db s)"
    and "j = length (tasks (s_pool s))" and "6 \<le> turns j evs" and "unbroken j evs"
    and "others_stay cfg L j evs (server_step cfg (Arrive h req) s)"
  shows "\<exists>r. s_task (server_run cfg evs (server_step cfg (Arrive h req) s)) j = Finish r \<and>
    Q r (s_db (server_run cfg evs (server_step cfg (Arrive h req) s)))"
proof -
  let ?s = "server_step cfg (Arrive h req) s"
  have "j < length (tasks (s_pool ?s))" "achieves L Q (s_task ?s j) (s_db ?s)"
    using assms(1,2) by (simp_all add: spawn_def s_task_def s_db_def)
  from achieves_run [OF this assms(4,5)] request_ends [OF assms(2,3), of cfg h req] show ?thesis by auto
qed

end

section \<open>What every step keeps of a row\<close>

text \<open>A row goes on for the same node; a heartbeat it has had, it has; if it is activated, that is recorded.\<close>

definition row_kept :: "db \<Rightarrow> db \<Rightarrow> node \<Rightarrow> node \<Rightarrow> bool" where
  "row_kept d d' n n' \<longleftrightarrow> same_node n n' \<and> (last_heartbeat_at n \<noteq> None \<longrightarrow> last_heartbeat_at n' \<noteq> None) \<and>
     (if state n = ONBOARDING \<and> state n' \<noteq> ONBOARDING
      then activations (node_id n) (snd d) < activations (node_id n) (snd d')
      else activations (node_id n) (snd d) \<le> activations (node_id n) (snd d'))"

definition kept :: "db \<Rightarrow> db \<Rightarrow> bool" where
  "kept d d' \<longleftrightarrow> moves_on d d' \<and> (\<forall>n \<in> set (fst d). \<exists>n' \<in> set (fst d'). row_kept d d' n n')"

lemma activations_prefix: "prefix es es' \<Longrightarrow> activations x es \<le> activations x es'"
  by (auto simp: activations_def prefix_def)

lemma row_kept_refl: "prefix (snd d) (snd d') \<Longrightarrow> row_kept d d' n n"
  by (simp add: row_kept_def activations_prefix)

lemma row_kept_trans: "row_kept d d' n n' \<Longrightarrow> row_kept d' d'' n' n'' \<Longrightarrow> row_kept d d'' n n''"
  by (auto simp: row_kept_def same_node_def split: if_splits)

lemma row_kept_later: "row_kept d d' n n' \<Longrightarrow> prefix (snd d') (snd d'') \<Longrightarrow> row_kept d d'' n n'"
  using activations_prefix [of "snd d'" "snd d''" "node_id n"] by (auto simp: row_kept_def split: if_splits)

lemma kept_refl: "kept d d"
  unfolding kept_def using moves_on_refl row_kept_refl by blast

lemma kept_trans: "kept d d' \<Longrightarrow> kept d' d'' \<Longrightarrow> kept d d''"
  unfolding kept_def by (meson moves_on_trans row_kept_trans)

lemma keptD:
  assumes "kept d d'" and "n \<in> set (fst d)"
  obtains n' where "n' \<in> set (fst d')" and "row_kept d d' n n'"
  using assms unfolding kept_def by blast

lemma updated_rows_kept:
  assumes "node_table_ok ns" and "m \<in> set ns" and "n \<in> set ns" and "prefix es es'"
    and "row_kept (ns, es) (update_row (node_pk m) (beat_columns b t) ns, es') m (beat_columns b t m)"
  shows "\<exists>n' \<in> set (update_row (node_pk m) (beat_columns b t) ns).
    row_kept (ns, es) (update_row (node_pk m) (beat_columns b t) ns, es') n n'"
proof (cases "n = m")
  case True
  then show ?thesis using updated_row(2) [OF assms(1,2) refl] assms(5) by blast
next
  case False
  then have "node_pk n \<noteq> node_pk m" using pk_unique [OF assms(1,2,3)] by auto
  then have "n \<in> set (update_row (node_pk m) (beat_columns b t) ns)"
    using assms(3) by (force simp: update_row_def)
  moreover have "row_kept (ns, es) (update_row (node_pk m) (beat_columns b t) ns, es') n n"
    by (rule row_kept_refl) (simp add: assms(4))
  ultimately show ?thesis by blast
qed

lemma conc_step_kept:
  assumes "tables_ok d" and "conc_step R i req d d'"
  shows "kept d d'"
proof -
  have p: "prefix (snd d) (snd d')" using conc_step_moves_on [OF assms] by (simp add: moves_on_def)
  have "\<exists>n' \<in> set (fst d'). row_kept d d' n n'" if "n \<in> set (fst d)" for n
    using assms(2,1) that p
  proof (induction rule: conc_step.induct)
    case (c_refuse req ns es tgt det t)
    then show ?case by (intro bexI [of _ n] row_kept_refl) simp_all
  next
    case (c_enrol p ns es t1 t2 t)
    then show ?case by (intro bexI [of _ n] row_kept_refl) (simp_all add: write_new_node)
  next
    case (c_activate m ns x es t1 t2)
    then show ?case
      by (simp only: fst_conv) (rule updated_rows_kept,
        auto simp: row_kept_def same_node_def activations_write_event tables_ok_def store_ok_def)
  next
    case (c_beat m ns x es t)
    then show ?case
      by (simp only: fst_conv) (rule updated_rows_kept, auto simp: row_kept_def same_node_def tables_ok_def store_ok_def)
  qed
  with conc_step_moves_on [OF assms] show ?thesis by (simp add: kept_def)
qed

lemma commits_kept: "tables_ok d \<Longrightarrow> commits cfg a d d' \<Longrightarrow> kept d d'"
  by (auto simp: commits_def intro: conc_step_kept)

lemma server_step_kept:
  assumes "server_safe cfg s"
  shows "kept (s_db s) (s_db (server_step cfg e s))"
proof -
  have "tables_ok (s_db s)" using assms by (simp add: server_safe_def requests.pool_safe_def s_db_def)
  with server_step_commits [OF assms, of e] show ?thesis by (auto intro: commits_kept kept_refl)
qed

lemma others_kept: "server_safe cfg s \<Longrightarrow> others_stay cfg kept j evs s"
  by (induction evs arbitrary: s) (simp_all add: server_step_kept server_safe_step del: server_step.simps)

section \<open>A heartbeat\<close>

text \<open>
  The row a heartbeat of \<open>n\<close>, as it was at \<open>d\<close>, answers: past onboarding, with a last heartbeat, as
  the one in the table.
\<close>

definition has_beaten :: "string \<Rightarrow> db \<Rightarrow> bool" where
  "has_beaten x d \<longleftrightarrow> (\<exists>n \<in> set (fst d). node_id n = x \<and> state n \<noteq> ONBOARDING \<and> last_heartbeat_at n \<noteq> None)"

definition beat_answered :: "db \<Rightarrow> node \<Rightarrow> response res \<Rightarrow> db \<Rightarrow> bool" where
  "beat_answered d n r d' \<longleftrightarrow>
     (\<exists>n'. r = Ok (R_node n') \<and> row_kept d d' n n' \<and> state n' \<noteq> ONBOARDING \<and> last_heartbeat_at n' \<noteq> None) \<and>
     has_beaten (node_id n) d'"

lemma kept_has_beaten:
  assumes "kept d d'" and "has_beaten x d"
  shows "has_beaten x d'"
proof -
  obtain n where n: "n \<in> set (fst d)" "node_id n = x" "state n \<noteq> ONBOARDING" "last_heartbeat_at n \<noteq> None"
    using assms(2) by (auto simp: has_beaten_def)
  obtain n' where n': "n' \<in> set (fst d')" "row_kept d d' n n'" by (rule keptD [OF assms(1) n(1)])
  then have "node_id n' = x \<and> state n' \<noteq> ONBOARDING \<and> last_heartbeat_at n' \<noteq> None"
    using n(2-4) unfolding row_kept_def same_node_def by auto
  then show ?thesis using n'(1) unfolding has_beaten_def by blast
qed

lemma kept_prefix: "kept d d' \<Longrightarrow> prefix (snd d) (snd d')"
  by (simp add: kept_def moves_on_def)

lemma kept_tables_ok: "kept d d' \<Longrightarrow> tables_ok d \<Longrightarrow> tables_ok d'"
  by (simp add: kept_def moves_on_def)

interpretation beat: request_promise kept "beat_answered d n" cfg for d n cfg
proof (unfold_locales, goal_cases)
  case (3 d1 d2 r)
  then show ?case using row_kept_later [OF _ kept_prefix [OF 3(1)]] kept_has_beaten [OF 3(1)] unfolding beat_answered_def by blast
qed (fact kept_refl, fact kept_trans)

lemma tables_ok_ids: "tables_ok d \<Longrightarrow> node_table_ok (fst d) \<and> distinct (map node_id (fst d))"
  by (simp add: tables_ok_def store_ok_def node_table_ok_def)

lemma achieves_node_by_id:
  assumes "tables_ok d" and "\<And>d'. L d d' \<Longrightarrow> kept d d'"
    and "\<And>d'. L d d' \<Longrightarrow> tables_ok d' \<Longrightarrow> achieves L Q (f (find (\<lambda>n. node_id n = x) (fst d'))) d'"
  shows "achieves L Q (node_by_id_prog x f) d"
proof -
  have "achieves L Q (case scalar_one_or_none (filter (\<lambda>n. node_id n = x) (fst d')) of
      Ok r \<Rightarrow> f r | Raise e \<Rightarrow> Finish (Raise e)) d'" if "L d d'" for d'
  proof -
    have "tables_ok d'" by (rule kept_tables_ok [OF assms(2) [OF that] assms(1)])
    then show ?thesis using assms(3) [OF that] scalar_one_or_none_find [of "fst d'"] tables_ok_ids [of d'] by simp
  qed
  then show ?thesis unfolding node_by_id_prog_def achieves.simps by blast
qed

lemma find_kept:
  assumes "tables_ok d'" and "n' \<in> set (fst d')" and "row_kept d d' n n'"
  shows "find (\<lambda>m. node_id m = node_id n) (fst d') = Some n'"
  using find_row [of "fst d'" n'] assms tables_ok_ids [OF assms(1)] by (simp add: row_kept_def same_node_def)

text \<open>Reading a row again finds it as it has gone on.\<close>

lemma achieves_refresh:
  assumes "tables_ok d" and "n \<in> set (fst d)" and "x = node_id n"
    and "\<And>d'. L d d' \<Longrightarrow> kept d d'"
    and "\<And>d' n'. L d d' \<Longrightarrow> n' \<in> set (fst d') \<Longrightarrow> row_kept d d' n n' \<Longrightarrow> Q (Ok (R_node n')) d'"
  shows "achieves L Q (refresh_prog x) d"
proof -
  have "achieves L Q (case find (\<lambda>m. node_id m = x) (fst d') of
       Some n \<Rightarrow> Finish (Ok (R_node n))
     | None \<Rightarrow> Finish (Raise (DatabaseError ''Could not refresh instance''))) d'" if "L d d'" for d'
  proof -
    have k: "kept d d'" using that by (rule assms(4))
    obtain n' where n': "n' \<in> set (fst d')" "row_kept d d' n n'" by (rule keptD [OF k assms(2)])
    then show ?thesis
      using find_kept [OF kept_tables_ok [OF k assms(1)] n'] assms(3) assms(5) [OF that n'] by simp
  qed
  then show ?thesis unfolding refresh_prog_def achieves.simps by blast
qed

lemma achieves_update:
  assumes "tables_ok d" and "n \<in> set (fst d)" and "live R i" and "common_name n = id_common_name i"
    and "b \<and> state n = ONBOARDING \<and> evs = [activation_event i n t2] \<or> \<not> b \<and> state n \<noteq> ONBOARDING \<and> evs = []"
    and "row_kept d0 d n0 n"
  shows "achieves kept (beat_answered d0 n0) (Transact (update_node n b t1 evs) (refresh_prog (node_id n))) d"
proof -
  have "case update_node n b t1 evs d' of Ok d'' \<Rightarrow> achieves kept (beat_answered d0 n0) (refresh_prog (node_id n)) d''
      | Raise e \<Rightarrow> beat_answered d0 n0 (Raise e) d'" if k: "kept d d'" for d'
  proof -
    obtain n' where n': "n' \<in> set (fst d')" "row_kept d d' n n'" by (rule keptD [OF k assms(2)])
    have ok: "tables_ok d'" by (rule kept_tables_ok [OF k assms(1)])
    obtain ns es where d': "d' = (ns, es)" by (cases d')
    let ?d2 = "(update_row (node_pk n) (beat_columns b t1) ns, foldl write_event es evs)"
    have pk: "node_pk n = node_pk n'" using n'(2) by (simp add: row_kept_def same_node_def)
    have u: "update_node n b t1 evs d' = Ok ?d2"
      using n'(1) d' pk by (auto simp: update_node_def)
    have m: "moves_on d d'" using k by (simp add: kept_def)
    have ok2: "tables_ok ?d2"
      by (rule conc_step_tables_ok [OF ok update_conc_step [OF assms(3,2,4) m assms(5) u, of x]])
    have mem: "beat_columns b t1 n' \<in> set (fst ?d2)"
      using updated_row(2) [of ns n' n b t1] tables_ok_ids [OF ok] n'(1) pk d' by simp
    have f: "state n' = state n \<or> state n = ONBOARDING \<and> state n' = ACTIVE" "node_id n' = node_id n"
      using n'(2) by (auto simp: row_kept_def same_node_def)
    then have "row_kept d' ?d2 n' (beat_columns b t1 n')"
      using assms(5) d' by (auto simp: row_kept_def same_node_def activations_write_event)
    then have r: "row_kept d0 ?d2 n0 (beat_columns b t1 n')"
      using row_kept_trans [OF row_kept_trans [OF assms(6) n'(2)]] by blast
    have b: "state (beat_columns b t1 n') \<noteq> ONBOARDING" "last_heartbeat_at (beat_columns b t1 n') \<noteq> None"
      using f assms(5) by auto
    have "achieves kept (beat_answered d0 n0) (refresh_prog (node_id n)) ?d2"
    proof (rule achieves_refresh [OF ok2 mem])
      fix d3 n3
      assume n3: "n3 \<in> set (fst d3)" and k3: "row_kept ?d2 d3 (beat_columns b t1 n') n3"
      have k0: "row_kept d0 d3 n0 n3" by (rule row_kept_trans [OF r k3])
      have "state n3 \<noteq> ONBOARDING" "last_heartbeat_at n3 \<noteq> None"
        using b k3 by (auto simp: row_kept_def same_node_def split: if_splits)
      moreover have "node_id n3 = node_id n0" using k0 by (simp add: row_kept_def same_node_def)
      ultimately show "beat_answered d0 n0 (Ok (R_node n3)) d3"
        using n3 k0 unfolding beat_answered_def has_beaten_def by blast
    qed (use f in simp_all)
    then show ?thesis by (simp add: u)
  qed
  then show ?thesis by simp
qed

lemma achieves_heartbeat:
  assumes "tables_ok d" and "n \<in> set (fst d)" and "live R i" and "id_common_name i = common_name n"
  shows "achieves kept (beat_answered d n) (heartbeat_prog (node_id n) i) d"
  unfolding heartbeat_prog_def
proof (rule achieves_node_by_id [OF assms(1)])
  fix d' assume k: "kept d d'" and ok: "tables_ok d'"
  obtain n' where n': "n' \<in> set (fst d')" "row_kept d d' n n'" by (rule keptD [OF k assms(2)])
  have f: "common_name n' = common_name n" using n'(2) by (simp add: row_kept_def same_node_def)
  have "achieves kept (beat_answered d n) (beat_prog n' i) d'"
    using achieves_update [OF ok n'(1) assms(3) _ _ n'(2)] f assms(4)
    by (simp add: beat_prog_def del: achieves.simps(4))
  then show "achieves kept (beat_answered d n) (case find (\<lambda>m. node_id m = node_id n) (fst d') of
       None \<Rightarrow> Finish (Raise (HTTPException 404 (''Node '' @ quoted (node_id n) @ '' not found'')))
     | Some m \<Rightarrow>
         if id_common_name i \<noteq> common_name m
         then refuse_prog i (''node:'' @ node_id n)
                [(''reason'', PStr ''heartbeat from non-matching identity''), (''claimed_node'', PStr (node_id n))]
                (HTTPException 403 ''Cannot heartbeat on behalf of another node'')
         else beat_prog m i) d'"
    using find_kept [OF ok n'] f assms(4) by simp
qed simp

section \<open>A registration\<close>

text \<open>The row of a payload, which may have been activated since.\<close>

definition row_of :: "node_create \<Rightarrow> node \<Rightarrow> bool" where
  "row_of p n \<longleftrightarrow> node_id n = node_id p \<and> common_name n = common_name p \<and> role n = role p \<and>
     ip_address n = ip_address p \<and> node_notes n = node_notes p \<and>
     (state n = state p \<or> state p = ONBOARDING \<and> state n = ACTIVE)"

abbreviation duplicate :: "node_create \<Rightarrow> exn" where
  "duplicate p \<equiv> HTTPException 409 (''Node '' @ quoted (node_id p) @ '' is already registered'')"

lemma row_of_kept: "row_of p n \<Longrightarrow> row_kept d d' n n' \<Longrightarrow> row_of p n'"
  by (auto simp: row_of_def row_kept_def same_node_def)

lemma kept_ids: "kept d d' \<Longrightarrow> x \<in> node_id ` set (fst d) \<Longrightarrow> x \<in> node_id ` set (fst d')"
proof -
  assume k: "kept d d'" and "x \<in> node_id ` set (fst d)"
  then obtain n where n: "n \<in> set (fst d)" "x = node_id n" by blast
  obtain n' where "n' \<in> set (fst d')" "row_kept d d' n n'" by (rule keptD [OF k n(1)])
  then show "x \<in> node_id ` set (fst d')" using n(2) by (metis image_eqI row_kept_def same_node_def)
qed

lemma insert_node_cases:
  assumes "tables_ok d" and "live R i" and "may_register i p" and "valid_node_create p"
  obtains (clash) "insert_node i p t1 t2 t3 d = Raise IntegrityError" "node_id p \<in> node_id ` set (fst d)"
  | (inserted) d' n where "insert_node i p t1 t2 t3 d = Ok d'" "node_id p \<notin> node_id ` set (fst d)"
      "tables_ok d'" "n \<in> set (fst d')" "row_of p n"
proof (cases "node_id p \<in> node_id ` set (fst d)")
  case True
  then show thesis by (intro clash) (auto simp: insert_node_def split: prod.splits)
next
  case False
  obtain ns es where d: "d = (ns, es)" by (cases d)
  obtain d' where d': "insert_node i p t1 t2 t3 d = Ok d'" using False by (simp add: insert_node_def d)
  have "row_of p ((node_row (Node_of p t1 t2))\<lparr>node_pk := k\<rparr>)" for k
    by (simp add: row_of_def node_row_def)
  then have "\<exists>n \<in> set (fst d'). row_of p n"
    using d' False by (auto simp: insert_node_def d write_new_node)
  then show thesis
    using inserted [OF d' False conc_step_tables_ok [OF assms(1) insert_conc_step [OF assms(2-4) d']]] by blast
qed

lemma achieves_register:
  assumes "tables_ok d" and "live R i" and "may_register i p" and "valid_node_create p"
    and rely: "\<And>d d'. L d d' \<Longrightarrow> kept d d'"
    and dup: "\<And>d'. L d d' \<Longrightarrow> node_id p \<in> node_id ` set (fst d') \<Longrightarrow> Q (Raise (duplicate p)) d'"
    and clash: "\<And>d' d''. L d d' \<Longrightarrow> L d' d'' \<Longrightarrow> node_id p \<notin> node_id ` set (fst d') \<Longrightarrow>
      node_id p \<in> node_id ` set (fst d'') \<Longrightarrow> Q (Raise IntegrityError) d''"
    and row: "\<And>d' d'' n. L d d' \<Longrightarrow> node_id p \<notin> node_id ` set (fst d') \<Longrightarrow> n \<in> set (fst d'') \<Longrightarrow> row_of p n \<Longrightarrow>
      Q (Ok (R_node n)) d''"
  shows "achieves L Q (register_prog p i) d"
proof -
  have t: "achieves L Q (Transact (insert_node i p t1 t2 t3) (refresh_prog (node_id p))) d'"
    if d': "L d d'" "tables_ok d'" "node_id p \<notin> node_id ` set (fst d')" for d' t1 t2 t3
  proof -
    have "case insert_node i p t1 t2 t3 d2 of Ok d3 \<Rightarrow> achieves L Q (refresh_prog (node_id p)) d3
        | Raise e \<Rightarrow> Q (Raise e) d2" if l: "L d' d2" for d2
      using kept_tables_ok [OF rely [OF l] d'(2)] assms(2-4)
    proof (cases rule: insert_node_cases [of d2 R i p t1 t2 t3])
      case clash
      then show ?thesis using assms(7) [OF d'(1) l d'(3)] by simp
    next
      case (inserted d3 n)
      have "achieves L Q (refresh_prog (node_id p)) d3"
      proof (rule achieves_refresh [OF inserted(3,4)])
        fix d4 n' assume "n' \<in> set (fst d4)" "row_kept d3 d4 n n'"
        then show "Q (Ok (R_node n')) d4" using row [OF d'(1,3)] row_of_kept [OF inserted(5)] by blast
      qed (use rely inserted(5) in \<open>auto simp: row_of_def\<close>)
      then show ?thesis by (simp add: inserted(1))
    qed
    then show ?thesis by simp
  qed
  have "achieves L Q (node_by_id_prog (node_id p) (\<lambda>existing. if existing \<noteq> None then Finish (Raise (duplicate p))
      else Clock (\<lambda>t1. Clock (\<lambda>t2. Clock (\<lambda>t3. Transact (insert_node i p t1 t2 t3) (refresh_prog (node_id p))))))) d"
  proof (rule achieves_node_by_id [OF assms(1) rely])
    fix d' assume l: "L d d'" and ok: "tables_ok d'"
    show "achieves L Q (if find (\<lambda>n. node_id n = node_id p) (fst d') \<noteq> None then Finish (Raise (duplicate p))
        else Clock (\<lambda>t1. Clock (\<lambda>t2. Clock (\<lambda>t3. Transact (insert_node i p t1 t2 t3) (refresh_prog (node_id p)))))) d'"
    proof (cases "node_id p \<in> node_id ` set (fst d')")
      case True
      then have "find (\<lambda>n. node_id n = node_id p) (fst d') \<noteq> None" by (auto simp: find_None_iff)
      then show ?thesis using dup [OF l True] by simp
    next
      case False
      then have "find (\<lambda>n. node_id n = node_id p) (fst d') = None" by (simp add: find_None_iff) (metis imageI)
      then show ?thesis using t [OF l ok False] by (simp del: achieves.simps(4))
    qed
  qed
  then show ?thesis using assms(3) by (simp only: register_prog_def not_True_eq_False if_False)
qed

text \<open>Whatever overlaps: the \<open>node_id\<close> is in the table afterwards, by this registration or another.\<close>

definition registration_answered :: "db \<Rightarrow> node_create \<Rightarrow> response res \<Rightarrow> db \<Rightarrow> bool" where
  "registration_answered d p r d' \<longleftrightarrow> node_id p \<in> node_id ` set (fst d') \<and>
     (case r of
        Ok a \<Rightarrow> node_id p \<notin> node_id ` set (fst d) \<and> (\<exists>n. a = R_node n \<and> row_of p n)
      | Raise e \<Rightarrow> e = duplicate p \<or> e = IntegrityError \<and> node_id p \<notin> node_id ` set (fst d))"

interpretation registration: request_promise kept "registration_answered d p" cfg for d p cfg
proof (unfold_locales, goal_cases)
  case (3 d1 d2 r)
  then show ?case using kept_ids [OF 3(1), of "node_id p"] by (simp add: registration_answered_def)
qed (fact kept_refl, fact kept_trans)

lemma registration_achieves:
  assumes "tables_ok d" and "live R i" and "may_register i p" and "valid_node_create p"
  shows "achieves kept (registration_answered d p) (register_prog p i) d"
proof (rule achieves_register [OF assms])
  fix d' d'' :: db assume "kept d d'" "node_id p \<notin> node_id ` set (fst d')" "node_id p \<in> node_id ` set (fst d'')"
  then show "registration_answered d p (Raise IntegrityError) d''"
    using kept_ids [of d d' "node_id p"] by (auto simp: registration_answered_def)
next
  fix d' d'' :: db and n :: node assume a: "kept d d'" "node_id p \<notin> node_id ` set (fst d')" "n \<in> set (fst d'')" "row_of p n"
  then have "node_id p \<in> node_id ` set (fst d'')" by (metis imageI row_of_def)
  then show "registration_answered d p (Ok (R_node n)) d''"
    using a kept_ids [of d d' "node_id p"] by (auto simp: registration_answered_def)
qed (simp_all add: registration_answered_def)

section \<open>A registration nobody disputes\<close>

definition kept_free :: "string \<Rightarrow> db \<Rightarrow> db \<Rightarrow> bool" where
  "kept_free x d d' \<longleftrightarrow> kept d d' \<and> (x \<notin> node_id ` set (fst d) \<longrightarrow> x \<notin> node_id ` set (fst d'))"

definition row_answered :: "node_create \<Rightarrow> response res \<Rightarrow> db \<Rightarrow> bool" where
  "row_answered p r d \<longleftrightarrow> (\<exists>n. r = Ok (R_node n) \<and> row_of p n)"

interpretation undisputed: request_promise "kept_free x" "row_answered p" cfg for x p cfg
  by unfold_locales (auto simp: kept_free_def row_answered_def kept_refl intro: kept_trans)

lemma undisputed_achieves:
  assumes "tables_ok d" and "live R i" and "may_register i p" and "valid_node_create p"
    and "node_id p \<notin> node_id ` set (fst d)"
  shows "achieves (kept_free (node_id p)) (row_answered p) (register_prog p i) d"
  by (rule achieves_register [OF assms(1-4)]) (use assms(5) in \<open>simp_all add: kept_free_def row_answered_def\<close>)

text \<open>No other request for the \<open>node_id\<close> is in progress or comes in.\<close>

fun asks_for :: "string \<Rightarrow> request \<Rightarrow> bool" where
  "asks_for x (POST_nodes p) \<longleftrightarrow> node_id p = x"
| "asks_for x _ \<longleftrightarrow> False"

fun brings :: "string \<Rightarrow> event \<Rightarrow> bool" where
  "brings x (Arrive h req) \<longleftrightarrow> asks_for x req"
| "brings x _ \<longleftrightarrow> False"

definition disputes :: "string \<Rightarrow> admission \<times> (db, response) prog \<Rightarrow> bool" where
  "disputes x = (\<lambda>(a, p). asks_for x (a_request a) \<and> in_progress p)"

definition unopposed :: "string \<Rightarrow> nat \<Rightarrow> server \<Rightarrow> bool" where
  "unopposed x j s \<longleftrightarrow> (\<forall>k < length (tasks (s_pool s)). k \<noteq> j \<longrightarrow> \<not> disputes x (tasks (s_pool s) ! k))"

lemma conc_step_free:
  assumes "tables_ok d" and "conc_step R i req d d'" and "\<not> asks_for x req"
  shows "kept_free x d d'"
proof -
  have "x \<notin> node_id ` set (fst d) \<longrightarrow> x \<notin> node_id ` set (fst d')"
    using assms(2,3) by (induction rule: conc_step.induct) (auto simp: write_new_node simp del: image_iff)
  then show ?thesis using conc_step_kept [OF assms(1,2)] by (simp add: kept_free_def)
qed

lemma unopposed_resume:
  assumes "server_safe cfg s" and "unopposed x j s" and "k \<noteq> j"
  shows "kept_free x (s_db s) (s_db (server_step cfg (Resume k t) s))"
proof (cases "k < length (tasks (s_pool s))")
  case True
  obtain a p where ap: "tasks (s_pool s) ! k = (a, p)" by fastforce
  obtain p' d where st: "prog_step t p (s_db s) = (p', d)" by (cases "prog_step t p (s_db s)")
  have db: "s_db (server_step cfg (Resume k t) s) = d"
    using True ap st by (simp add: s_db_def resume_def)
  have "(a, p) \<in> set (tasks (s_pool s))" using True ap nth_mem by metis
  then have w: "well_behaved cfg a p (s_db s)" and ok: "tables_ok (s_db s)"
    using assms(1) by (auto simp: server_safe_def requests.pool_safe_def s_db_def)
  have "\<not> asks_for x (a_request a) \<or> \<not> in_progress p"
    using assms(2,3) True ap by (auto simp: unopposed_def disputes_def)
  then show ?thesis
  proof
    assume "\<not> asks_for x (a_request a)"
    then show ?thesis
      using requests.within_step [OF w st] conc_step_free [OF ok] undisputed.others_refl [of x "s_db s"]
      unfolding db commits_def by blast
  next
    assume "\<not> in_progress p"
    then have "d = s_db s" using st by (cases p) auto
    then show ?thesis using db undisputed.others_refl by simp
  qed
qed (simp add: s_db_def resume_def undisputed.others_refl)

lemma unopposed_step:
  assumes "unopposed x j s" and "\<not> brings x e"
  shows "unopposed x j (server_step cfg e s)"
proof (cases e)
  case (Resume k t)
  have "\<not> disputes x (a, p')" if "\<not> disputes x (a, p)" and "prog_step t p d = (p', d')" for a p p' d d'
    using that by (cases p) (auto simp: disputes_def)
  then show ?thesis
    using assms(1) Resume by (simp add: unopposed_def resume_def nth_list_update split: prod.splits) metis
next
  case (Break k ex)
  have "\<not> disputes x (a, prog_break ex p)" if "\<not> disputes x (a, p)" for a p
    using that by (cases p) (auto simp: disputes_def)
  then show ?thesis using assms(1) Break by (auto simp: unopposed_def break_off_def nth_list_update split: prod.splits)
qed (use assms in \<open>auto simp: unopposed_def spawn_def nth_append disputes_def\<close>)

lemma others_free:
  "server_safe cfg s \<Longrightarrow> unopposed x j s \<Longrightarrow> list_all (\<lambda>e. \<not> brings x e) evs \<Longrightarrow>
     others_stay cfg (kept_free x) j evs s"
proof (induction evs arbitrary: s)
  case (Cons e evs)
  have "kept_free x (s_db s) (s_db (server_step cfg e s))" if "\<not> resumes j e"
    using that unopposed_resume [OF Cons.prems(1,2)] undisputed.others_refl
    by (cases e) (simp_all add: s_db_step_other del: server_step.simps)
  then show ?case
    using Cons server_safe_step unopposed_step by simp
qed simp

section \<open>Requests that come in\<close>

lemma own_heartbeat_ends:
  assumes "server_safe cfg s" and "\<not> allow_unauthenticated cfg" and "identity_of h = Some i" and "live (s_revoked s) i"
    and "n \<in> set (fst (s_db s))" and "id_common_name i = common_name n"
    and "j = length (tasks (s_pool s))" and "6 \<le> turns j evs" and "unbroken j evs"
  shows "\<exists>r. s_task (server_run cfg evs (server_step cfg (Arrive h (POST_heartbeat (node_id n) p)) s)) j = Finish r \<and>
    beat_answered (s_db s) n r (s_db (server_run cfg evs (server_step cfg (Arrive h (POST_heartbeat (node_id n) p)) s)))"
proof (rule beat.request_achieves [OF _ assms(7-9)])
  have "tables_ok (s_db s)" using assms(1) by (simp add: server_safe_def requests.pool_safe_def s_db_def)
  then show "achieves kept (beat_answered (s_db s) n) (request_prog cfg h (s_revoked s) (POST_heartbeat (node_id n) p)) (s_db s)"
    using request_prog_admitted [OF assms(2-4), of "POST_heartbeat (node_id n) p"] achieves_heartbeat [OF _ assms(5,4,6)] by simp
qed (simp only: others_kept server_safe_step assms(1))

lemma registration_ends:
  assumes "server_safe cfg s" and "\<not> allow_unauthenticated cfg" and "identity_of h = Some i" and "live (s_revoked s) i"
    and "may_register i p" and "valid_node_create p"
    and "j = length (tasks (s_pool s))" and "6 \<le> turns j evs" and "unbroken j evs"
  shows "\<exists>r. s_task (server_run cfg evs (server_step cfg (Arrive h (POST_nodes p)) s)) j = Finish r \<and>
    registration_answered (s_db s) p r (s_db (server_run cfg evs (server_step cfg (Arrive h (POST_nodes p)) s)))"
proof (rule registration.request_achieves [OF _ assms(7-9)])
  have "tables_ok (s_db s)" using assms(1) by (simp add: server_safe_def requests.pool_safe_def s_db_def)
  then show "achieves kept (registration_answered (s_db s) p) (request_prog cfg h (s_revoked s) (POST_nodes p)) (s_db s)"
    using request_prog_admitted [OF assms(2-4), of "POST_nodes p"] registration_achieves [OF _ assms(4-6)] assms(6) by simp
qed (simp only: others_kept server_safe_step assms(1))

lemma undisputed_registration_ends:
  assumes "server_safe cfg s" and "\<not> allow_unauthenticated cfg" and "identity_of h = Some i" and "live (s_revoked s) i"
    and "may_register i p" and "valid_node_create p" and "node_id p \<notin> node_id ` set (fst (s_db s))"
    and "\<forall>t \<in> set (tasks (s_pool s)). \<not> disputes (node_id p) t" and "list_all (\<lambda>e. \<not> brings (node_id p) e) evs"
    and "j = length (tasks (s_pool s))" and "6 \<le> turns j evs" and "unbroken j evs"
  shows "\<exists>r. s_task (server_run cfg evs (server_step cfg (Arrive h (POST_nodes p)) s)) j = Finish r \<and>
    row_answered p r (s_db (server_run cfg evs (server_step cfg (Arrive h (POST_nodes p)) s)))"
proof (rule undisputed.request_achieves [where x = "node_id p", OF _ assms(10-12)])
  have "tables_ok (s_db s)" using assms(1) by (simp add: server_safe_def requests.pool_safe_def s_db_def)
  then show "achieves (kept_free (node_id p)) (row_answered p) (request_prog cfg h (s_revoked s) (POST_nodes p)) (s_db s)"
    using request_prog_admitted [OF assms(2-4), of "POST_nodes p"] undisputed_achieves [OF _ assms(4-7)] assms(6) by simp
  have "unopposed (node_id p) j (server_step cfg (Arrive h (POST_nodes p)) s)"
    using assms(8,10) by (auto simp: unopposed_def spawn_def nth_append)
  then show "others_stay cfg (kept_free (node_id p)) j evs (server_step cfg (Arrive h (POST_nodes p)) s)"
    by (rule others_free [OF server_safe_step [OF assms(1)] _ assms(9)])
qed

end
