(* ===== verification/Interleaving_Properties.thy ===== *)
theory Interleaving_Properties
  imports Interleaving_Outcomes Lab
begin

text \<open>
  The properties of the controller when its requests overlap: they hold for every schedule of
  arrivals, resumptions, broken-off calls and revocation updates, and are applied to schedules on the
  system of \<open>Lab\<close>.
\<close>

lemma lab_row_more [simp]:
  "role (lab_node st hb) = ''valid''" "ip_address (lab_node st hb) = None" "node_notes (lab_node st hb) = None"
  by (simp_all add: lab_node_def)

lemma lab_tables_ok [simp]:
  "tables_ok ([lab_node st hb], [lab_event])" "tables_ok ([], [])"
  by (simp_all add: tables_ok_def rows_valid_def valid_node_create_fields)

lemma lab_production [simp]: "\<not> allow_unauthenticated default_settings"
  by (simp add: default_settings_def)

lemma lab_event_activates [simp]: "\<not> activates x lab_event"
  by (simp add: activates_def lab_event_def)

lemma lab_accounted [simp]: "accounted ([lab_node st hb], [lab_event])"
  by (simp add: accounted_def registers_def lab_event_def)

lemma lab_valid [simp]: "valid_node_create payload_2" "may_register identity_2 payload_2"
  by (simp_all add: valid_node_create_def payload_2_def may_register_def)

section \<open>Every schedule\<close>

text \<open>
  C8: However requests overlap, tables in order stay in order: unique identifiers and keys, rows that
  pass their response model; the audit log is only appended to; every row stays in its place for the
  same node; every node has its registration in the audit log.
\<close>
theorem interleaved_requests_keep_the_tables:
  assumes "tables_ok d" and "accounted d"
  shows "tables_ok (s_db (server_run cfg evs (server_start d R))) \<and>
    prefix (snd d) (snd (s_db (server_run cfg evs (server_start d R)))) \<and>
    continues (fst d) (fst (s_db (server_run cfg evs (server_start d R)))) \<and>
    accounted (s_db (server_run cfg evs (server_start d R)))"
proof -
  have "moves_on d (s_db (server_run cfg evs (server_start d R)))"
    using server_run_moves_on [OF server_safe_start [OF assms(1), of cfg R], of evs]
    by (simp add: server_start_def s_db_def)
  with assms show ?thesis by (simp add: moves_on_def)
qed

theorem interleaved_requests_keep_the_tables_witness:
  "tables_ok (s_db (server_run default_settings
     (overlap headers_1 (POST_heartbeat ''pi-01'' no_note) headers_2 (POST_nodes payload_2) 7 8)
     (server_start ([lab_node ONBOARDING None], [lab_event]) {})))"
  using interleaved_requests_keep_the_tables [OF lab_tables_ok(1) lab_accounted] by blast

text \<open>
  C7: However requests overlap, a node row that one step of the process changes or adds is the doing
  of the request this step resumes: it stands at its transaction, what is committed afterwards is the
  outcome of that transaction, and it has a verified identity whose certificate was not revoked when
  it came in. An existing row changes by a heartbeat that names it, under the common name it is bound
  to; a new row is that of a registration the identity is entitled to.
\<close>
theorem interleaved_changes_are_authorised:
  assumes "tables_ok d" and "\<not> allow_unauthenticated cfg"
    and "s = server_run cfg evs (server_start d R)"
    and "n' \<in> set (fst (s_db (server_step cfg e s)))" and "n' \<notin> set (fst (s_db s))"
  shows "\<exists>j t a g p i. e = Resume j t \<and> j < length (tasks (s_pool s)) \<and>
    tasks (s_pool s) ! j = (a, Transact g p) \<and> g (s_db s) = Ok (s_db (server_step cfg e s)) \<and>
    identity_of (a_headers a) = Some i \<and> live (a_revoked a) i \<and>
    ((\<exists>n x. n \<in> set (fst (s_db s)) \<and> a_request a = POST_heartbeat (node_id n) x \<and>
        common_name n = id_common_name i \<and> same_node n n') \<or>
     (\<exists>p. a_request a = POST_nodes p \<and> may_register i p \<and> node_id n' = node_id p \<and> common_name n' = common_name p))"
  by (rule server_step_rows [OF _ assms(2,4,5)])
     (simp add: assms(3) server_safe_run server_safe_start assms(1))

text \<open>A schedule in which the certificate is revoked between the request's query and its commit.\<close>

definition late_revocation :: "event list" where
  "late_revocation = [Arrive headers_1 (POST_heartbeat ''pi-01'' no_note), Resume 0 7, New_crl {26}, Resume 0 7, Resume 0 7]"

lemma late_revocation_row:
  "fst (s_db (server_step default_settings (Resume 0 7)
     (server_run default_settings late_revocation (server_start ([lab_node ONBOARDING None], [lab_event]) {})))) =
   [beat_columns True 7 (lab_node ONBOARDING None)]"
  "fst (s_db (server_run default_settings late_revocation (server_start ([lab_node ONBOARDING None], [lab_event]) {}))) =
   [lab_node ONBOARDING None]"
  by code_simp+

theorem interleaved_changes_are_authorised_witness:
  "\<exists>a g p i. tasks (s_pool (server_run default_settings late_revocation
      (server_start ([lab_node ONBOARDING None], [lab_event]) {}))) ! 0 = (a, Transact g p) \<and>
     identity_of (a_headers a) = Some i \<and> live (a_revoked a) i"
proof -
  have "beat_columns True 7 (lab_node ONBOARDING None) \<noteq> lab_node ONBOARDING None"
    by (metis beat_columns_fields(9) lab_row(5) option.distinct(1))
  then show ?thesis
    using interleaved_changes_are_authorised [where cfg = default_settings and evs = late_revocation and R = "{}"
        and n' = "beat_columns True 7 (lab_node ONBOARDING None)" and e = "Resume 0 7",
        OF lab_tables_ok(1) [of ONBOARDING None] lab_production refl]
    by (simp only: late_revocation_row list.set event.inject) blast
qed

text \<open>
  C23: However requests overlap, a result without error is of the kind its request asks for and about
  the node it names, and, but for the audit query, it passes its response model: it is answered with
  the status of its route, never with a 500 of the serialiser. A page of the audit log holds rows that
  match the query, and it is answered by 200 exactly when the actor and the target of every row are
  within the bounds of the response model; one row beyond them, which the table accepts, makes it 500.
\<close>
theorem answers_conform_to_their_models:
  assumes "tables_ok d" and "(a, Finish (Ok r)) \<in> set (tasks (s_pool (server_run cfg evs (server_start d R))))"
  shows "answers (a_request a) r \<and>
    (case r of
       R_events es \<Rightarrow>
         (if list_all (\<lambda>e. valid_audit_base (audit_base.truncate e)) es
          then \<exists>b. answer_of (a_request a) (Ok r) = Answer 200 b
          else answer_of (a_request a) (Ok r) = Problem 500 ''Internal Server Error'')
     | _ \<Rightarrow> \<exists>b. answer_of (a_request a) (Ok r) = Answer (success_status (a_request a)) b)"
proof -
  have "server_safe cfg (server_run cfg evs (server_start d R))"
    by (rule server_safe_run [OF server_safe_start [OF assms(1)]])
  then have a: "answers (a_request a) r"
    using requests.pool_result [OF _ assms(2)] by (simp add: server_safe_def)
  then show ?thesis
  proof (cases "(a_request a, r)" rule: answers.cases)
    case (7 p es)
    then show ?thesis using a audit_page_answer [of es "GET_audit p"] by auto
  qed (use a in auto)
qed

definition one_registration :: "event list" where
  "one_registration = Arrive headers_2 (POST_nodes payload_2) # replicate 6 (Resume 0 7)"

fun result_of :: "(db, response) prog \<Rightarrow> response res option" where
  "result_of (Finish r) = Some r"
| "result_of _ = None"

theorem answers_conform_to_their_models_witness:
  "\<exists>b. answer_of (POST_nodes payload_2) (Ok (R_node (new_row [] payload_2 7 7))) = Answer 201 b"
proof -
  have "map (\<lambda>(a, p). (a_request a, result_of p))
      (tasks (s_pool (server_run default_settings one_registration (server_start ([], []) {})))) =
      [(POST_nodes payload_2, Some (Ok (R_node (new_row [] payload_2 7 7))))]"
    by code_simp
  then obtain a p where "(a, p) \<in> set (tasks (s_pool (server_run default_settings one_registration (server_start ([], []) {}))))"
    and a: "a_request a = POST_nodes payload_2" and "result_of p = Some (Ok (R_node (new_row [] payload_2 7 7)))"
    by (auto simp: map_eq_Cons_conv)
  moreover from this(3) have "p = Finish (Ok (R_node (new_row [] payload_2 7 7)))" by (cases p) simp_all
  ultimately show ?thesis
    using answers_conform_to_their_models [OF lab_tables_ok(2), of a "R_node (new_row [] payload_2 7 7)"]
    by (auto simp del: response_body.simps simp: a)
qed

section \<open>The answer of a request among others\<close>

text \<open>
  C11: A node's own heartbeat succeeds whatever overlaps with it: if its certificate is live when it
  comes in and none of its own calls is broken off, it is answered after six turns (its queries, its
  transaction and its readings of the clock) with the node's row, with a heartbeat: active if the row
  was onboarding when the request came in, else in the state it had then. A node that was onboarding
  has an activation more in the audit log by then.
\<close>
theorem own_heartbeat_succeeds_among_others:
  assumes "tables_ok d" and "\<not> allow_unauthenticated cfg" and "s = server_run cfg evs (server_start d R)"
    and "identity_of h = Some i" and "live (s_revoked s) i"
    and "n \<in> set (fst (s_db s))" and "id_common_name i = common_name n"
    and "j = length (tasks (s_pool s))" and "6 \<le> turns j evs'" and "unbroken j evs'"
    and "s' = server_run cfg evs' (server_step cfg (Arrive h (POST_heartbeat (node_id n) p)) s)"
  shows "\<exists>n'. s_task s' j = Finish (Ok (R_node n')) \<and> same_node n n' \<and>
    state n' = (if state n = ONBOARDING then ACTIVE else state n) \<and>
    last_heartbeat_at n' \<noteq> None \<and>
    (state n = ONBOARDING \<longrightarrow> activations (node_id n) (snd (s_db s)) < activations (node_id n) (snd (s_db s')))"
proof -
  have "server_safe cfg s" unfolding assms(3) by (rule server_safe_run [OF server_safe_start [OF assms(1)]])
  from own_heartbeat_ends [OF this assms(2,4-10), of p]
  obtain n' where "s_task s' j = Finish (Ok (R_node n'))" "row_kept (s_db s) (s_db s') n n'"
    "state n' \<noteq> ONBOARDING" "last_heartbeat_at n' \<noteq> None"
    by (auto simp: beat_answered_def assms(11) simp del: server_step.simps)
  then show ?thesis unfolding row_kept_def same_node_def by auto
qed

text \<open>A second heartbeat and a new revocation list come in between.\<close>

definition crowded :: "event list" where
  "crowded = [Arrive headers_1 (POST_heartbeat ''pi-01'' no_note), Resume 1 8, New_crl {26}, Resume 0 7] @
     replicate 5 (Resume 1 8) @ replicate 5 (Resume 0 9)"

theorem own_heartbeat_succeeds_among_others_witness:
  "\<exists>n'. s_task (server_run default_settings crowded (server_step default_settings
      (Arrive headers_1 (POST_heartbeat ''pi-01'' no_note)) (server_start ([lab_node ONBOARDING None], [lab_event]) {}))) 0 =
    Finish (Ok (R_node n')) \<and> state n' = ACTIVE"
proof -
  let ?s = "server_start ([lab_node ONBOARDING None], [lab_event]) {}"
  have "6 \<le> turns 0 crowded" "unbroken 0 crowded"
    by (simp_all add: turns_def unbroken_def crowded_def eval_nat_numeral)
  then show ?thesis
    using own_heartbeat_succeeds_among_others [where d = "([lab_node ONBOARDING None], [lab_event])" and R = "{}" and evs = "[]"
        and s = ?s and n = "lab_node ONBOARDING None" and h = headers_1 and i = identity_1 and j = 0 and evs' = crowded
        and p = no_note, OF lab_tables_ok(1) lab_production _ _ _ _ _ _ _ _ refl]
    by (auto simp: server_start_def s_db_def simp del: server_step.simps server_run.simps(2))
qed

text \<open>
  C19: A registration takes effect whatever overlaps with it: if it is entitled and well-formed, its
  certificate live when it comes in and none of its own calls broken off, then after six turns its
  \<open>node_id\<close> is in the table. It is answered with the row of its payload, or with the 409 of a duplicate,
  or, only when the \<open>node_id\<close> was still free as it came in, with the failure of the unique index.
\<close>
theorem registration_takes_effect_among_others:
  assumes "tables_ok d" and "\<not> allow_unauthenticated cfg" and "s = server_run cfg evs (server_start d R)"
    and "identity_of h = Some i" and "live (s_revoked s) i" and "may_register i p" and "valid_node_create p"
    and "j = length (tasks (s_pool s))" and "6 \<le> turns j evs'" and "unbroken j evs'"
    and "s' = server_run cfg evs' (server_step cfg (Arrive h (POST_nodes p)) s)"
  shows "node_id p \<in> node_id ` set (fst (s_db s')) \<and>
    (\<exists>r. s_task s' j = Finish r \<and>
      (if node_id p \<in> node_id ` set (fst (s_db s)) then r = Raise (duplicate p)
       else r = Raise (duplicate p) \<or> r = Raise IntegrityError \<or> (\<exists>n. r = Ok (R_node n) \<and> row_of p n)))"
proof -
  have "server_safe cfg s" unfolding assms(3) by (rule server_safe_run [OF server_safe_start [OF assms(1)]])
  from registration_ends [OF this assms(2,4-10)]
  obtain r where "s_task s' j = Finish r" "registration_answered (s_db s) p r (s_db s')"
    unfolding assms(11) by blast
  then show ?thesis by (cases r) (auto simp: registration_answered_def)
qed

theorem registration_takes_effect_among_others_witness:
  "''pi-02'' \<in> node_id ` set (fst (s_db (server_run default_settings
      ([Arrive headers_2 (POST_nodes payload_2), Resume 1 8, Resume 0 7] @ replicate 5 (Resume 1 8) @ replicate 5 (Resume 0 9))
      (server_step default_settings (Arrive headers_2 (POST_nodes payload_2)) (server_start ([], []) {})))))"
proof -
  let ?evs = "[Arrive headers_2 (POST_nodes payload_2), Resume 1 8, Resume 0 7] @ replicate 5 (Resume 1 8) @ replicate 5 (Resume 0 9)"
  let ?s = "server_start ([], []) {}"
  have "6 \<le> turns 0 ?evs" "unbroken 0 ?evs"
    by (simp_all add: turns_def unbroken_def eval_nat_numeral)
  then show ?thesis
    using registration_takes_effect_among_others [where d = "([], [])" and R = "{}" and evs = "[]" and s = ?s
        and h = headers_2 and i = identity_2 and p = payload_2 and j = 0 and evs' = ?evs,
        OF lab_tables_ok(2) lab_production _ _ _ _ _ _ _ _ refl]
    by (auto simp: server_start_def simp del: server_step.simps server_run.simps(2) append.simps)
qed

text \<open>
  C18: A registration nobody disputes succeeds: if its \<open>node_id\<close> is free when it comes in, and no other
  registration of it is in progress or comes in before it ends, it is answered with the row of its
  payload, whatever else overlaps.
\<close>
theorem undisputed_registration_succeeds:
  assumes "tables_ok d" and "\<not> allow_unauthenticated cfg" and "s = server_run cfg evs (server_start d R)"
    and "identity_of h = Some i" and "live (s_revoked s) i" and "may_register i p" and "valid_node_create p"
    and "node_id p \<notin> node_id ` set (fst (s_db s))"
    and "\<forall>t \<in> set (tasks (s_pool s)). \<not> disputes (node_id p) t" and "list_all (\<lambda>e. \<not> brings (node_id p) e) evs'"
    and "j = length (tasks (s_pool s))" and "6 \<le> turns j evs'" and "unbroken j evs'"
  shows "\<exists>n. s_task (server_run cfg evs' (server_step cfg (Arrive h (POST_nodes p)) s)) j = Finish (Ok (R_node n)) \<and> row_of p n"
proof -
  have "server_safe cfg s" unfolding assms(3) by (rule server_safe_run [OF server_safe_start [OF assms(1)]])
  from undisputed_registration_ends [OF this assms(2,4-13)] show ?thesis
    by (auto simp: row_answered_def simp del: server_step.simps)
qed

definition beat_and_register :: "event list" where
  "beat_and_register = [Arrive headers_1 (POST_heartbeat ''pi-01'' no_note), Resume 0 7, Resume 1 8] @
     replicate 5 (Resume 1 8) @ replicate 5 (Resume 0 9)"

theorem undisputed_registration_succeeds_witness:
  "\<exists>n. s_task (server_run default_settings beat_and_register (server_step default_settings (Arrive headers_2 (POST_nodes payload_2))
      (server_start ([lab_node ONBOARDING None], [lab_event]) {}))) 0 = Finish (Ok (R_node n)) \<and> node_id n = ''pi-02''"
proof -
  let ?s = "server_start ([lab_node ONBOARDING None], [lab_event]) {}"
  have "6 \<le> turns 0 beat_and_register" "unbroken 0 beat_and_register" "list_all (\<lambda>e. \<not> brings ''pi-02'' e) beat_and_register"
    by (simp_all add: turns_def unbroken_def beat_and_register_def eval_nat_numeral)
  then show ?thesis
    using undisputed_registration_succeeds [where d = "([lab_node ONBOARDING None], [lab_event])" and R = "{}" and evs = "[]"
        and s = ?s and h = headers_2 and i = identity_2 and p = payload_2 and j = 0 and evs' = beat_and_register,
        OF lab_tables_ok(1) lab_production]
    by (auto simp: server_start_def s_db_def row_of_def simp del: server_step.simps server_run.simps(2))
qed

section \<open>A request alone\<close>

text \<open>
  C24: A request's program run without interruption is the request on a database in order: the same
  answer, the same rows committed, the same readings of the clock. (The order of audit rows with
  equal time stamps is the database's, so the audit query is left out.)
\<close>
theorem request_program_is_the_request:
  assumes "orm_live S A" and "store_ok (durable (A (sess w)))" and "rows_stored (fst (durable (A (sess w))))"
    and "\<not> allow_unauthenticated cfg" and "valid_request req" and "\<And>p. req \<noteq> GET_audit p"
    and "run_request S cfg h req w = (out, w')"
  shows "exec (\<lambda>k. clock w (reads w + k)) (request_prog cfg h (revoked_serials w) req) 0 (durable (A (sess w))) =
    (out, durable (A (sess w')))"
  using orm_live.run_request_alone [OF assms(1-4,6,5), of h] assms(7)
  by (simp add: orm_live.alone_def [OF assms(1)] prod_eq_iff)

theorem request_program_is_the_request_witness:
  "\<exists>d. exec (\<lambda>k. 1000 + int k) (request_prog default_settings headers_1 {} (POST_heartbeat ''pi-01'' no_note)) 0
      ([lab_node ONBOARDING None], [lab_event]) =
    (Ok (R_node (node_row (beaten (lab_node ONBOARDING None) 1000))), d)"
proof -
  obtain w' where w': "run_request mem_orm default_settings headers_1 (POST_heartbeat ''pi-01'' no_note) (lab {}) =
      (Ok (R_node (node_row (beaten (lab_node ONBOARDING None) 1000))), w')"
    using orm_live.request_heartbeat_own_live [OF mem_live, of "lab {}" headers_1 identity_1 "lab_node ONBOARDING None" default_settings no_note]
    by auto
  have "rows_stored [lab_node ONBOARDING None]"
    by (simp add: rows_stored_def lab_node_def node_row_def naive_def)
  with request_program_is_the_request [OF mem_live _ _ _ _ _ w'] show ?thesis by auto
qed

section \<open>Two requests about one node\<close>

text \<open>
  C17: Two heartbeats of an onboarding node whose queries both precede the first commit are both
  answered with the active row, and the audit log holds two activations of the node: run one after
  the other they leave one.
\<close>
theorem overlapping_heartbeats_activate_twice:
  assumes "store_ok (ns, es)" and "n \<in> set ns" and "state n = ONBOARDING"
    and "\<not> allow_unauthenticated cfg" and "identity_of h = Some i" and "live R i"
    and "id_common_name i = common_name n"
    and "s = server_run cfg (overlap h (POST_heartbeat (node_id n) p) h (POST_heartbeat (node_id n) q) t u)
      (server_start (ns, es) R)"
  shows "s_task s 0 = Finish (Ok (R_node (beat_columns True t n))) \<and>
    s_task s 1 = Finish (Ok (R_node (beat_columns True u (beat_columns True t n)))) \<and>
    activations (node_id n) (snd (s_db s)) = activations (node_id n) es + 2"
  using overlapping_beats [OF assms] by (simp_all add: activations_write_event)

theorem overlapping_heartbeats_activate_twice_witness:
  "activations ''pi-01'' (snd (s_db (server_run default_settings
     (overlap headers_1 (POST_heartbeat ''pi-01'' no_note) headers_1 (POST_heartbeat ''pi-01'' no_note) 7 8)
     (server_start ([lab_node ONBOARDING None], [lab_event]) {})))) = 2"
  using overlapping_heartbeats_activate_twice [of "[lab_node ONBOARDING None]" "[lab_event]" "lab_node ONBOARDING None"
      default_settings headers_1 identity_1 "{}", OF _ _ _ _ _ _ _ refl, of no_note no_note 7 8]
  by (simp add: activations_def del: server_run.simps)

text \<open>
  C20: The activations of overlapping heartbeats are bounded: once a node is past onboarding, the
  heartbeats of it that were in progress add at most one activation each to the audit log, and
  none that comes in later adds any, whatever the schedule.
\<close>
theorem late_heartbeats_activate_nothing:
  assumes "s = server_run cfg evs (server_start d R)"
    and "n \<in> set (fst (s_db s))" and "\<forall>r \<in> set (fst (s_db s)). node_id r = node_id n \<longrightarrow> state r \<noteq> ONBOARDING"
  shows "activations (node_id n) (snd (s_db (server_run cfg evs' s))) \<le>
    activations (node_id n) (snd (s_db s)) + beats_in_progress (node_id n) s"
  using late_activations [OF tasks_bounded_run [OF tasks_bounded_start], of "node_id n" cfg evs d R cfg evs'] assms
  by (simp add: active_def activated_def)

text \<open>Two heartbeats have read the onboarding row, the first has committed; then a third comes in.\<close>

definition first_committed :: "event list" where
  "first_committed = [Arrive headers_1 (POST_heartbeat ''pi-01'' no_note), Arrive headers_1 (POST_heartbeat ''pi-01'' no_note),
     Resume 0 7, Resume 1 8] @ replicate 5 (Resume 0 7)"

definition third_beat :: "event list" where
  "third_beat = Arrive headers_1 (POST_heartbeat ''pi-01'' no_note) # replicate 5 (Resume 1 8) @ replicate 6 (Resume 2 9)"

theorem late_heartbeats_activate_nothing_witness:
  "activations ''pi-01'' (snd (s_db (server_run default_settings third_beat
     (server_run default_settings first_committed (server_start ([lab_node ONBOARDING None], [lab_event]) {}))))) \<le> 2"
proof -
  let ?s = "server_run default_settings first_committed (server_start ([lab_node ONBOARDING None], [lab_event]) {})"
  have "fst (s_db ?s) = [beat_columns True 7 (lab_node ONBOARDING None)]"
    and "activations ''pi-01'' (snd (s_db ?s)) = 1" and "beats_in_progress ''pi-01'' ?s = 1" by code_simp+
  then show ?thesis
    using late_heartbeats_activate_nothing [OF refl, of "beat_columns True 7 (lab_node ONBOARDING None)" default_settings
        first_committed "([lab_node ONBOARDING None], [lab_event])" "{}" third_beat]
    by (simp del: server_run.simps)
qed

text \<open>
  C21: Of two registrations of one new \<open>node_id\<close> whose queries both precede the first commit, one is
  answered with its row; the other's insert breaks the unique index and answers 500, not the 409 of
  a duplicate. One row and one audit row are committed.
\<close>
theorem overlapping_registrations_one_row:
  assumes "store_ok (ns, es)" and "node_id p \<notin> node_id ` set ns"
    and "\<not> allow_unauthenticated cfg" and "valid_node_create p"
    and "identity_of h = Some i" and "live R i" and "may_register i p"
    and "identity_of h' = Some i'" and "live R i'" and "may_register i' p"
    and "s = server_run cfg (overlap h (POST_nodes p) h' (POST_nodes p) t u) (server_start (ns, es) R)"
  shows "s_task s 0 = Finish (Ok (R_node (new_row ns p t t))) \<and>
    (\<exists>e. s_task s 1 = Finish (Raise e) \<and> answer_of (POST_nodes p) (Raise e) = Problem 500 ''Internal Server Error'') \<and>
    s_db s = (ns @ [new_row ns p t t], write_event es (register_event i p t))"
  using overlapping_creates [OF assms] by simp_all

theorem overlapping_registrations_one_row_witness:
  "s_db (server_run default_settings (overlap headers_2 (POST_nodes payload_2) headers_2 (POST_nodes payload_2) 7 8)
     (server_start ([], []) {})) = ([new_row [] payload_2 7 7], write_event [] (register_event identity_2 payload_2 7))"
  using overlapping_registrations_one_row [of "[]" "[]" payload_2 default_settings headers_2 identity_2 "{}" headers_2 identity_2,
      OF _ _ _ _ _ _ _ _ _ _ refl, of 7 8]
  by (simp del: server_run.simps)

end
