(* ===== verification/Routes.thy ===== *)
theory Routes
  imports Responses Http_Client Requests_Live
begin

text \<open>
  The routes \<open>app/main.py\<close> declares: the documentation page, the metrics endpoint the instrumentator
  exposes, and the four routers under \<open>/api/v1\<close>, each with its prefix and its decorated handlers.
  How the framework matches a path template is the locale \<open>path_matching\<close>; it tries the routes in
  the order they were added.
\<close>

section \<open>The table of routes\<close>

datatype endpoint = Ep_openapi | Ep_docs | Ep_oauth2_redirect | Ep_redoc | Ep_metrics | Ep_health | Ep_whoami
  | Ep_list_nodes | Ep_register_node | Ep_get_node | Ep_heartbeat | Ep_list_audit_events

record route =
  r_methods :: "string list"
  r_template :: string
  r_endpoint :: endpoint

definition get_route :: "string \<Rightarrow> endpoint \<Rightarrow> route" where
  "get_route tpl ep = \<lparr>r_methods = [''GET''], r_template = tpl, r_endpoint = ep\<rparr>"

definition post_route :: "string \<Rightarrow> endpoint \<Rightarrow> route" where
  "post_route tpl ep = \<lparr>r_methods = [''POST''], r_template = tpl, r_endpoint = ep\<rparr>"

text \<open>A page of the framework itself, which answers \<open>HEAD\<close> as well.\<close>

definition page_route :: "string \<Rightarrow> endpoint \<Rightarrow> route" where
  "page_route tpl ep = \<lparr>r_methods = [''GET'', ''HEAD''], r_template = tpl, r_endpoint = ep\<rparr>"

text \<open>\<open>APIRouter(prefix=...)\<close> and \<open>include_router(router, prefix=...)\<close> put a prefix before every template.\<close>

definition prefixed :: "string \<Rightarrow> route list \<Rightarrow> route list" where
  "prefixed p rs = map (\<lambda>r. r\<lparr>r_template := p @ r_template r\<rparr>) rs"

definition health_router :: "route list" where
  "health_router = [get_route ''/health'' Ep_health]"

definition whoami_router :: "route list" where
  "whoami_router = [get_route ''/whoami'' Ep_whoami]"

definition nodes_router :: "route list" where
  "nodes_router = prefixed ''/nodes''
     [get_route '''' Ep_list_nodes, post_route '''' Ep_register_node,
      get_route ''/{node_id}'' Ep_get_node, post_route ''/{node_id}/heartbeat'' Ep_heartbeat]"

definition audit_router :: "route list" where
  "audit_router = prefixed ''/audit'' [get_route '''' Ep_list_audit_events]"

text \<open>
  The application and its instrumentator, as far as they declare routes and what is measured. What
  the call leaves out has FastAPI's default: the schema at \<open>/openapi.json\<close> and the OAuth2 redirect of
  the documentation page.
\<close>

record fastapi_app =
  title :: string
  description :: string
  app_version :: string
  openapi_url :: "string option"
  docs_url :: "string option"
  swagger_ui_oauth2_redirect_url :: "string option"
  redoc_url :: "string option"

definition app :: "controller_settings \<Rightarrow> fastapi_app" where
  "app cfg =
     \<lparr>title = ''Thesis Lab Controller'',
      description = ''Master controller for PKI / mTLS / Zero Trust laboratory'',
      app_version = service_version cfg, openapi_url = Some ''/openapi.json'', docs_url = Some ''/docs'',
      swagger_ui_oauth2_redirect_url = Some ''/docs/oauth2-redirect'', redoc_url = None\<rparr>"

record instrumentator =
  should_group_status_codes :: bool
  should_ignore_untemplated :: bool
  excluded_handlers :: "string list"
  exposed_endpoint :: string

definition Instrumentator :: instrumentator where
  "Instrumentator =
     \<lparr>should_group_status_codes = True, should_ignore_untemplated = True,
      excluded_handlers = [''/metrics'', ''/api/v1/health''], exposed_endpoint = ''/metrics''\<rparr>"

text \<open>The pages the framework adds: without a schema none, the redirect with the documentation page only.\<close>

definition doc_routes :: "fastapi_app \<Rightarrow> route list" where
  "doc_routes a =
     (case openapi_url a of
        None \<Rightarrow> []
      | Some schema \<Rightarrow>
          [page_route schema Ep_openapi] @
          (case docs_url a of
             None \<Rightarrow> []
           | Some docs \<Rightarrow>
               [page_route docs Ep_docs] @
               (case swagger_ui_oauth2_redirect_url a of
                  None \<Rightarrow> []
                | Some redirect \<Rightarrow> [page_route redirect Ep_oauth2_redirect])) @
          (case redoc_url a of None \<Rightarrow> [] | Some redoc \<Rightarrow> [page_route redoc Ep_redoc]))"

definition app_routes :: "controller_settings \<Rightarrow> route list" where
  "app_routes cfg =
     doc_routes (app cfg) @
     [get_route (exposed_endpoint Instrumentator) Ep_metrics] @
     concat (map (prefixed ''/api/v1'') [health_router, whoami_router, nodes_router, audit_router])"

section \<open>From a path to a request\<close>

text \<open>The first route of the method whose template the path matches, with the path's parameters.\<close>

type_synonym path_match = "string \<Rightarrow> string \<Rightarrow> string list option"

fun dispatch :: "path_match \<Rightarrow> route list \<Rightarrow> string \<Rightarrow> string \<Rightarrow> (endpoint \<times> string list) option" where
  "dispatch pm [] m p = None"
| "dispatch pm (r # rs) m p =
     (if m \<in> set (r_methods r)
      then case pm (r_template r) p of
             Some xs \<Rightarrow> Some (r_endpoint r, xs)
           | None \<Rightarrow> dispatch pm rs m p
      else dispatch pm rs m p)"

text \<open>The parsed bodies and the query a handler may declare.\<close>

record http_args =
  node_body :: node_create
  beat_body :: heartbeat_payload
  audit_args :: audit_params

fun to_request :: "endpoint \<Rightarrow> string list \<Rightarrow> http_args \<Rightarrow> request option" where
  "to_request Ep_health [] b = Some GET_health"
| "to_request Ep_whoami [] b = Some GET_whoami"
| "to_request Ep_list_nodes [] b = Some GET_nodes"
| "to_request Ep_register_node [] b = Some (POST_nodes (node_body b))"
| "to_request Ep_get_node [x] b = Some (GET_node x)"
| "to_request Ep_heartbeat [x] b = Some (POST_heartbeat x (beat_body b))"
| "to_request Ep_list_audit_events [] b = Some (GET_audit (audit_args b))"
| "to_request _ _ b = None"

text \<open>
  A call of the API: the endpoint's request run and answered. Outside of it (the schema, the pages of
  the documentation, the metrics, a path or method without route) the framework answers by itself.
\<close>

definition serve_http :: "path_match \<Rightarrow> 's orm \<Rightarrow> controller_settings \<Rightarrow> headers \<Rightarrow> string \<Rightarrow> string \<Rightarrow> http_args
    \<Rightarrow> 's world \<Rightarrow> (answer \<times> 's world) option" where
  "serve_http pm S cfg h m p b w =
     (case dispatch pm (app_routes cfg) m p of
        None \<Rightarrow> None
      | Some (ep, xs) \<Rightarrow>
          case to_request ep xs b of
            None \<Rightarrow> None
          | Some req \<Rightarrow> (case run_request S cfg h req w of (out, w') \<Rightarrow> Some (answer_of req out, w')))"

section \<open>Matching\<close>

text \<open>
  A template without a parameter matches itself; \<open>{node_id}\<close> stands for one segment, not empty and
  without a slash.
\<close>

definition plain :: "string \<Rightarrow> bool" where
  "plain s \<longleftrightarrow> CHR ''{'' \<notin> set s \<and> CHR 0x7D \<notin> set s"

definition segment :: "string \<Rightarrow> bool" where
  "segment x \<longleftrightarrow> x \<noteq> [] \<and> CHR ''/'' \<notin> set x"

locale path_matching =
  fixes pm :: path_match
  assumes literal_law: "plain s \<Longrightarrow> pm s p = (if p = s then Some [] else None)"
    and segment_law: "plain a \<Longrightarrow> plain b \<Longrightarrow>
      pm (a @ ''{node_id}'' @ b) p = Some xs \<longleftrightarrow> (\<exists>x. xs = [x] \<and> segment x \<and> p = a @ x @ b)"
begin

lemma literals [simp]:
  "pm ''/openapi.json'' p = (if p = ''/openapi.json'' then Some [] else None)"
  "pm ''/docs'' p = (if p = ''/docs'' then Some [] else None)"
  "pm ''/docs/oauth2-redirect'' p = (if p = ''/docs/oauth2-redirect'' then Some [] else None)"
  "pm ''/metrics'' p = (if p = ''/metrics'' then Some [] else None)"
  "pm ''/api/v1/health'' p = (if p = ''/api/v1/health'' then Some [] else None)"
  "pm ''/api/v1/whoami'' p = (if p = ''/api/v1/whoami'' then Some [] else None)"
  "pm ''/api/v1/nodes'' p = (if p = ''/api/v1/nodes'' then Some [] else None)"
  "pm ''/api/v1/audit'' p = (if p = ''/api/v1/audit'' then Some [] else None)"
  by (rule literal_law; simp add: plain_def)+

lemma get_node_path:
  "pm ''/api/v1/nodes/{node_id}'' p = Some xs \<longleftrightarrow> (\<exists>x. xs = [x] \<and> segment x \<and> p = ''/api/v1/nodes/'' @ x)"
  using segment_law [of "''/api/v1/nodes/''" "[]" p xs] by (simp add: plain_def)

lemma beat_path:
  "pm ''/api/v1/nodes/{node_id}/heartbeat'' p = Some xs \<longleftrightarrow>
     (\<exists>x. xs = [x] \<and> segment x \<and> p = ''/api/v1/nodes/'' @ x @ ''/heartbeat'')"
  using segment_law [of "''/api/v1/nodes/''" "''/heartbeat''" p xs] by (simp add: plain_def)

end

lemma app_routes_eq:
  "app_routes cfg =
     [page_route ''/openapi.json'' Ep_openapi, page_route ''/docs'' Ep_docs,
      page_route ''/docs/oauth2-redirect'' Ep_oauth2_redirect, get_route ''/metrics'' Ep_metrics,
      get_route ''/api/v1/health'' Ep_health, get_route ''/api/v1/whoami'' Ep_whoami,
      get_route ''/api/v1/nodes'' Ep_list_nodes, post_route ''/api/v1/nodes'' Ep_register_node,
      get_route ''/api/v1/nodes/{node_id}'' Ep_get_node,
      post_route ''/api/v1/nodes/{node_id}/heartbeat'' Ep_heartbeat,
      get_route ''/api/v1/audit'' Ep_list_audit_events]"
  by (simp add: app_routes_def app_def doc_routes_def Instrumentator_def health_router_def whoami_router_def nodes_router_def audit_router_def
      prefixed_def get_route_def post_route_def)

lemma route_fields [simp]:
  "r_methods (get_route tpl ep) = [''GET'']" "r_template (get_route tpl ep) = tpl" "r_endpoint (get_route tpl ep) = ep"
  "r_methods (post_route tpl ep) = [''POST'']" "r_template (post_route tpl ep) = tpl" "r_endpoint (post_route tpl ep) = ep"
  "r_methods (page_route tpl ep) = [''GET'', ''HEAD'']" "r_template (page_route tpl ep) = tpl" "r_endpoint (page_route tpl ep) = ep"
  by (simp_all add: get_route_def post_route_def page_route_def)

lemma dispatch_SomeD:
  "dispatch pm rs m p = Some (ep, xs) \<Longrightarrow>
     \<exists>r \<in> set rs. m \<in> set (r_methods r) \<and> r_endpoint r = ep \<and> pm (r_template r) p = Some xs"
  by (induction rs) (auto split: if_splits option.splits)

text \<open>A matcher by the text before and after the braces.\<close>

definition simple_match :: path_match where
  "simple_match tpl p =
     (let a = takeWhile (\<lambda>c. c \<noteq> CHR ''{'') tpl in
      if a = tpl then (if p = tpl then Some [] else None)
      else let b = drop 1 (dropWhile (\<lambda>c. c \<noteq> CHR 0x7D) tpl);
               x = take (length p - length a - length b) (drop (length a) p) in
           if segment x \<and> p = a @ x @ b then Some [x] else None)"

lemma simple_match_segment:
  assumes "plain a" and "plain b"
  shows "simple_match (a @ ''{node_id}'' @ b) p = Some xs \<longleftrightarrow> (\<exists>x. xs = [x] \<and> segment x \<and> p = a @ x @ b)"
proof -
  have a: "takeWhile (\<lambda>c. c \<noteq> CHR ''{'') (a @ ''{node_id}'' @ b) = a"
    using assms(1) by (subst takeWhile_append2) (auto simp: plain_def)
  have b: "dropWhile (\<lambda>c. c \<noteq> CHR 0x7D) (a @ ''{node_id}'' @ b) = CHR 0x7D # b"
    using assms(1) by (subst dropWhile_append2) (auto simp: plain_def)
  let ?x = "take (length p - length a - length b) (drop (length a) p)"
  have "simple_match (a @ ''{node_id}'' @ b) p = (if segment ?x \<and> p = a @ ?x @ b then Some [?x] else None)"
    unfolding simple_match_def Let_def a b by simp
  moreover have "?x = x" if "p = a @ x @ b" for x by (simp add: that)
  ultimately show ?thesis by (auto split: if_splits)
qed

interpretation simple: path_matching simple_match
proof (unfold_locales, goal_cases)
  case (1 s p)
  then have "takeWhile (\<lambda>c. c \<noteq> CHR ''{'') s = s" by (auto simp: plain_def takeWhile_eq_all_conv)
  then show ?case by (simp add: simple_match_def)
qed (rule simple_match_segment)

section \<open>From a URL to a path\<close>

text \<open>
  What a client is given is a URL, relative to the base URL of its \<open>AsyncClient\<close>; what the routes are
  matched against is the path that comes out of it, after the client has split it at the query and
  the fragment and escaped it, and the server has decoded it. \<open>request_target\<close> states what RFC 3986
  says of it and no more: a path of unreserved characters and slashes without dot segments is itself,
  and a question mark or a number sign ends it. A base URL is a scheme and a host.
\<close>

definition unreserved :: "char \<Rightarrow> bool" where
  "unreserved c \<longleftrightarrow> c \<in> set ''ABCDEFGHIJKLMNOPQRSTUVWXYZabcdefghijklmnopqrstuvwxyz0123456789-._~''"

definition path_text :: "string \<Rightarrow> bool" where
  "path_text u \<longleftrightarrow> list_all (\<lambda>c. unreserved c \<or> c = CHR ''/'') u"

definition no_dot_segments :: "string \<Rightarrow> bool" where
  "no_dot_segments u \<longleftrightarrow> list_all (\<lambda>p. p \<noteq> ''.'' \<and> p \<noteq> ''..'') (py_split (CHR ''/'') u)"

definition plain_path :: "string \<Rightarrow> bool" where
  "plain_path u \<longleftrightarrow> take 1 u = ''/'' \<and> take 2 u \<noteq> ''//'' \<and> path_text u \<and> no_dot_segments u \<and> length u \<le> 4096"

definition origin :: "string \<Rightarrow> bool" where
  "origin b \<longleftrightarrow> take 8 b = ''https://'' \<and> drop 8 b \<noteq> [] \<and> list_all unreserved (drop 8 b)"

definition ends_path :: "char \<Rightarrow> bool" where
  "ends_path c \<longleftrightarrow> c = CHR ''?'' \<or> c = CHR 0x23"

locale request_target =
  fixes wire :: "string \<Rightarrow> string \<Rightarrow> string"
  assumes path_law: "origin b \<Longrightarrow> plain_path u \<Longrightarrow> wire b u = u"
    and query_law: "origin b \<Longrightarrow> plain_path u \<Longrightarrow> ends_path c \<Longrightarrow> path_text v \<Longrightarrow> length v \<le> 4096 \<Longrightarrow> wire b (u @ c # v) = u"

text \<open>Cutting, then decoding the escapes; the path of the base URL stands before it.\<close>

fun unquote :: "string \<Rightarrow> string" where
  "unquote (c # x # y # s) =
     (if c \<noteq> CHR ''%'' then c # unquote (x # y # s)
      else case (hex_val x, hex_val y) of
             (Some m, Some n) \<Rightarrow> char_of (16 * m + n) # unquote s
           | _ \<Rightarrow> c # unquote (x # y # s))"
| "unquote s = s"

definition cut_and_decode :: "string \<Rightarrow> string \<Rightarrow> string" where
  "cut_and_decode b u = unquote (takeWhile (\<lambda>c. \<not> ends_path c) (dropWhile (\<lambda>c. c \<noteq> CHR ''/'') (drop 8 b) @ u))"

lemma unquote_plain: "CHR ''%'' \<notin> set s \<Longrightarrow> unquote s = s"
  by (induction s rule: unquote.induct) auto

lemma path_text_chars:
  assumes "path_text u" and "c \<in> set u"
  shows "c \<noteq> CHR ''%'' \<and> \<not> ends_path c"
proof -
  have "\<not> unreserved (CHR ''%'')" "\<not> unreserved (CHR ''?'')" "\<not> unreserved (CHR 0x23)" by (simp_all add: unreserved_def)
  then show ?thesis using assms by (auto simp: path_text_def list_all_iff ends_path_def)
qed

lemma origin_no_path:
  assumes "origin b"
  shows "dropWhile (\<lambda>c. c \<noteq> CHR ''/'') (drop 8 b) = []"
proof -
  have "\<not> unreserved (CHR ''/'')" by (simp add: unreserved_def)
  then show ?thesis using assms by (auto simp: origin_def list_all_iff)
qed

lemma takeWhile_path: "path_text u \<Longrightarrow> takeWhile (\<lambda>c. \<not> ends_path c) (u @ v) = u @ takeWhile (\<lambda>c. \<not> ends_path c) v"
  using path_text_chars by (auto simp: takeWhile_append)

interpretation cut: request_target cut_and_decode
proof (unfold_locales, goal_cases)
  case (1 b u)
  then have u: "path_text u" by (simp add: plain_path_def)
  then have "unquote u = u" using path_text_chars unquote_plain by blast
  moreover have "takeWhile (\<lambda>c. \<not> ends_path c) u = u" using path_text_chars [OF u] by (simp add: takeWhile_eq_all_conv)
  ultimately show ?case by (simp only: cut_and_decode_def origin_no_path [OF 1(1)] append_Nil)
next
  case (2 b u c v)
  then have u: "path_text u" by (simp add: plain_path_def)
  then have "unquote u = u" using path_text_chars unquote_plain by blast
  then show ?case using 2 takeWhile_path [OF u, of "c # v"] by (simp add: cut_and_decode_def origin_no_path)
qed

text \<open>The URL of a heartbeat is a plain path when the \<open>node_id\<close> is.\<close>

lemma py_split_at: "py_split d (p @ d # q) = py_split d p @ py_split d q"
  by (induction p) (auto split: list.splits)

lemma no_dot_segments_at: "no_dot_segments (p @ CHR ''/'' # q) \<longleftrightarrow> no_dot_segments p \<and> no_dot_segments q"
  by (simp add: no_dot_segments_def py_split_at)

lemma path_text_append [simp]: "path_text (p @ q) \<longleftrightarrow> path_text p \<and> path_text q"
  by (simp add: path_text_def)

lemma api_prefix: "path_text ''/api/v1/nodes/''" "no_dot_segments ''/api/v1/nodes''"
  "path_text ''/heartbeat''" "no_dot_segments ''heartbeat''" "plain_path ''/api/v1/nodes''"
  by code_simp+

lemma plain_beat_path:
  assumes "path_text x" and "no_dot_segments x" and "length x \<le> 64"
  shows "plain_path (''/api/v1/nodes/'' @ x @ ''/heartbeat'')" and "plain_path (''/api/v1/nodes/'' @ x)"
proof -
  have "no_dot_segments (''/api/v1/nodes'' @ CHR ''/'' # x @ CHR ''/'' # ''heartbeat'')"
    "no_dot_segments (''/api/v1/nodes'' @ CHR ''/'' # x)"
    using assms(2) api_prefix by (simp_all only: no_dot_segments_at simp_thms)
  then show "plain_path (''/api/v1/nodes/'' @ x @ ''/heartbeat'')" "plain_path (''/api/v1/nodes/'' @ x)"
    using assms(1,3) api_prefix(1,3) by (simp_all add: plain_path_def) (simp_all add: path_text_def)
qed

section \<open>Where the paths lead\<close>

text \<open>The endpoints that need no identity, each with its path.\<close>

definition open_endpoints :: "(endpoint \<times> string) list" where
  "open_endpoints =
     [(Ep_openapi, ''/openapi.json''), (Ep_docs, ''/docs''), (Ep_oauth2_redirect, ''/docs/oauth2-redirect''),
      (Ep_metrics, ''/metrics''), (Ep_health, ''/api/v1/health'')]"

context path_matching begin

text \<open>What a dispatched path was: the inverse of the table.\<close>

lemma dispatch_cases:
  assumes "dispatch pm (app_routes cfg) m p = Some (ep, xs)"
  obtains (page) "xs = []" "m = ''GET'' \<or> m = ''HEAD''"
      "p = ''/openapi.json'' \<and> ep = Ep_openapi \<or> p = ''/docs'' \<and> ep = Ep_docs \<or>
       p = ''/docs/oauth2-redirect'' \<and> ep = Ep_oauth2_redirect \<or> p = ''/metrics'' \<and> ep = Ep_metrics"
  | (plain_get) "m = ''GET''" "xs = []"
      "p = ''/api/v1/health'' \<and> ep = Ep_health \<or> p = ''/api/v1/whoami'' \<and> ep = Ep_whoami \<or>
       p = ''/api/v1/nodes'' \<and> ep = Ep_list_nodes \<or> p = ''/api/v1/audit'' \<and> ep = Ep_list_audit_events"
  | (register) "m = ''POST''" "xs = []" "p = ''/api/v1/nodes''" "ep = Ep_register_node"
  | (one) x where "m = ''GET''" "xs = [x]" "segment x" "p = ''/api/v1/nodes/'' @ x" "ep = Ep_get_node"
  | (beat) x where "m = ''POST''" "xs = [x]" "segment x" "p = ''/api/v1/nodes/'' @ x @ ''/heartbeat''" "ep = Ep_heartbeat"
proof -
  obtain r where r: "r \<in> set (app_routes cfg)" "m \<in> set (r_methods r)" "r_endpoint r = ep" "pm (r_template r) p = Some xs"
    using dispatch_SomeD [OF assms] by blast
  have "r = page_route ''/openapi.json'' Ep_openapi \<or> r = page_route ''/docs'' Ep_docs \<or>
    r = page_route ''/docs/oauth2-redirect'' Ep_oauth2_redirect \<or> r = get_route ''/metrics'' Ep_metrics \<or>
    r = get_route ''/api/v1/health'' Ep_health \<or> r = get_route ''/api/v1/whoami'' Ep_whoami \<or>
    r = get_route ''/api/v1/nodes'' Ep_list_nodes \<or> r = post_route ''/api/v1/nodes'' Ep_register_node \<or>
    r = get_route ''/api/v1/nodes/{node_id}'' Ep_get_node \<or>
    r = post_route ''/api/v1/nodes/{node_id}/heartbeat'' Ep_heartbeat \<or>
    r = get_route ''/api/v1/audit'' Ep_list_audit_events"
    using r(1) unfolding app_routes_eq by (simp only: list.set insert_iff empty_iff simp_thms)
  then show thesis
    using r(2-4) by (elim disjE) (simp_all add: get_node_path beat_path that split: if_splits, auto intro: that)
qed

lemma dispatch_heartbeat:
  "dispatch pm (app_routes cfg) ''POST'' (''/api/v1/nodes/'' @ x @ ''/heartbeat'') = Some (Ep_heartbeat, [y]) \<longleftrightarrow>
     segment x \<and> y = x"
proof
  assume d: "dispatch pm (app_routes cfg) ''POST'' (''/api/v1/nodes/'' @ x @ ''/heartbeat'') = Some (Ep_heartbeat, [y])"
  then show "segment x \<and> y = x" by (cases rule: dispatch_cases) simp_all
next
  assume "segment x \<and> y = x"
  then have "pm ''/api/v1/nodes/{node_id}/heartbeat'' (''/api/v1/nodes/'' @ x @ ''/heartbeat'') = Some [y]"
    by (simp add: beat_path)
  then show "dispatch pm (app_routes cfg) ''POST'' (''/api/v1/nodes/'' @ x @ ''/heartbeat'') = Some (Ep_heartbeat, [y])"
    by (simp add: app_routes_eq)
qed

lemma dispatch_heartbeat_path:
  "dispatch pm (app_routes cfg) ''POST'' (''/api/v1/nodes/'' @ x @ ''/heartbeat'') =
     (if segment x then Some (Ep_heartbeat, [x]) else None)"
proof (cases "dispatch pm (app_routes cfg) ''POST'' (''/api/v1/nodes/'' @ x @ ''/heartbeat'')")
  case None
  then show ?thesis using dispatch_heartbeat [of cfg x x] by auto
next
  case (Some r)
  then obtain ep xs where d: "dispatch pm (app_routes cfg) ''POST'' (''/api/v1/nodes/'' @ x @ ''/heartbeat'') = Some (ep, xs)"
    by (cases r) simp
  then have "ep = Ep_heartbeat \<and> (\<exists>y. xs = [y])" by (cases rule: dispatch_cases) simp_all
  then show ?thesis using d dispatch_heartbeat by auto
qed

lemma dispatch_register: "dispatch pm (app_routes cfg) ''POST'' ''/api/v1/nodes'' = Some (Ep_register_node, [])"
  by (simp add: app_routes_eq)

text \<open>A post below the nodes that does not end as a heartbeat has no route.\<close>

lemma dispatch_cut_path:
  assumes "CHR ''/'' \<notin> set x"
  shows "dispatch pm (app_routes cfg) ''POST'' (''/api/v1/nodes/'' @ x) = None"
proof (cases "dispatch pm (app_routes cfg) ''POST'' (''/api/v1/nodes/'' @ x)")
  case (Some r)
  then obtain ep xs where "dispatch pm (app_routes cfg) ''POST'' (''/api/v1/nodes/'' @ x) = Some (ep, xs)"
    by (cases r) simp
  then show ?thesis
  proof (cases rule: dispatch_cases)
    case (beat y)
    then have "x = y @ ''/heartbeat''" by simp
    then show ?thesis using assms by simp
  qed simp_all
qed

text \<open>
  Every route but the pages of the framework, the metrics and the health check leads to a request that
  needs an identity.
\<close>

lemma dispatch_open:
  assumes "dispatch pm (app_routes cfg) m p = Some (ep, xs)" and "ep \<in> fst ` set open_endpoints"
  shows "(ep, p) \<in> set open_endpoints"
  using assms by (cases rule: dispatch_cases) (auto simp: open_endpoints_def)

lemma dispatch_protected:
  assumes "dispatch pm (app_routes cfg) m p = Some (ep, xs)" and "ep \<notin> fst ` set open_endpoints"
  shows "\<exists>req. to_request ep xs b = Some req \<and> protected req"
  using assms(1)
proof (cases rule: dispatch_cases)
  case page
  then show ?thesis using assms(2) by (auto simp: open_endpoints_def)
next
  case plain_get
  then have "ep = Ep_whoami \<or> ep = Ep_list_nodes \<or> ep = Ep_list_audit_events" using assms(2) by (auto simp: open_endpoints_def)
  then show ?thesis using plain_get(2) by auto
qed simp_all

lemma serve_http_unidentified:
  assumes "identity_of h = None" and "\<not> allow_unauthenticated cfg"
    and "dispatch pm (app_routes cfg) m p = Some (ep, xs)" and "ep \<notin> fst ` set open_endpoints"
  shows "\<exists>c d w'. snd (auth_refusal h) = HTTPException c d \<and>
    serve_http pm S cfg h m p b w = Some (Problem c d, w') \<and> sess w' = sess w"
proof -
  obtain req where r: "to_request ep xs b = Some req" "protected req"
    using dispatch_protected [OF assms(3,4)] by blast
  obtain handler where h: "run_request S cfg h req = MTLSIdentityDep S cfg h handler"
    by (rule protected_request [OF r(2)])
  obtain t where "run_request S cfg h req w = (Raise (snd (auth_refusal h)),
      w\<lparr>trace := trace w @ Mtls_Auth_Inc (fst (auth_refusal h)) # t\<rparr>)"
    using MTLSIdentityDep_refused [OF assms(1,2), of S handler w] h by auto
  then have "serve_http pm S cfg h m p b w = Some (answer_of req (Raise (snd (auth_refusal h))),
      w\<lparr>trace := trace w @ Mtls_Auth_Inc (fst (auth_refusal h)) # t\<rparr>)"
    using assms(3) r(1) by (simp add: serve_http_def)
  moreover have "\<exists>c d. snd (auth_refusal h) = HTTPException c d"
    by (auto simp: auth_refusal_def split: option.splits)
  ultimately show ?thesis by auto
qed

end

end
