(* ===== verification/Route_Properties.thy ===== *)
theory Route_Properties
  imports Routes Lab
begin

text \<open>
  The properties of the table of routes, over any matcher of path templates that keeps the laws of
  \<open>path_matching\<close>, and applied to \<open>simple_match\<close>.
\<close>

lemmas simple_matching = simple.path_matching_axioms and cut_target = cut.request_target_axioms



text \<open>
  C25: Without a verified identity no handler but the health check runs. A call that has a route, any
  method and path, leads to the schema, the documentation page, its OAuth2 redirect, the metrics or the
  health check, each of them at its own path and at no other; or it is answered with the refusal its
  headers call for, and no session is touched.
\<close>
theorem only_health_runs_without_identity:
  assumes "path_matching pm" and "identity_of h = None" and "\<not> allow_unauthenticated cfg"
    and "dispatch pm (app_routes cfg) m p = Some (ep, xs)"
  shows "(ep, p) \<in> {(Ep_openapi, ''/openapi.json''), (Ep_docs, ''/docs''), (Ep_oauth2_redirect, ''/docs/oauth2-redirect''),
      (Ep_metrics, ''/metrics''), (Ep_health, ''/api/v1/health'')} \<or>
    (\<exists>c d w'. snd (auth_refusal h) = HTTPException c d \<and>
      serve_http pm S cfg h m p b w = Some (Problem c d, w') \<and> sess w' = sess w)"
proof (cases "ep \<in> fst ` set open_endpoints")
  case True
  then show ?thesis using path_matching.dispatch_open [OF assms(1,4)] by (simp add: open_endpoints_def)
next
  case False
  then show ?thesis using path_matching.serve_http_unidentified [OF assms] by blast
qed

definition no_headers :: headers where
  "no_headers = \<lparr>x_client_verify = None, x_client_dn = None, x_client_serial = None\<rparr>"

definition lab_args :: http_args where
  "lab_args = \<lparr>node_body = payload_2, beat_body = no_note, audit_args = default_audit_params\<rparr>"

theorem only_health_runs_without_identity_witness:
  "\<exists>d w'. serve_http simple_match mem_orm default_settings no_headers ''POST'' ''/api/v1/nodes'' lab_args (empty_lab {}) =
    Some (Problem 401 d, w')"
proof -
  have n: "identity_of no_headers = None" by (simp add: identity_of_def no_headers_def)
  have "dispatch simple_match (app_routes default_settings) ''POST'' ''/api/v1/nodes'' = Some (Ep_register_node, [])"
    by (rule simple.dispatch_register)
  from only_health_runs_without_identity [OF simple_matching n _ this, of mem_orm lab_args "empty_lab {}"]
  show ?thesis by (auto simp: default_settings_def auth_refusal_def no_headers_def)
qed

end
