(* ===== verification/Beating.thy ===== *)
theory Beating
  imports Enrolment
begin

text \<open>
  The agent's heartbeat loop against the controller: each beat is posted, run as a request, and its
  answer is what the agent's pass sees. Between beats the controller's revocation loop may store a
  new list.
\<close>

text \<open>What a beat meets besides the controller: the draw of the jitter, the sleep, the body's JSON.\<close>

record beat_round =
  draw :: rat
  round_nap :: "unit res"
  reply :: pyval

definition round_beat :: "request \<Rightarrow> response res \<Rightarrow> beat_round \<Rightarrow> beat" where
  "round_beat req out x =
     \<lparr>beat_answer = Ok (answer_to req out (reply x)), uniform = draw x, beat_nap = round_nap x\<rparr>"

fun beat_against :: "'s orm \<Rightarrow> controller_settings \<Rightarrow> headers \<Rightarrow> (http_response \<Rightarrow> unit res) \<Rightarrow> agent_settings
    \<Rightarrow> beat_round list \<Rightarrow> agent_effect list \<Rightarrow> 's world \<Rightarrow> unit res \<times> agent_effect list \<times> 's world" where
  "beat_against S cfg h rfs s [] t w = (Ok (), t, w)"
| "beat_against S cfg h rfs s (x # xs) t w =
     (case run_request S cfg h (POST_heartbeat (agent_node_id s) no_note) w of (out, w') \<Rightarrow>
        case beat_pass rfs s (round_beat (POST_heartbeat (agent_node_id s) no_note) out x) t of
          (Ok _, t') \<Rightarrow> beat_against S cfg h rfs s xs t' w'
        | (Raise e, t') \<Rightarrow> (Raise e, t', w'))"

definition naps_end :: "beat_round list \<Rightarrow> bool" where
  "naps_end xs \<longleftrightarrow> (\<forall>x \<in> set xs. round_nap x = Ok ())"

text \<open>The agent's pass on the controller's answer: counted by the status, never the end of the loop.\<close>

lemma answered_pass:
  assumes "http_status rfs" and "round_nap x = Ok ()"
  shows "fst (beat_pass rfs s (round_beat req out x) t) = Ok ()"
    and "count_list (snd (beat_pass rfs s (round_beat req out x) t)) (Heartbeats_Inc l) = count_list t (Heartbeats_Inc l) +
      (if l = (if 200 \<le> status_of req out \<and> status_of req out < 300 then ''success'' else ''failure'') then 1 else 0)"
proof -
  let ?r = "answer_to req out (reply x)"
  have c: "rfs ?r = Ok () \<and> 200 \<le> status_of req out \<and> status_of req out < 300 \<or>
      (\<exists>m. rfs ?r = Raise (HTTPError m)) \<and> \<not> (200 \<le> status_of req out \<and> status_of req out < 300)"
    by (rule http_status.raise_for_status_cases [OF assms(1), of ?r]) (auto simp: answer_to_def)
  then have h: "beat_harmless rfs (round_beat req out x)"
    using assms(2) by (auto simp: beat_harmless_def round_beat_def answer_to_def)
  have "beat_result rfs (round_beat req out x) =
      (if 200 \<le> status_of req out \<and> status_of req out < 300 then ''success'' else ''failure'')"
    using c by (auto simp: beat_result_def beat_ok_def round_beat_def answer_to_def)
  with beat_pass_harmless(1,2) [OF h] show "fst (beat_pass rfs s (round_beat req out x) t) = Ok ()"
    and "count_list (snd (beat_pass rfs s (round_beat req out x) t)) (Heartbeats_Inc l) = count_list t (Heartbeats_Inc l) +
      (if l = (if 200 \<le> status_of req out \<and> status_of req out < 300 then ''success'' else ''failure'') then 1 else 0)"
    by simp_all
qed

text \<open>The agent's own row, as the controller holds it.\<close>

definition enrolled_as :: "agent_settings \<Rightarrow> mtls_identity \<Rightarrow> node list \<Rightarrow> bool" where
  "enrolled_as s i ns \<longleftrightarrow> (\<exists>n \<in> set ns. node_id n = agent_node_id s \<and> common_name n = id_common_name i)"

context orm_live begin

lemma beats_while_live:
  assumes "http_status rfs" and "identity_of h = Some i" and "naps_end xs"
    and "store_ok (durable (abs (sess w)))" and "live (revoked_serials w) i"
    and "enrolled_as s i (fst (durable (abs (sess w))))"
  shows "\<exists>t' w'. beat_against S cfg h rfs s xs t w = (Ok (), t', w') \<and>
    count_list t' (Heartbeats_Inc ''success'') = count_list t (Heartbeats_Inc ''success'') + length xs \<and>
    count_list t' (Heartbeats_Inc ''failure'') = count_list t (Heartbeats_Inc ''failure'') \<and>
    store_ok (durable (abs (sess w'))) \<and> enrolled_as s i (fst (durable (abs (sess w')))) \<and>
    revoked_serials w' = revoked_serials w"
  using assms(3-6)
proof (induction xs arbitrary: t w)
  case Nil
  then show ?case by simp
next
  case (Cons x xs)
  let ?req = "POST_heartbeat (agent_node_id s) no_note"
  obtain n where n: "n \<in> set (fst (durable (abs (sess w))))" "node_id n = agent_node_id s" "common_name n = id_common_name i"
    using Cons.prems(4) by (auto simp: enrolled_as_def)
  obtain t1 t2 w1 where r: "run_request S cfg h ?req w = (Ok (R_node (node_row (beaten n t1))), w1)"
    and d: "fst (durable (abs (sess w1))) = write_node (fst (durable (abs (sess w)))) (beaten n t1)"
    using request_heartbeat_own_live [OF Cons.prems(2) assms(2) Cons.prems(3) n(1), of cfg no_note] n(2,3) by auto
  note ok = store_ok_after_request [OF Cons.prems(2) r]
  have "node_pk n \<noteq> None" using Cons.prems(2) n(1) by (simp add: store_ok_def node_table_ok_def)
  from beaten_row_written [OF n(1) this, of t1] have e: "enrolled_as s i (fst (durable (abs (sess w1))))"
    unfolding enrolled_as_def d using n(2,3) by (intro bexI [of _ "node_row (beaten n t1)"]) simp_all
  let ?b = "round_beat ?req (Ok (R_node (node_row (beaten n t1)))) x"
  have nap: "round_nap x = Ok ()" "naps_end xs" using Cons.prems(1) by (simp_all add: naps_end_def)
  note p = answered_pass [OF assms(1) nap(1), of s ?req "Ok (R_node (node_row (beaten n t1)))" t, simplified]
  obtain t' where t': "beat_pass rfs s ?b t = (Ok (), t')" using p(1) by (cases "beat_pass rfs s ?b t") auto
  have "live (revoked_serials w1) i" using ok(2) Cons.prems(3) by simp
  from Cons.IH [OF nap(2) ok(1) this e, of t'] p(2) t' r ok(2) show ?case by auto
qed

lemma beats_once_revoked:
  assumes "http_status rfs" and "identity_of h = Some i" and "naps_end xs"
    and "store_ok (durable (abs (sess w)))" and "serial i = Some k" and "k \<in> revoked_serials w"
  shows "\<exists>t' w' es. beat_against S cfg h rfs s xs t w = (Ok (), t', w') \<and>
    count_list t' (Heartbeats_Inc ''success'') = count_list t (Heartbeats_Inc ''success'') \<and>
    count_list t' (Heartbeats_Inc ''failure'') = count_list t (Heartbeats_Inc ''failure'') + length xs \<and>
    fst (durable (abs (sess w'))) = fst (durable (abs (sess w))) \<and>
    snd (durable (abs (sess w'))) = snd (durable (abs (sess w))) @ es \<and> length es = length xs \<and>
    (\<forall>e \<in> set es. action e = AUTH_FAILURE \<and> result e = REJECTED \<and> actor_cn e = id_common_name i)"
  using assms(3,4,6)
proof (induction xs arbitrary: t w)
  case Nil
  then show ?case by simp
next
  case (Cons x xs)
  let ?req = "POST_heartbeat (agent_node_id s) no_note"
  let ?out = "Raise (HTTPException 403 ''Client certificate has been revoked'') :: response res"
  obtain w1 where r: "run_request S cfg h ?req w = (?out, w1)"
    and d: "durable (abs (sess w1)) = (fst (durable (abs (sess w))), write_event (snd (durable (abs (sess w))))
      (refusal_event i (''cert:'' @ py_hex k)
         [(''reason'', PStr ''certificate revoked''), (''serial'', PStr (py_hex k))] (clock w (reads w))))"
    using request_revoked_live [OF Cons.prems(2) assms(2,5) Cons.prems(3), of ?req cfg] by auto
  note ok = store_ok_after_request [OF Cons.prems(2) r]
  let ?b = "round_beat ?req ?out x"
  have nap: "round_nap x = Ok ()" "naps_end xs" using Cons.prems(1) by (simp_all add: naps_end_def)
  note p = answered_pass [OF assms(1) nap(1), of s ?req ?out t, simplified]
  obtain t' where t': "beat_pass rfs s ?b t = (Ok (), t')" using p(1) by (cases "beat_pass rfs s ?b t") auto
  have "k \<in> revoked_serials w1" using ok(2) Cons.prems(3) by simp
  from Cons.IH [OF nap(2) ok(1) this, of t'] obtain t2 w2 es where
    i: "beat_against S cfg h rfs s xs t' w1 = (Ok (), t2, w2)"
      "count_list t2 (Heartbeats_Inc ''success'') = count_list t' (Heartbeats_Inc ''success'')"
      "count_list t2 (Heartbeats_Inc ''failure'') = count_list t' (Heartbeats_Inc ''failure'') + length xs"
      "fst (durable (abs (sess w2))) = fst (durable (abs (sess w1)))"
      "snd (durable (abs (sess w2))) = snd (durable (abs (sess w1))) @ es" "length es = length xs"
      "\<forall>e \<in> set es. action e = AUTH_FAILURE \<and> result e = REJECTED \<and> actor_cn e = id_common_name i"
    by blast
  obtain e where e: "snd (durable (abs (sess w1))) = snd (durable (abs (sess w))) @ [e]"
    "action e = AUTH_FAILURE \<and> result e = REJECTED \<and> actor_cn e = id_common_name i"
    using d by (auto simp: write_event_def refusal_event_def)
  show ?case
    using i e d p(2) t' r by (intro exI [of _ t2] exI [of _ w2] exI [of _ "e # es"]) auto
qed

text \<open>Beats, then a pass of the revocation loop that stores the agent's serial, then beats.\<close>

lemma beats_until_revoked:
  assumes "http_status rfs" and "identity_of h = Some i" and "naps_end xs" and "naps_end ys"
    and "store_ok (durable (abs (sess w)))" and "live (revoked_serials w) i"
    and "enrolled_as s i (fst (durable (abs (sess w))))" and "serial i = Some k" and "k \<in> R"
  shows "\<exists>t1 w1 t2 w2 es. beat_against S cfg h rfs s xs t w = (Ok (), t1, w1) \<and>
    beat_against S cfg h rfs s ys t1 (snd (crl_iteration (Ok R, z) w1)) = (Ok (), t2, w2) \<and>
    count_list t2 (Heartbeats_Inc ''success'') = count_list t (Heartbeats_Inc ''success'') + length xs \<and>
    count_list t2 (Heartbeats_Inc ''failure'') = count_list t (Heartbeats_Inc ''failure'') + length ys \<and>
    fst (durable (abs (sess w2))) = fst (durable (abs (sess w1))) \<and>
    snd (durable (abs (sess w2))) = snd (durable (abs (sess w1))) @ es \<and> length es = length ys \<and>
    (\<forall>e \<in> set es. action e = AUTH_FAILURE \<and> result e = REJECTED \<and> actor_cn e = id_common_name i)"
proof -
  obtain t1 w1 where b: "beat_against S cfg h rfs s xs t w = (Ok (), t1, w1)"
    "count_list t1 (Heartbeats_Inc ''success'') = count_list t (Heartbeats_Inc ''success'') + length xs"
    "count_list t1 (Heartbeats_Inc ''failure'') = count_list t (Heartbeats_Inc ''failure'')"
    "store_ok (durable (abs (sess w1)))"
    using beats_while_live [OF assms(1-3,5-7), of cfg t] by blast
  let ?w = "snd (crl_iteration (Ok R, z) w1)"
  have s: "sess ?w = sess w1" "k \<in> revoked_serials ?w"
    using crl_iteration_frame(1,4) [of "(Ok R, z)" w1] assms(9) by (simp_all add: crl_iteration_frame)
  have "store_ok (durable (abs (sess ?w)))" using b(4) s(1) by simp
  from beats_once_revoked [OF assms(1,2,4) this assms(8) s(2), of cfg s t1] b s(1) show ?thesis by auto
qed

end

end
