(* ===== verification/Settled.thy ===== *)
theory Settled
  imports Interleaving_Outcomes Enrolment
begin

text \<open>
  What the status of an answer settles about the tables, for the client that gets it: a registration
  that is answered by a success or by 409 means that the \<open>node_id\<close> is in the table, a heartbeat that is
  answered by a success that the row has been beaten. This holds of every request, whoever sent it
  and whatever overlaps, and of calls that are broken off.
\<close>

definition success :: "int \<Rightarrow> bool" where
  "success c \<longleftrightarrow> 200 \<le> c \<and> c < 300"

fun settled :: "request \<Rightarrow> response res \<Rightarrow> db \<Rightarrow> bool" where
  "settled (POST_nodes p) r d \<longleftrightarrow>
     (success (status_of (POST_nodes p) r) \<or> status_of (POST_nodes p) r = 409 \<longrightarrow> node_id p \<in> node_id ` set (fst d))"
| "settled (POST_heartbeat x y) r d \<longleftrightarrow> (success (status_of (POST_heartbeat x y) r) \<longrightarrow> has_beaten x d)"
| "settled _ r d \<longleftrightarrow> True"

lemma settled_kept: "kept d d' \<Longrightarrow> settled req r d \<Longrightarrow> settled req r d'"
  by (cases req) (auto simp: kept_has_beaten kept_ids simp del: image_iff)

interpretation settles: request_promise kept "settled req" cfg for req cfg
  by unfold_locales (fact kept_refl, fact kept_trans, fact settled_kept)

text \<open>A result that settles nothing.\<close>

fun unsettling :: "exn \<Rightarrow> bool" where
  "unsettling (HTTPException c m) \<longleftrightarrow> c \<noteq> 409 \<and> \<not> success (int c)"
| "unsettling e \<longleftrightarrow> True"

lemma settled_raise: "unsettling e \<Longrightarrow> settled req (Raise e) d"
  by (cases req; cases e) (auto simp: status_of_def success_def)

lemma achieves_raise: "unsettling e \<Longrightarrow> achieves kept (settled req) (Finish (Raise e)) d"
  by (simp add: settled_raise)

lemma achieves_mono: "achieves L Q p d \<Longrightarrow> (\<And>r d. Q r d \<Longrightarrow> Q' r d) \<Longrightarrow> achieves L Q' p d"
proof (induction p arbitrary: d)
  case (Transact g p)
  then show ?case by (auto split: res.splits)
qed auto

lemma achieves_refuse: "unsettling e \<Longrightarrow> achieves kept (settled req) (refuse_prog i tgt det e) d"
  by (simp add: refuse_prog_def settled_raise)

section \<open>Every request\<close>

lemma register_settles:
  assumes "tables_ok d" and "live R i" and "valid_node_create p"
  shows "achieves kept (settled (POST_nodes p)) (register_prog p i) d"
proof (cases "may_register i p")
  case True
  have "settled (POST_nodes p) r d'" if "registration_answered d p r d'" for r d'
    using that by (simp add: registration_answered_def)
  then show ?thesis by (rule achieves_mono [OF registration_achieves [OF assms(1,2) True assms(3)]])
qed (simp add: register_prog_def achieves_refuse success_def)

lemma heartbeat_settles:
  assumes "tables_ok d" and "live R i"
  shows "achieves kept (settled (POST_heartbeat x y)) (heartbeat_prog x i) d"
  unfolding heartbeat_prog_def
proof (rule achieves_node_by_id [OF assms(1)], assumption)
  fix d' assume ok: "tables_ok d'"
  have "achieves kept (settled (POST_heartbeat x y)) (beat_prog n i) d'"
    if n: "n \<in> set (fst d')" "node_id n = x" "id_common_name i = common_name n" for n
  proof (rule achieves_mono)
    show "achieves kept (beat_answered d' n) (beat_prog n i) d'"
      using achieves_update [OF ok n(1) assms(2) _ _ row_kept_refl] n(3)
      by (simp add: beat_prog_def del: achieves.simps(4))
    show "settled (POST_heartbeat x y) r e" if "beat_answered d' n r e" for r e
      using that n(2) by (simp add: beat_answered_def)
  qed
  then show "achieves kept (settled (POST_heartbeat x y)) (case find (\<lambda>n. node_id n = x) (fst d') of
       None \<Rightarrow> Finish (Raise (HTTPException 404 (''Node '' @ quoted x @ '' not found'')))
     | Some n \<Rightarrow>
         if id_common_name i \<noteq> common_name n
         then refuse_prog i (''node:'' @ x)
                [(''reason'', PStr ''heartbeat from non-matching identity''), (''claimed_node'', PStr x)]
                (HTTPException 403 ''Cannot heartbeat on behalf of another node'')
         else beat_prog n i) d'"
    by (auto simp: achieves_refuse success_def settled_raise simp del: settled.simps split: option.splits dest: find_SomeD)
qed

lemma trivially_settles: "(\<And>r d. Q r d) \<Longrightarrow> achieves L Q p d"
  by (induction p arbitrary: d) (auto split: res.splits)

lemma handler_settles:
  assumes "tables_ok d" and "live R i" and "valid_request req"
  shows "achieves kept (settled req) (handler_prog cfg req i) d"
proof (cases req)
  case (POST_nodes p)
  then show ?thesis using register_settles [OF assms(1,2)] assms(3) by (simp del: settled.simps)
next
  case (POST_heartbeat x y)
  then show ?thesis using heartbeat_settles [OF assms(1,2)] by (simp del: settled.simps)
qed (auto intro: trivially_settles)

lemma identify_unsettling: "identify cfg h = Raise e \<Longrightarrow> unsettling e"
  by (auto simp: identify_def auth_refusal_def success_def split: if_splits option.splits)

lemma request_settles:
  assumes "tables_ok d"
  shows "achieves kept (settled req) (request_prog cfg h R req) d"
proof (cases "protected req")
  case False
  then have "settled req r d" for r d by (cases req) simp_all
  then show ?thesis by (rule trivially_settles)
next
  case True
  show ?thesis
  proof (cases "identify cfg h")
    case (Ok i)
    then show ?thesis
      using True handler_settles [OF assms, of R i req cfg]
      by (auto simp: request_prog_def require_live_prog_def live_def achieves_refuse settled_raise success_def
          simp del: settled.simps split: option.splits)
  qed (use True identify_unsettling in \<open>simp add: request_prog_def settled_raise del: settled.simps\<close>)
qed

section \<open>Every task of the process\<close>

definition server_settles :: "server \<Rightarrow> bool" where
  "server_settles s \<longleftrightarrow> (\<forall>j < length (tasks (s_pool s)).
     achieves kept (settled (a_request (fst (tasks (s_pool s) ! j)))) (s_task s j) (s_db s))"

text \<open>What breaks a call off is no \<open>HTTPException\<close>, or at least not one of these.\<close>

fun tame :: "event \<Rightarrow> bool" where
  "tame (Break j e) \<longleftrightarrow> unsettling e"
| "tame _ \<longleftrightarrow> True"

lemma server_step_tag:
  assumes "j < length (tasks (s_pool s))"
  shows "fst (tasks (s_pool (server_step cfg e s)) ! j) = fst (tasks (s_pool s) ! j)"
  using assms by (cases e) (auto simp: spawn_def nth_append resume_def break_off_def nth_list_update split: prod.splits)

lemma achieves_break:
  "unsettling e \<Longrightarrow> achieves kept (settled req) p d \<Longrightarrow> achieves kept (settled req) (prog_break e p) d"
  by (cases p) (simp_all add: settled_raise del: settled.simps)

lemma server_settles_step:
  assumes "server_safe cfg s" and "server_settles s" and "tame e"
  shows "server_settles (server_step cfg e s)"
  unfolding server_settles_def
proof (intro allI impI)
  fix j assume j: "j < length (tasks (s_pool (server_step cfg e s)))"
  have ok: "tables_ok (s_db s)" using assms(1) by (simp add: server_safe_def requests.pool_safe_def s_db_def)
  let ?Q = "settled (a_request (fst (tasks (s_pool (server_step cfg e s)) ! j)))"
  show "achieves kept ?Q (s_task (server_step cfg e s) j) (s_db (server_step cfg e s))"
  proof (cases "j < length (tasks (s_pool s))")
    case True
    then have a: "achieves kept ?Q (s_task s j) (s_db s)"
      using assms(2) by (simp add: server_step_tag server_settles_def del: server_step.simps)
    show ?thesis
    proof (cases e)
      case (Break k ex)
      have "achieves kept ?Q (prog_break ex (s_task s j)) (s_db s)"
        by (rule achieves_break [OF _ a]) (use assms(3) Break in simp)
      then show ?thesis using a True Break by (cases "k = j") (simp_all add: s_task_def s_db_def break_task)
    next
      case (Arrive h req)
      then show ?thesis
        using settles.achieves_server_step [OF True a, where cfg = cfg and e = e]
        by (simp add: s_db_step_other kept_refl del: server_step.simps)
    next
      case (Resume k t)
      then show ?thesis
        using settles.achieves_server_step [OF True a, where cfg = cfg and e = e] server_step_kept [OF assms(1)]
        by (simp del: server_step.simps)
    next
      case (New_crl R)
      then show ?thesis
        using settles.achieves_server_step [OF True a, where cfg = cfg and e = e]
        by (simp add: s_db_step_other kept_refl del: server_step.simps)
    qed
  next
    case False
    then obtain h req where e: "e = Arrive h req" "j = length (tasks (s_pool s))"
      using j by (cases e) (auto simp: spawn_def resume_def break_off_def split: prod.splits if_splits)
    then show ?thesis using request_settles [OF ok] by (simp add: s_task_def s_db_def spawn_def)
  qed
qed

lemma server_settles_start: "server_settles (server_start d R)"
  by (simp add: server_settles_def server_start_def)

lemma server_settles_result:
  assumes "server_settles s" and "j < length (tasks (s_pool s))" and "tasks (s_pool s) ! j = (a, Finish r)"
  shows "settled (a_request a) r (s_db s)"
proof -
  have "achieves kept (settled (a_request a)) (Finish r) (s_db s)"
    using assms unfolding server_settles_def s_task_def by (metis fst_conv snd_conv)
  then show ?thesis by simp
qed

section \<open>Where the state of a row comes from\<close>

text \<open>
  Every row is active or in a state that \<open>B\<close> has for its \<open>node_id\<close>, and so is the state that each
  registration asks for, of those that came in.
\<close>

definition originates :: "(string \<Rightarrow> node_state \<Rightarrow> bool) \<Rightarrow> server \<Rightarrow> bool" where
  "originates B s \<longleftrightarrow>
     (\<forall>n \<in> set (fst (s_db s)). state n = ACTIVE \<or> B (node_id n) (state n)) \<and>
     (\<forall>a \<in> set (map fst (tasks (s_pool s))). \<forall>p. a_request a = POST_nodes p \<longrightarrow> B (node_id p) (state p))"

lemma conc_step_states:
  assumes "conc_step R i req d d'" and "\<forall>n \<in> set (fst d). state n = ACTIVE \<or> B (node_id n) (state n)"
    and "\<And>p. req = POST_nodes p \<Longrightarrow> B (node_id p) (state p)"
  shows "\<forall>n \<in> set (fst d'). state n = ACTIVE \<or> B (node_id n) (state n)"
  using assms
proof (induction rule: conc_step.induct)
  case (c_enrol p ns es t1 t2 t)
  then show ?case by (auto simp: write_new_node node_row_def)
qed (auto simp: update_row_def)

lemma server_step_tags:
  "map fst (tasks (s_pool (server_step cfg e s))) = map fst (tasks (s_pool s)) @
     (case e of Arrive h req \<Rightarrow> [\<lparr>a_headers = h, a_revoked = s_revoked s, a_request = req\<rparr>] | _ \<Rightarrow> [])"
proof (cases e)
  case (Resume j t)
  then show ?thesis by (auto simp: resume_def map_update split: prod.splits) (metis fst_conv list_update_id map_update nth_map)
next
  case (Break j x)
  then show ?thesis by (auto simp: break_off_def map_update split: prod.splits) (metis fst_conv list_update_id map_update nth_map)
qed (simp_all add: spawn_def)

lemma originates_step:
  assumes "server_safe cfg s" and "originates B s"
    and "\<And>h p. e = Arrive h (POST_nodes p) \<Longrightarrow> B (node_id p) (state p)"
  shows "originates B (server_step cfg e s)"
proof -
  have "\<forall>n \<in> set (fst (s_db (server_step cfg e s))). state n = ACTIVE \<or> B (node_id n) (state n)"
  proof (cases "s_db (server_step cfg e s) = s_db s")
    case True
    then show ?thesis using assms(2) by (simp add: originates_def)
  next
    case False
    from server_step_change [OF assms(1) this] obtain j a g p where
      j: "j < length (tasks (s_pool s))" "tasks (s_pool s) ! j = (a, Transact g p)"
      and c: "commits cfg a (s_db s) (s_db (server_step cfg e s))" .
    have "a \<in> set (map fst (tasks (s_pool s)))" using j nth_mem [OF j(1)] by force
    then have b: "B (node_id q) (state q)" if "a_request a = POST_nodes q" for q
      using assms(2) that by (auto simp: originates_def)
    obtain i where "conc_step (a_revoked a) i (a_request a) (s_db s) (s_db (server_step cfg e s))"
      using c by (auto simp: commits_def)
    then show ?thesis by (rule conc_step_states) (use assms(2) b in \<open>auto simp: originates_def\<close>)
  qed
  moreover have "\<forall>a \<in> set (map fst (tasks (s_pool (server_step cfg e s)))). \<forall>p. a_request a = POST_nodes p \<longrightarrow> B (node_id p) (state p)"
    unfolding server_step_tags using assms(2,3) by (auto simp: originates_def split: event.splits)
  ultimately show ?thesis by (simp add: originates_def del: server_step.simps)
qed

end
