(* ===== verification/System.thy ===== *)
theory System
  imports Settled Agent_Effects
begin

text \<open>
  The two services together: the process of one agent on its event loop, the controller with all its
  requests, and the answers between them. What the agent takes from an answer holds of the tables.
\<close>

section \<open>The system\<close>

record system =
  sys_agent :: process
  sys_controller :: server

text \<open>
  An event of the agent's loop other than an answer; an event of the controller, such as a request of
  this agent or of any other client that comes in; a request that has ended and whose answer the agent
  gets. The network may give the agent the answer to any request like the one it waits for.
\<close>

datatype system_event = At_Agent loop_event | At_Controller event | Reply nat pyval

fun waits_for :: "agent_settings \<Rightarrow> hb_state \<Rightarrow> request \<Rightarrow> bool" where
  "waits_for s (HB_Registering k d) (POST_nodes p) \<longleftrightarrow>
     p = payload_of s (case ip_address p of None \<Rightarrow> [] | Some a \<Rightarrow> a)"
| "waits_for s HB_Beating (POST_heartbeat x y) \<longleftrightarrow> x = agent_node_id s \<and> y = no_note"
| "waits_for s _ _ \<longleftrightarrow> False"

fun carries_answer :: "loop_event \<Rightarrow> bool" where
  "carries_answer (Completes k (Ok (Answered r))) \<longleftrightarrow> True"
| "carries_answer _ \<longleftrightarrow> False"

definition deliver :: "(http_response \<Rightarrow> unit res) \<Rightarrow> agent_settings \<Rightarrow> task list \<Rightarrow> admission \<times> (db, response) prog \<Rightarrow> pyval
    \<Rightarrow> process \<Rightarrow> process" where
  "deliver rfs s order u body p =
     (case u of (a, Finish out) \<Rightarrow>
        if waits_for s (heartbeat_task p) (a_request a)
        then process_step rfs s order (Completes Heartbeat_Task (Ok (Answered (answer_to (a_request a) out body)))) p
        else p
      | _ \<Rightarrow> p)"

fun system_step :: "controller_settings \<Rightarrow> (http_response \<Rightarrow> unit res) \<Rightarrow> agent_settings \<Rightarrow> task list \<Rightarrow> system_event \<Rightarrow> system \<Rightarrow> system" where
  "system_step cfg rfs s order (At_Agent e) q =
     (if carries_answer e then q else q\<lparr>sys_agent := process_step rfs s order e (sys_agent q)\<rparr>)"
| "system_step cfg rfs s order (At_Controller e) q =
     (if tame e then q\<lparr>sys_controller := server_step cfg e (sys_controller q)\<rparr> else q)"
| "system_step cfg rfs s order (Reply j body) q =
     (if j < length (tasks (s_pool (sys_controller q)))
      then q\<lparr>sys_agent := deliver rfs s order (tasks (s_pool (sys_controller q)) ! j) body (sys_agent q)\<rparr>
      else q)"

fun system_run :: "controller_settings \<Rightarrow> (http_response \<Rightarrow> unit res) \<Rightarrow> agent_settings \<Rightarrow> task list \<Rightarrow> system_event list \<Rightarrow> system \<Rightarrow> system" where
  "system_run cfg rfs s order [] q = q"
| "system_run cfg rfs s order (e # es) q = system_run cfg rfs s order es (system_step cfg rfs s order e q)"

definition system_start :: "agent_effect list \<Rightarrow> db \<Rightarrow> int set \<Rightarrow> system" where
  "system_start t d R = \<lparr>sys_agent = process_start t, sys_controller = server_start d R\<rparr>"

section \<open>What the agent counts\<close>

definition successes :: "agent_effect list \<Rightarrow> nat" where
  "successes l = length (filter (\<lambda>e. e = Heartbeats_Inc ''success'') l)"

lemma successes_simps [simp]:
  "successes [] = 0" "successes (e # l) = (if e = Heartbeats_Inc ''success'' then 1 else 0) + successes l"
  "successes (l @ m) = successes l + successes m"
  by (simp_all add: successes_def)

lemma successes_pos: "0 < successes l \<longleftrightarrow> Heartbeats_Inc ''success'' \<in> set l"
  by (auto simp: successes_def filter_empty_conv)

lemma successes_effects [simp]:
  "loop_starting s \<noteq> Heartbeats_Inc x" "listening s \<noteq> Heartbeats_Inc x" "agent_starting s \<noteq> Heartbeats_Inc x"
  by (simp_all add: loop_starting_def listening_def agent_starting_def)

lemma successes_register:
  "successes (snd (register_begins s u t)) = successes t"
  "successes (snd (register_ends rfs s r t)) = successes t"
  by (cases "primary_ip u t"; cases "fst (primary_ip u t)";
      auto simp: register_begins_def act_simps primary_ip_eq)
     (cases "json r"; cases "rfs r"; auto simp: register_ends_def act_simps)

lemma successes_parts:
  "successes (snd (leave e t)) = successes t" "successes (snd (attempt_failed k d e t)) = successes t"
  "successes (snd (begin_beat s t)) = successes t" "successes (snd (begin_pause s x t)) = successes t"
  "successes (snd (beat_failed s x e t)) = successes t"
  by (simp_all add: leave_def attempt_failed_def begin_beat_def begin_pause_def beat_failed_def)

lemma successes_attempt: "successes (snd (begin_attempt s x k d t)) = successes t"
  using successes_register(1) [of s "sock_name x" t]
  by (auto simp: begin_attempt_def successes_parts split: prod.splits res.splits)

fun beats_with :: "(http_response \<Rightarrow> unit res) \<Rightarrow> reply res \<Rightarrow> bool" where
  "beats_with rfs (Ok (Answered r)) = is_ok (heartbeat_ends rfs r)"
| "beats_with rfs _ = False"

lemma hb_step_successes:
  "successes (snd (hb_step rfs s x st r t)) = successes t + (if st = HB_Beating \<and> beats_with rfs r then 1 else 0)"
proof (cases "(rfs, s, x, st, r, t)" rule: hb_step.cases)
  case (3 rfs' s' x' k d h t')
  then show ?thesis
    using successes_register(2) [of rfs s h t]
    by (auto simp: successes_parts split: prod.splits res.splits)
qed (auto simp: successes_parts successes_attempt split: res.splits)

lemma others_successes:
  "successes (snd (ms_step s x stop st r t)) = successes t" "beats s (snd (ms_step s x stop st r t)) = beats s t"
  "successes (snd (after_wait ds t)) = successes t" "beats s (snd (after_wait ds t)) = beats s t"
proof -
  show "successes (snd (ms_step s x stop st r t)) = successes t" "beats s (snd (ms_step s x stop st r t)) = beats s t"
    by (cases "(s, x, stop, st, r, t)" rule: ms_step.cases;
        auto simp: clean_up_def counted listening_def split: res.splits)+
  have "successes (snd (surface ds t)) = successes t" for ds
    by (induction ds arbitrary: t rule: surface.induct) (auto simp: act_simps split: res.splits)
  then show "successes (snd (after_wait ds t)) = successes t" by (simp add: after_wait_def act_simps)
  obtain m where "snd (after_wait ds t) = t @ m" "beats s m = 0" by (rule after_wait_emits)
  then show "beats s (snd (after_wait ds t)) = beats s t" by simp
qed

section \<open>What the agent takes from its answers\<close>

text \<open>
  For two facts, \<open>E\<close> that the agent is enrolled and \<open>B\<close> that its row is beaten: an answer that is on its
  way into the task bears out what the task will take from it.
\<close>

fun bears_out :: "(http_response \<Rightarrow> unit res) \<Rightarrow> bool \<Rightarrow> bool \<Rightarrow> hb_state \<Rightarrow> reply res \<Rightarrow> bool" where
  "bears_out rfs E B (HB_Registering k d) r \<longleftrightarrow> (registers_with rfs r \<longrightarrow> E)"
| "bears_out rfs E B HB_Beating r \<longleftrightarrow> (beats_with rfs r \<longrightarrow> B)"
| "bears_out rfs E B _ r \<longleftrightarrow> True"

definition agent_agrees :: "(http_response \<Rightarrow> unit res) \<Rightarrow> agent_settings \<Rightarrow> agent_effect list \<Rightarrow> bool \<Rightarrow> bool \<Rightarrow> process \<Rightarrow> bool" where
  "agent_agrees rfs s t E B p \<longleftrightarrow>
     queue_ok p \<and> attempts_made (heartbeat_task p) \<le> 10 \<and>
     (in_loop (heartbeat_task p) \<or> beats s t < beats s (performed p) \<longrightarrow> E) \<and>
     (successes t < successes (performed p) \<longrightarrow> B) \<and>
     (\<forall>r. Step Heartbeat_Task r \<in> set (ready p) \<longrightarrow> bears_out rfs E B (heartbeat_task p) r)"

lemma agent_agrees_mono:
  assumes "agent_agrees rfs s t E B p" and "E \<Longrightarrow> E'" and "B \<Longrightarrow> B'"
  shows "agent_agrees rfs s t E' B' p"
proof -
  have "bears_out rfs E' B' st r" if "bears_out rfs E B st r" for st r
    using that assms(2,3) by (cases st) auto
  then show ?thesis using assms unfolding agent_agrees_def by blast
qed

lemma hb_step_agrees:
  assumes "hb_step rfs s x st r u = (st', u')" and "attempts_made st \<le> 10" and "bears_out rfs E B st r"
    and "in_loop st \<or> beats s t < beats s u \<longrightarrow> E" and "successes t < successes u \<longrightarrow> B"
  shows "attempts_made st' \<le> 10 \<and> (in_loop st' \<or> beats s t < beats s u' \<longrightarrow> E) \<and> (successes t < successes u' \<longrightarrow> B)"
proof -
  obtain m where m: "u' = u @ m" "emits rfs s st r st' m"
    using hb_step_emits [OF assms(2), of rfs s r x u] assms(1) by (auto simp: step_emits_def)
  have "in_loop st' \<or> 0 < beats s m \<longrightarrow> E"
    using emitsD(1) [OF m(2)] assms(3,4) by auto
  then have e: "in_loop st' \<or> beats s t < beats s u' \<longrightarrow> E" using m(1) assms(4) by auto
  have "successes u' = successes u + (if st = HB_Beating \<and> beats_with rfs r then 1 else 0)"
    using hb_step_successes [of rfs s x st r u] assms(1) by simp
  then have "successes t < successes u' \<longrightarrow> B" using assms(3,5) by (auto split: if_splits)
  then show ?thesis using e emitsD(5) [OF m(2)] by simp
qed

text \<open>A callback that is no step of the heartbeat task.\<close>

lemma agent_agrees_same:
  assumes "agent_agrees rfs s t E B p" and "queue_ok q" and "heartbeat_task q = heartbeat_task p"
    and "successes (performed q) = successes (performed p)" and "beats s (performed q) = beats s (performed p)"
    and "\<And>r. Step Heartbeat_Task r \<in> set (ready q) \<Longrightarrow> Step Heartbeat_Task r \<in> set (ready p) \<or> r = Raise CancelledError \<or>
      bears_out rfs E B (heartbeat_task p) r"
  shows "agent_agrees rfs s t E B q"
proof -
  have "bears_out rfs E B st (Raise CancelledError)" for st by (cases st) auto
  then show ?thesis using assms unfolding agent_agrees_def by auto
qed

lemma advance_effects:
  "k \<noteq> Heartbeat_Task \<Longrightarrow> successes (performed (advance rfs s x k r p)) = successes (performed p)"
  "k \<noteq> Heartbeat_Task \<Longrightarrow> beats s (performed (advance rfs s x k r p)) = beats s (performed p)"
  using others_successes(1,2) [of s x "stop_set p" "metrics_task p" r "performed p"]
  by (cases k; auto simp: advance_def Let_def split: prod.splits)+

lemma step_task_simps:
  "heartbeat_task (step_task rfs s x k r p) = heartbeat_task (advance rfs s x k (if k \<in> must_cancel p then Raise CancelledError else r)
      (p\<lparr>must_cancel := must_cancel p - {k}\<rparr>))"
  "performed (step_task rfs s x k r p) = performed (advance rfs s x k (if k \<in> must_cancel p then Raise CancelledError else r)
      (p\<lparr>must_cancel := must_cancel p - {k}\<rparr>))"
  "Step j v \<in> set (ready (step_task rfs s x k r p)) \<longleftrightarrow> Step j v \<in> set (ready p)"
  by (simp_all add: step_task_def Let_def loop_simps tell_def split: main_state.splits)

lemma agent_agrees_callback:
  assumes "agent_agrees rfs s t E B p" and "ready p = c # cs"
  shows "agent_agrees rfs s t E B (run_callback rfs s order x c (p\<lparr>ready := cs\<rparr>))"
proof -
  have q: "queue_ok p" using assms(1) by (simp add: agent_agrees_def)
  note pop = queue_ok_pop [OF q assms(2)]
  let ?p = "p\<lparr>ready := cs\<rparr>"
  have p: "agent_agrees rfs s t E B ?p"
    by (rule agent_agrees_same [OF assms(1) pop(1)]) (use assms(2) in auto)
  have qr: "queue_ok (run_callback rfs s order x c ?p)"
    by (rule queue_ok_callback [OF pop(1)]) (use pop in auto)
  have ct: "Step Heartbeat_Task v \<in> set (ready (fold cancel ks ?p)) \<Longrightarrow> Step Heartbeat_Task v \<in> set (ready ?p) \<or> v = Raise CancelledError" for v ks
    using cancels_steps [of Heartbeat_Task v ks ?p] by auto
  show ?thesis
  proof (cases c)
    case (Step k v)
    show ?thesis
    proof (cases "k = Heartbeat_Task")
      case False
      show ?thesis
        by (rule agent_agrees_same [OF p qr])
           (use False Step in \<open>auto simp: step_task_simps advance_others advance_effects\<close>)
    next
      case True
      let ?v = "if k \<in> must_cancel p then Raise CancelledError else v"
      obtain st u where st: "hb_step rfs s x (heartbeat_task p) ?v (performed p) = (st, u)" by fastforce
      have "bears_out rfs E B (heartbeat_task p) v" using assms Step True by (auto simp: agent_agrees_def)
      then have "bears_out rfs E B (heartbeat_task p) ?v" by (cases "heartbeat_task p") auto
      from hb_step_agrees [OF st _ this] have r: "attempts_made st \<le> 10" "in_loop st \<or> beats s t < beats s u \<longrightarrow> E"
        "successes t < successes u \<longrightarrow> B" using assms(1) by (auto simp: agent_agrees_def)
      have "steps_in Heartbeat_Task ?p = 0" using pop(2) Step True by simp
      then have "Step Heartbeat_Task w \<notin> set cs" for w by (auto simp: steps_in_def filter_empty_conv)
      then show ?thesis
        using qr r st Step True by (simp add: agent_agrees_def step_task_simps advance_def del: run_callback.simps) (simp add: step_task_simps advance_def)
    qed
  next
    case On_Completion
    show ?thesis
      by (rule agent_agrees_same [OF p qr]) (use On_Completion in \<open>auto simp: on_completion_def loop_simps split: if_splits\<close>)
  next
    case On_Child
    show ?thesis
      by (rule agent_agrees_same [OF p qr])
         (use On_Child in \<open>auto simp: on_child_def loop_simps split: main_state.splits if_splits\<close>)
  next
    case Main_Step
    show ?thesis
      by (rule agent_agrees_same [OF p qr])
         (use Main_Step in
           \<open>auto simp: main_step_def wait_returns_def Let_def loop_simps others_successes(3,4)
             split: main_state.splits if_splits dest!: ct\<close>)
  qed
qed

lemma agent_agrees_event:
  assumes "agent_agrees rfs s t E B p"
    and "\<And>r. e = Completes Heartbeat_Task r \<Longrightarrow> bears_out rfs E B (heartbeat_task p) r"
  shows "agent_agrees rfs s t E B (process_step rfs s order e p)"
proof -
  have q: "queue_ok p" using assms(1) by (simp add: agent_agrees_def)
  note qe = queue_ok_event [OF q, of rfs s order e]
  show ?thesis
  proof (cases e)
    case Signal
    show ?thesis
    proof (rule agent_agrees_same [OF assms(1) qe], unfold Signal)
      fix r assume "Step Heartbeat_Task r \<in> set (ready (process_step rfs s order Signal p))"
      then show "Step Heartbeat_Task r \<in> set (ready p) \<or> r = Raise CancelledError \<or> bears_out rfs E B (heartbeat_task p) r"
        using queue_okD(7) [OF q, of Heartbeat_Task] by (auto simp: loop_simps split: if_splits)
    qed (simp_all add: loop_simps)
  next
    case (Completes k v)
    show ?thesis
      by (rule agent_agrees_same [OF assms(1) qe])
         (use Completes assms(2) in \<open>auto simp: loop_simps split: if_splits\<close>)
  next
    case (Turn x)
    show ?thesis
      unfolding Turn
    proof (rule process_turn [where P = "agent_agrees rfs s t E B", OF assms(1)])
      fix c cs assume "ready p = c # cs"
      then show "agent_agrees rfs s t E B (run_callback rfs s order x c (p\<lparr>ready := cs\<rparr>))"
        by (rule agent_agrees_callback [OF assms(1)])
    qed
  qed
qed

section \<open>The two sides agree\<close>

definition enrolled_in :: "string \<Rightarrow> db \<Rightarrow> bool" where
  "enrolled_in x d \<longleftrightarrow> x \<in> node_id ` set (fst d)"

definition system_ok :: "controller_settings \<Rightarrow> (http_response \<Rightarrow> unit res) \<Rightarrow> agent_settings \<Rightarrow> agent_effect list \<Rightarrow> system \<Rightarrow> bool" where
  "system_ok cfg rfs s t q \<longleftrightarrow> server_safe cfg (sys_controller q) \<and> server_settles (sys_controller q) \<and>
     agent_agrees rfs s t (enrolled_in (agent_node_id s) (s_db (sys_controller q)))
       (has_beaten (agent_node_id s) (s_db (sys_controller q))) (sys_agent q)"

context http_status begin

lemma answer_bears_out:
  assumes "waits_for s st req" and "settled req out d"
  shows "bears_out raise_for_status (enrolled_in (agent_node_id s) d) (has_beaten (agent_node_id s) d) st
    (Ok (Answered (answer_to req out body)))"
proof (cases "(s, st, req)" rule: waits_for.cases)
  case (1 s' k dl p)
  then have "\<exists>ip. p = payload_of s ip" using assms(1) by (simp only: waits_for.simps prod.inject) blast
  then have "agent_node_id s = node_id p" by (auto simp: payload_of_def)
  then show ?thesis
    using assms(2) 1 raise_for_status_Ok_iff [of "answer_to req out body"]
    by (auto simp: register_value_def answer_to_def success_def enrolled_in_def simp del: image_iff split: if_splits res.splits)
next
  case (2 s' x y)
  then show ?thesis
    using assms raise_for_status_Ok_iff [of "answer_to req out body"]
    by (auto simp: heartbeat_ends_def answer_to_def success_def split: res.splits)
qed (use assms(1) in auto)

lemma system_ok_step:
  assumes "system_ok cfg raise_for_status s t q"
  shows "system_ok cfg raise_for_status s t (system_step cfg raise_for_status s order e q)"
proof (cases e)
  case (At_Agent ev)
  have "bears_out raise_for_status E B st v" if "\<not> carries_answer ev" "ev = Completes Heartbeat_Task v" for E B st v
    using that by (cases v rule: may_wake.cases; cases st) auto
  then show ?thesis
    using assms At_Agent by (auto simp: system_ok_def intro: agent_agrees_event)
next
  case (At_Controller ev)
  show ?thesis
  proof (cases "tame ev")
    case True
    have k: "kept (s_db (sys_controller q)) (s_db (server_step cfg ev (sys_controller q)))"
      using assms by (simp add: system_ok_def server_step_kept del: server_step.simps)
    show ?thesis
      using assms At_Controller True server_safe_step server_settles_step
        agent_agrees_mono [where E' = "enrolled_in (agent_node_id s) (s_db (server_step cfg ev (sys_controller q)))"
          and B' = "has_beaten (agent_node_id s) (s_db (server_step cfg ev (sys_controller q)))"]
        kept_ids [OF k] kept_has_beaten [OF k]
      by (auto simp: system_ok_def enrolled_in_def simp del: server_step.simps image_iff)
  qed (use assms At_Controller in simp)
next
  case (Reply j body)
  show ?thesis
  proof (cases "j < length (tasks (s_pool (sys_controller q)))")
    case True
    obtain a p where ap: "tasks (s_pool (sys_controller q)) ! j = (a, p)" by fastforce
    show ?thesis
    proof (cases p)
      case (Finish out)
      then have "settled (a_request a) out (s_db (sys_controller q))"
        using server_settles_result [OF _ True] ap assms by (simp add: system_ok_def)
      then show ?thesis
        using assms Reply True ap Finish answer_bears_out [of s _ "a_request a" out "s_db (sys_controller q)" body]
        by (auto simp: system_ok_def deliver_def simp del: process_step.simps intro!: agent_agrees_event)
    qed (use assms Reply True ap in \<open>simp_all add: deliver_def\<close>)
  qed (use assms Reply in simp)
qed

lemma system_ok_run:
  assumes "tables_ok d"
  shows "system_ok cfg raise_for_status s t (system_run cfg raise_for_status s order es (system_start t d R))"
proof -
  have "system_ok cfg raise_for_status s t (system_start t d R)"
    using server_safe_start [OF assms] server_settles_start queue_ok_start
    by (simp add: system_ok_def system_start_def agent_agrees_def process_start_def)
  moreover have "system_ok cfg raise_for_status s t (system_run cfg raise_for_status s order es q)"
    if "system_ok cfg raise_for_status s t q" for q
    using that by (induction es arbitrary: q) (simp_all add: system_ok_step del: system_step.simps)
  ultimately show ?thesis by blast
qed

end

text \<open>
  A row that is not active is in a state the table held for its \<open>node_id\<close> at the start or a registration
  of that \<open>node_id\<close> asked for.
\<close>

definition given_state :: "db \<Rightarrow> system_event list \<Rightarrow> string \<Rightarrow> node_state \<Rightarrow> bool" where
  "given_state d es x st \<longleftrightarrow> (\<exists>n \<in> set (fst d). node_id n = x \<and> state n = st) \<or>
     (\<exists>h p. At_Controller (Arrive h (POST_nodes p)) \<in> set es \<and> node_id p = x \<and> state p = st)"

lemma system_originates:
  assumes "http_status rfs" and "system_ok cfg rfs s t q" and "originates B (sys_controller q)"
    and "\<And>h p. At_Controller (Arrive h (POST_nodes p)) \<in> set es \<Longrightarrow> B (node_id p) (state p)"
  shows "originates B (sys_controller (system_run cfg rfs s order es q))"
  using assms(2-4)
proof (induction es arbitrary: q)
  case (Cons e es)
  have "originates B (sys_controller (system_step cfg rfs s order e q))"
  proof (cases e)
    case (At_Controller ev)
    have "server_safe cfg (sys_controller q)" using Cons.prems(1) by (simp add: system_ok_def)
    then have "originates B (server_step cfg ev (sys_controller q))"
      by (rule originates_step [OF _ Cons.prems(2)]) (use Cons.prems(3) At_Controller in auto)
    then show ?thesis using At_Controller Cons.prems(2) by (simp del: server_step.simps)
  qed (use Cons.prems(2) in simp_all)
  then have "originates B (sys_controller (system_run cfg rfs s order es (system_step cfg rfs s order e q)))"
    by (rule Cons.IH [OF http_status.system_ok_step [OF assms(1) Cons.prems(1)]]) (auto intro: Cons.prems(3))
  then show ?case by (simp only: system_run.simps)
qed simp

lemma system_run_originates:
  assumes "http_status rfs" and "tables_ok d"
  shows "originates (given_state d es) (sys_controller (system_run cfg rfs s order es (system_start t d R)))"
proof (rule system_originates [OF assms(1), where t = t])
  show "system_ok cfg rfs s t (system_start t d R)"
    using http_status.system_ok_run [OF assms, of cfg s t undefined "[]" R] by simp
  show "originates (given_state d es) (sys_controller (system_start t d R))"
    by (auto simp: originates_def given_state_def system_start_def server_start_def s_db_def)
qed (auto simp: given_state_def)

end
