(* ===== verification/Exchange.thy ===== *)
theory Exchange
  imports Enrolment Routes
begin

text \<open>
  One post of the agent, all the way: the URL it gives to its client, the path that reaches the
  application, the route, the body read as the handler declares it, the request, its response model,
  and the answer the agent's code goes on with.
\<close>

text \<open>The requests of a trace.\<close>

fun post_of :: "agent_effect \<Rightarrow> (string \<times> (string \<times> pyval) list) list" where
  "post_of (Post u b) = [(u, b)]"
| "post_of _ = []"

definition posts :: "agent_effect list \<Rightarrow> (string \<times> (string \<times> pyval) list) list" where
  "posts l = concat (map post_of l)"

text \<open>The request of an endpoint that takes a JSON body; a body it does not take answers 422, left out here.\<close>

fun body_request :: "endpoint \<Rightarrow> string list \<Rightarrow> (string \<times> pyval) list \<Rightarrow> request option" where
  "body_request Ep_register_node [] b = map_option POST_nodes (NodeCreate_of b)"
| "body_request Ep_heartbeat [x] b = map_option (POST_heartbeat x) (NodeHeartbeat_of b)"
| "body_request _ _ b = None"

definition serve_post :: "path_match \<Rightarrow> 's orm \<Rightarrow> controller_settings \<Rightarrow> headers \<Rightarrow> string \<Rightarrow> (string \<times> pyval) list
    \<Rightarrow> 's world \<Rightarrow> (answer \<times> 's world) option" where
  "serve_post pm S cfg h p b w =
     (case dispatch pm (app_routes cfg) ''POST'' p of
        None \<Rightarrow> None
      | Some (ep, xs) \<Rightarrow>
          case body_request ep xs b of
            None \<Rightarrow> None
          | Some req \<Rightarrow> (case run_request S cfg h req w of (out, w') \<Rightarrow> Some (answer_of req out, w')))"

text \<open>What the client makes of an answer whose body decodes to \<open>js\<close>.\<close>

fun http_answer :: "answer \<Rightarrow> pyval \<Rightarrow> http_response res" where
  "http_answer (Answer c b) js = Ok \<lparr>status_code = int c, json = Ok js\<rparr>"
| "http_answer (Problem c d) js = Ok \<lparr>status_code = int c, json = Ok js\<rparr>"
| "http_answer No_answer js = Raise (HTTPError ''Server disconnected without sending a response.'')"

text \<open>What \<open>register\<close> and \<open>heartbeat\<close> of the agent do on a success.\<close>

lemma register_created:
  "\<exists>l. register rfs s (Ok ip) (http_answer (Answer 201 b) js) t = (Ok True, t @ l) \<and>
     posts l = [(''/api/v1/nodes'', register_payload s ip)]"
  by (auto simp: register_def bnd_def primary_ip_eq http_post_eq seqn_def got_def perform_def ret_def posts_def)

lemma heartbeat_taken:
  assumes "http_status rfs"
  shows "post_heartbeat rfs s None (http_answer (Answer 200 b) js) t = (Ok js, t @ [Post (heartbeat_path s) []])"
  using http_status.success_law [OF assms, of "\<lparr>status_code = 200, json = Ok js\<rparr>"]
  by (simp add: post_heartbeat_def bnd_def http_post_eq seqn_def got_def)

text \<open>The settings with which a node can be enrolled: within the bounds of the payload, the URLs plain.\<close>

definition enrollable :: "agent_settings \<Rightarrow> bool" where
  "enrollable s \<longleftrightarrow> length (agent_node_id s) \<le> 64 \<and> length (node_common_name s) \<le> 255 \<and> length (node_role s) \<le> 32 \<and>
     segment (agent_node_id s) \<and> path_text (agent_node_id s) \<and> no_dot_segments (agent_node_id s) \<and> origin (controller_url s)"

lemma enrollable_payload: "enrollable s \<Longrightarrow> length ip \<le> 45 \<Longrightarrow> valid_node_create (payload_of s ip)"
  by (simp add: enrollable_def valid_node_create_def payload_of_def)

context orm_live begin

lemma enrol_over_http:
  assumes "path_matching pm" and "request_target wire" and "http_status rfs" and "enrollable s" and "length ip \<le> 45"
    and "store_ok (durable (abs (sess w)))" and "identity_of h = Some i" and "live (revoked_serials w) i"
    and "is_node i" and "id_common_name i = node_common_name s"
    and "agent_node_id s \<notin> node_id ` set (fst (durable (abs (sess w))))"
  shows "\<exists>l1 u1 b1 r1 w1 l2 u2 b2 r2 w2 n e1 e2.
    register rfs s (Ok ip) (http_answer (Answer 201 (Body_node r1)) js1) t = (Ok True, t @ l1) \<and> posts l1 = [(u1, b1)] \<and>
    serve_post pm S cfg h (wire (controller_url s) u1) b1 w = Some (Answer 201 (Body_node r1), w1) \<and>
    post_heartbeat rfs s None (http_answer (Answer 200 (Body_node r2)) js2) (t @ l1) = (Ok js2, t @ l1 @ l2) \<and> posts l2 = [(u2, b2)] \<and>
    serve_post pm S cfg h (wire (controller_url s) u2) b2 w1 = Some (Answer 200 (Body_node r2), w2) \<and>
    fst (durable (abs (sess w2))) = fst (durable (abs (sess w))) @ [n] \<and>
    node_id n = agent_node_id s \<and> common_name n = node_common_name s \<and> state n = ACTIVE \<and> last_heartbeat_at n \<noteq> None \<and>
    snd (durable (abs (sess w2))) = snd (durable (abs (sess w))) @ [e1, e2] \<and>
    registers (agent_node_id s) e1 \<and> activates (agent_node_id s) e2"
proof -
  have v: "valid_node_create (payload_of s ip)" by (rule enrollable_payload [OF assms(4,5)])
  from enrol_and_beat [OF assms(6-11), of cfg ip] obtain row w1 n w2 e1 e2 where
    r: "run_request S cfg h (POST_nodes (payload_of s ip)) w = (Ok (R_node row), w1)"
      "run_request S cfg h (POST_heartbeat (agent_node_id s) no_note) w1 = (Ok (R_node n), w2)"
    and m: "NodeRead_of row \<noteq> None" "NodeRead_of n \<noteq> None"
    and d: "fst (durable (abs (sess w2))) = fst (durable (abs (sess w))) @ [n]"
      "node_id n = agent_node_id s" "common_name n = node_common_name s" "state n = ACTIVE" "last_heartbeat_at n \<noteq> None"
      "snd (durable (abs (sess w2))) = snd (durable (abs (sess w))) @ [e1, e2]"
      "registers (agent_node_id s) e1" "activates (agent_node_id s) e2"
    using v by blast
  obtain r1 r2 where m': "NodeRead_of row = Some r1" "NodeRead_of n = Some r2" using m by blast
  have p: "wire (controller_url s) ''/api/v1/nodes'' = ''/api/v1/nodes''"
    "wire (controller_url s) (heartbeat_path s) = heartbeat_path s"
    using request_target.path_law [OF assms(2)] api_prefix(5) plain_beat_path(1) assms(4)
    by (simp_all add: enrollable_def heartbeat_path_def)
  have s1: "serve_post pm S cfg h (wire (controller_url s) ''/api/v1/nodes'') (register_payload s ip) w =
      Some (Answer 201 (Body_node r1), w1)"
    using path_matching.dispatch_register [OF assms(1)] v r(1) m'(1)
    by (simp add: p serve_post_def register_payload_parsed)
  have "segment (agent_node_id s)" using assms(4) by (simp add: enrollable_def)
  then have s2: "serve_post pm S cfg h (wire (controller_url s) (heartbeat_path s)) [] w1 =
      Some (Answer 200 (Body_node r2), w2)"
    using path_matching.dispatch_heartbeat_path [OF assms(1), of cfg "agent_node_id s"] r(2) m'(2)
    by (simp only: p) (simp add: serve_post_def heartbeat_path_def heartbeat_payload_parsed no_note_def)
  obtain l1 where l1: "register rfs s (Ok ip) (http_answer (Answer 201 (Body_node r1)) js1) t = (Ok True, t @ l1)"
    "posts l1 = [(''/api/v1/nodes'', register_payload s ip)]"
    using register_created by blast
  have l2: "post_heartbeat rfs s None (http_answer (Answer 200 (Body_node r2)) js2) (t @ l1) = (Ok js2, t @ l1 @ [Post (heartbeat_path s) []])"
    "posts [Post (heartbeat_path s) []] = [(heartbeat_path s, [])]"
    using heartbeat_taken [OF assms(3)] by (simp_all add: posts_def)
  from l1 s1 l2 s2 d show ?thesis by blast
qed

end

end
