(* ===== verification/Spec2Isabelle.thy ===== *)
theory Spec2Isabelle
  imports Request_Properties Agent_Properties Process_Properties Interleaving_Properties Route_Properties Beating System Exchange
begin

text \<open>
  A model of the two services of the zero-trust laboratory and the theorems that make them correct.

  \<^bold>\<open>The program.\<close> The controller (\<open>controller/app\<close>) is a FastAPI service behind nginx. nginx ends the
  mTLS handshake and forwards what it verified in three headers; the controller makes an identity of
  them, checks its certificate against the revocation list it fetches in a loop, and serves
  registration, heartbeats and queries from two SQLite tables, nodes and audit events. A second loop
  keeps the gauges of the node table. The node agent (\<open>node-agent/app\<close>) starts only with a usable
  certificate, registers, beats for ever, and serves its metrics to listed scrapers over mTLS.

  \<^bold>\<open>How it is modelled.\<close> Every handler is an action: a function from the state to a result and the new
  state (\<open>Prelude\<close>), where an exception is a result and what was changed before it stays changed. The
  controller's state (\<open>Runtime.world\<close>) is the session, the cache of revoked serials, the trace of log
  lines and metric writes, and a clock whose readings are numbered; the agent's is the trace of what
  it does outside. Strings are Python strings restricted to 8-bit characters, instants are in
  microseconds, floats are exact rationals.

  \<^bold>\<open>Theories.\<close>
  \<^item> \<open>Prelude\<close>, \<open>Py_Str\<close>: exceptions, actions, effects, Python's string operations, \<open>int(s, 16)\<close> and
    hexadecimal printing.
  \<^item> \<open>Models\<close> (\<open>models/node.py\<close>, \<open>models/audit.py\<close>), \<open>Controller_Config\<close> (\<open>core/config.py\<close>).
  \<^item> \<open>Store\<close>: the tables, their invariant, and the interface to SQLAlchemy. The record \<open>orm\<close> has one
    field per call of the code on a session; the locale \<open>orm_session\<close> states the laws the code relies
    on, as a simulation of the tables, and lets any call raise; \<open>orm_live\<close> adds that a database in order
    does not. Both are interpreted on an in-memory session and \<open>orm_session\<close> on one that fails by plan.
  \<^item> \<open>Runtime\<close>, \<open>Background\<close> (the endless loops, with a locale for what a pass keeps), \<open>Audit_Log\<close>
    (\<open>core/audit.py\<close>, \<open>api/audit.py\<close>), \<open>Revocation\<close> (\<open>core/revocation.py\<close>), \<open>Security\<close>
    (\<open>core/security.py\<close>), \<open>Nodes\<close> (\<open>api/nodes.py\<close>), \<open>Api\<close> (\<open>get_session\<close>, \<open>health\<close>, \<open>whoami\<close>, the
    routes), \<open>Metrics_Hooks\<close> (\<open>core/metrics_hooks.py\<close>), \<open>Log_Levels\<close>, \<open>Controller_Main\<close>
    (\<open>core/metrics.py\<close>, \<open>init_db\<close>, \<open>main.py\<close>).
  \<^item> \<open>Controller_Spec\<close>: what one request of one identity may do to the committed tables, an inductive
    step relation with its invariants. \<open>Handlers\<close> and \<open>Api\<close> show that every request refines it on any
    session that keeps the laws; \<open>Handlers_Live\<close> and \<open>Requests_Live\<close> give the answer of every branch on
    a database in order; \<open>Fleet\<close> lifts the invariants to runs of requests and background passes.
  \<^item> \<open>Audit_Trail\<close>: a Hoare logic of actions, by which what is committed to the audit log has been logged.
  \<^item> \<open>Responses\<close>: the declared bounds of the arguments, the response models \<open>NodeRead\<close> and
    \<open>AuditEventRead\<close>, the reading of \<open>NodeCreate\<close> and \<open>NodeHeartbeat\<close> from JSON and the status an answer
    has. \<open>Routes\<close>: the table of routes of \<open>main.py\<close> and the routers, with the pages FastAPI adds by
    default, over a locale for the matching of path templates, interpreted on a concrete matcher, and
    one for the way of a URL to a path at the server, interpreted on cutting and decoding.
  \<^item> \<open>Programs\<close>: a request as a program of queries, readings of the clock and transactions, the pool of
    programs that take turns on what is committed, and the locale \<open>rely_guarantee\<close> for what every
    schedule keeps. \<open>Interleaving\<close>: the handlers as such programs, and the process with its arrivals,
    resumptions, broken-off calls and revocation updates. \<open>Interleaving_Safe\<close>: the interpretation of
    the locale, program by program. \<open>Interleaving_Alone\<close>: a program run without interruption is the
    request of \<open>Api\<close>. \<open>Interleaving_Races\<close>: requests end; two requests about one node.
    \<open>Interleaving_Activations\<close>: what a program may still add to a count, and so the activations that
    overlapping heartbeats can commit. \<open>Interleaving_Outcomes\<close>: the locale \<open>promise\<close>, how a request
    answers among the steps of others, interpreted for heartbeats and for registrations, disputed or
    not.
  \<^item> \<open>Agent_Config\<close>, \<open>Http_Client\<close>, \<open>Agent_Heartbeat\<close>, \<open>Cert_Guard\<close>, \<open>Metrics_Server\<close>, \<open>Agent_Main\<close>: the
    agent, file by file. \<open>Agent_Tasks\<close>: its three tasks as asyncio runs them, each a state (the \<open>await\<close>
    at which it is suspended) and a step, with the proof that the stepped heartbeat task is
    \<open>run_heartbeat\<close>. \<open>Agent_Loop\<close>: \<open>main.py\<close> on the event loop, a queue of callbacks with
    \<open>asyncio.wait\<close>, \<open>Task.cancel\<close>, \<open>gather\<close> and the signal handlers. \<open>Agent_Loop_Safe\<close>: the invariants
    of the queue; \<open>Agent_Shutdown\<close>: how \<open>main\<close> ends; \<open>Agent_Liveness\<close>: a measure that every event lowers
    once a signal came, and that the process is never stuck; \<open>Agent_Effects\<close>: what the trace says of
    the states of the tasks. \<open>Enrolment\<close> runs the agent's first requests against the controller,
    \<open>Exchange\<close> a post of the agent from its URL and its JSON to the answer it goes on with, \<open>Beating\<close>
    its loop of beats.
  \<^item> \<open>Settled\<close>: what the status of an answer says about the tables, and where the state of a row comes
    from. \<open>System\<close>: the agent's event loop and
    the interleaved controller in one system, joined by the answers, and the invariant that what the
    agent takes from its answers is so.
  \<^item> \<open>Lab\<close> is the concrete system of the witnesses; \<open>Controller_Properties\<close>, \<open>Request_Properties\<close>,
    \<open>Interleaving_Properties\<close>, \<open>Route_Properties\<close>, \<open>Agent_Properties\<close>, \<open>Process_Properties\<close> and
    this theory state the properties.

  \<^bold>\<open>What is shown.\<close> Who may change which row, under any database fault; that a refusal's audit row
  survives the rollback that follows it; the append-only audit log, uniqueness, one registration row
  per node and at most one activation; the answer and the committed state of every branch of
  registration and heartbeat; the exact conditions of an identity; the effect and the limits of
  revocation; the gauges against the table; the agent's retries, beats, gate, scrape and exit; and the
  enrolment protocol between the two services. When requests overlap at their awaits: the same
  authorisation (against the revocation list of the moment a request came in), well-formed tables, an
  append-only log, permanent and accounted enrolments, answers that fit their request and pass their
  response model (a page of the audit log exactly if its rows are within the bounds); but not one activation per node, of
  which two overlapping heartbeats commit two (later ones add none, those in progress one each at
  most), nor a 409 for each duplicate registration. A node's own heartbeat succeeds whatever overlaps
  with it, a registration takes effect, and one that nobody disputes is answered with its row. Without an
  identity no route but the health check, the schema and pages of the documentation, and the metrics is
  served. Of the agent's
  process, under every schedule of its event loop and every order of its sets of tasks: it beats only
  after a registration was answered, a signal ends it with success, without one it ends with the
  exception of the worker that crashed, and it leaves neither client nor server open. Some properties state what the code does where its
  comments promise more: a \<open>node_id\<close> is not bound to the certificate, an unreadable serial passes the
  revocation check, the jitter may exceed the interval.

  \<^bold>\<open>Bounds.\<close> No definition has fuel. Endless loops are runs over the finite list of what their passes
  met, for every such list, and are shown to go on through every pass that is not cancelled; the
  retries of the agent are the ten of the code. Schedules of the interleaved controller and of
  the agent's event loop are arbitrary finite lists of events; that fewer than eighty of them change the
  agent after a signal is the bound of a measure, not of the model.

  \<^bold>\<open>Two models of a handler.\<close> The one of \<open>Nodes\<close> works on a session, with every call that may raise
  and every log line and counter, from its first to its last await without another request between.
  The one of \<open>Interleaving\<close> may be interrupted at every await, and leaves log lines and counters out.
  It rests on how the database is used: a query outside of a transaction sees what is committed at
  that moment (the driver begins a transaction at the first statement that writes), there is one
  writer at a time, and an UPDATE sets the columns whose attributes changed. Its turns are those of
  the model (\<open>request_prog\<close>): a request that waits for a connection or the writer's lock gets none. That both are the same
  code is \<open>request_program_is_the_request\<close>.

  \<^bold>\<open>Not modelled.\<close> The decoding of JSON and of query strings, the text of validation errors, the
  escaping of characters a URL may not hold, TLS, psutil and the
  exposition format are parameters or left out. The agent's event loop serves its scrapes (\<open>scrape\<close>)
  as callbacks that touch none of its three tasks, so they are not among its events; an awaited call
  that is cancelled ends at once. The controller's background loops only read the tables, so they are
  events of the interleaved controller as far as they store a revocation list. nginx, step-ca, Ansible
  and the monitoring stack are configuration.

  \<^bold>\<open>Plan.\<close> Log lines and counters of the interleaved programs; the gauge loop's reads among
  interleaved requests.
\<close>

text \<open>
  C26: The agent's code and the controller agree on enrolment: with a live certificate under its own
  common name, a \<open>node_id\<close> that is free, and settings within the bounds, the body \<open>register\<close> posts is read
  by the route its URL leads to and answered 201, which \<open>register\<close> takes for a new registration; what
  \<open>heartbeat\<close> posts then reaches its own row and is answered 200. Both answers pass the response model.
  After the two requests the table has the agent's row, active and beaten, and the audit log exactly its
  registration and its activation more.
\<close>
theorem agent_enrols_and_activates:
  assumes "orm_live S A" and "path_matching pm" and "request_target wire" and "http_status rfs"
    and "enrollable s" and "length ip \<le> 45"
    and "store_ok (durable (A (sess w)))" and "identity_of h = Some i"
    and "live (revoked_serials w) i" and "is_node i" and "id_common_name i = node_common_name s"
    and "agent_node_id s \<notin> node_id ` set (fst (durable (A (sess w))))"
  shows "\<exists>l1 u1 b1 r1 w1 l2 u2 b2 r2 w2 n e1 e2.
    register rfs s (Ok ip) (http_answer (Answer 201 (Body_node r1)) js1) t = (Ok True, t @ l1) \<and> posts l1 = [(u1, b1)] \<and>
    serve_post pm S cfg h (wire (controller_url s) u1) b1 w = Some (Answer 201 (Body_node r1), w1) \<and>
    post_heartbeat rfs s None (http_answer (Answer 200 (Body_node r2)) js2) (t @ l1) = (Ok js2, t @ l1 @ l2) \<and> posts l2 = [(u2, b2)] \<and>
    serve_post pm S cfg h (wire (controller_url s) u2) b2 w1 = Some (Answer 200 (Body_node r2), w2) \<and>
    fst (durable (A (sess w2))) = fst (durable (A (sess w))) @ [n] \<and>
    node_id n = agent_node_id s \<and> common_name n = node_common_name s \<and> state n = ACTIVE \<and> last_heartbeat_at n \<noteq> None \<and>
    snd (durable (A (sess w2))) = snd (durable (A (sess w))) @ [e1, e2] \<and>
    registers (agent_node_id s) e1 \<and> activates (agent_node_id s) e2"
  by (rule orm_live.enrol_over_http [OF assms])

theorem agent_enrols_and_activates_witness:
  "\<exists>l u b r1 w1 v c r2 w2 n e1 e2. register status_check agent_defaults (Ok ''10.50.20.11'') (http_answer (Answer 201 (Body_node r1)) PNone) [] = (Ok True, l) \<and>
    posts l = [(u, b)] \<and>
    serve_post simple_match mem_orm default_settings headers_1 (cut_and_decode ''https://controller.thesis.local'' u) b (empty_lab {}) =
      Some (Answer 201 (Body_node r1), w1) \<and>
    serve_post simple_match mem_orm default_settings headers_1 (cut_and_decode ''https://controller.thesis.local'' v) c w1 =
      Some (Answer 200 (Body_node r2), w2) \<and>
    fst (durable (sess w2)) = [n] \<and> state n = ACTIVE \<and> snd (durable (sess w2)) = [e1, e2]"
proof -
  have e: "enrollable agent_defaults" by code_simp
  have f: "length ''10.50.20.11'' \<le> 45" "store_ok (durable (sess (empty_lab {})))" "live (revoked_serials (empty_lab {})) identity_1"
    "is_node identity_1" "id_common_name identity_1 = node_common_name agent_defaults"
    "agent_node_id agent_defaults \<notin> node_id ` set (fst (durable (sess (empty_lab {}))))"
    "controller_url agent_defaults = ''https://controller.thesis.local''"
    by (simp_all add: agent_defaults_def)
  from agent_enrols_and_activates [OF mem_live simple_matching cut_target status_check.http_status_axioms e f(1,2)
      lab_identities(1) f(3-6), of PNone "[]" default_settings PNone, unfolded f(7) empty_lab_fields(1) fst_conv snd_conv append_Nil]
  show ?thesis by (elim exE conjE) (intro exI conjI, assumption+)
qed

text \<open>
  C27: Revocation shuts an agent out at the next pass of the controller's loop: an enrolled agent's beats
  are answered and counted as successes while its certificate is live; once the loop has stored a
  list with its serial, each further beat is a failure for the agent, whose loop goes on, and a
  refusal in the audit log for the controller, whose node table stays as the last good beat left it.
\<close>
theorem revoked_agent_is_shut_out:
  assumes "orm_live S A" and "http_status rfs" and "identity_of h = Some i" and "naps_end xs" and "naps_end ys"
    and "store_ok (durable (A (sess w)))" and "live (revoked_serials w) i"
    and "enrolled_as s i (fst (durable (A (sess w))))" and "serial i = Some k" and "k \<in> R"
  shows "\<exists>t1 w1 t2 w2 es. beat_against S cfg h rfs s xs t w = (Ok (), t1, w1) \<and>
    beat_against S cfg h rfs s ys t1 (snd (crl_iteration (Ok R, z) w1)) = (Ok (), t2, w2) \<and>
    count_list t2 (Heartbeats_Inc ''success'') = count_list t (Heartbeats_Inc ''success'') + length xs \<and>
    count_list t2 (Heartbeats_Inc ''failure'') = count_list t (Heartbeats_Inc ''failure'') + length ys \<and>
    fst (durable (A (sess w2))) = fst (durable (A (sess w1))) \<and>
    snd (durable (A (sess w2))) = snd (durable (A (sess w1))) @ es \<and> length es = length ys \<and>
    (\<forall>e \<in> set es. action e = AUTH_FAILURE \<and> result e = REJECTED \<and> actor_cn e = id_common_name i)"
  by (rule orm_live.beats_until_revoked [OF assms])

theorem revoked_agent_is_shut_out_witness:
  "\<exists>t1 w1 t2 w2. beat_against mem_orm default_settings headers_1 status_check agent_defaults
      [\<lparr>draw = 3, round_nap = Ok (), reply = PNone\<rparr>] [] (lab {}) = (Ok (), t1, w1) \<and>
    beat_against mem_orm default_settings headers_1 status_check agent_defaults
      [\<lparr>draw = 1, round_nap = Ok (), reply = PNone\<rparr>, \<lparr>draw = 2, round_nap = Ok (), reply = PNone\<rparr>]
      t1 (snd (crl_iteration (Ok {26}, Ok ()) w1)) = (Ok (), t2, w2) \<and>
    count_list t2 (Heartbeats_Inc ''success'') = 1 \<and> count_list t2 (Heartbeats_Inc ''failure'') = 2"
proof -
  let ?xs = "[\<lparr>draw = 3, round_nap = Ok (), reply = PNone\<rparr>]"
  let ?ys = "[\<lparr>draw = 1, round_nap = Ok (), reply = PNone\<rparr>, \<lparr>draw = 2, round_nap = Ok (), reply = PNone\<rparr>]"
  have e: "enrolled_as agent_defaults identity_1 (fst (durable (sess (lab {}))))"
    by (simp add: enrolled_as_def agent_defaults_def)
  have n: "naps_end ?xs" "naps_end ?ys" "store_ok (durable (sess (lab {})))" "live (revoked_serials (lab {})) identity_1"
    "(26::int) \<in> {26}" by (simp_all add: naps_end_def)
  from revoked_agent_is_shut_out [OF mem_live status_check.http_status_axioms lab_identities(1) n(1-4) e lab_revoked(1) n(5),
      of default_settings "[]" "Ok ()"]
  obtain t1 w1 t2 w2 where
    "beat_against mem_orm default_settings headers_1 status_check agent_defaults ?xs [] (lab {}) = (Ok (), t1, w1)"
    "beat_against mem_orm default_settings headers_1 status_check agent_defaults ?ys t1 (snd (crl_iteration (Ok {26}, Ok ()) w1)) = (Ok (), t2, w2)"
    "count_list t2 (Heartbeats_Inc ''success'') = count_list [] (Heartbeats_Inc ''success'') + length ?xs"
    "count_list t2 (Heartbeats_Inc ''failure'') = count_list [] (Heartbeats_Inc ''failure'') + length ?ys"
    by blast
  then show ?thesis
    by (intro exI [of _ t1] exI [of _ w1] exI [of _ t2] exI [of _ w2] conjI) (assumption | simp only: list.size count_list.simps)+
qed

text \<open>
  C10: What the agent takes from its answers is so: whatever the schedules of its event loop and of the
  controller, whatever other clients ask and whichever calls fail, when the agent has posted a
  heartbeat its \<open>node_id\<close> is in the controller's table, and when it has counted a heartbeat as a success
  the row under its \<open>node_id\<close> has a last heartbeat and is active; or it is stale, revoked or
  decommissioned, because the table held it so at the start or a request registered the \<open>node_id\<close> so.
\<close>
theorem agent_and_controller_agree:
  assumes "http_status rfs" and "tables_ok d"
    and "q = system_run cfg rfs s order es (system_start t d R)" and "performed (sys_agent q) = t @ l"
  shows "(Post (heartbeat_path s) b \<in> set l \<longrightarrow> agent_node_id s \<in> node_id ` set (fst (s_db (sys_controller q)))) \<and>
    (Heartbeats_Inc ''success'' \<in> set l \<longrightarrow>
      (\<exists>n \<in> set (fst (s_db (sys_controller q))). node_id n = agent_node_id s \<and> last_heartbeat_at n \<noteq> None \<and>
        (state n = ACTIVE \<or> state n \<in> {STALE, REVOKED, DECOMMISSIONED} \<and> given_state d es (agent_node_id s) (state n))))"
proof -
  have a: "agent_agrees rfs s t (enrolled_in (agent_node_id s) (s_db (sys_controller q)))
      (has_beaten (agent_node_id s) (s_db (sys_controller q))) (sys_agent q)"
    using http_status.system_ok_run [OF assms(1,2)] by (simp add: assms(3) system_ok_def)
  have "0 < beats s l \<longrightarrow> enrolled_in (agent_node_id s) (s_db (sys_controller q))"
    "0 < successes l \<longrightarrow> has_beaten (agent_node_id s) (s_db (sys_controller q))"
    using a assms(4) by (simp_all add: agent_agrees_def)
  then have e: "Post (heartbeat_path s) b \<in> set l \<longrightarrow> agent_node_id s \<in> node_id ` set (fst (s_db (sys_controller q)))"
    and h: "Heartbeats_Inc ''success'' \<in> set l \<longrightarrow> has_beaten (agent_node_id s) (s_db (sys_controller q))"
    unfolding beats_pos successes_pos enrolled_in_def by blast+
  have o: "originates (given_state d es) (sys_controller q)"
    unfolding assms(3) by (rule system_run_originates [OF assms(1,2)])
  have "state n = ACTIVE \<or> state n \<in> {STALE, REVOKED, DECOMMISSIONED} \<and> given_state d es (node_id n) (state n)"
    if "n \<in> set (fst (s_db (sys_controller q)))" "state n \<noteq> ONBOARDING" for n
    using o that by (cases "state n") (auto simp: originates_def)
  with e h show ?thesis unfolding has_beaten_def by metis
qed

text \<open>Registration and first beat of the agent of \<open>Lab\<close>, on an empty table.\<close>

definition first_contact :: "system_event list" where
  "first_contact = map At_Agent (lab_turns 3) @
     At_Controller (Arrive headers_1 (POST_nodes (payload_of agent_defaults ''10.50.20.11''))) #
     replicate 6 (At_Controller (Resume 0 7)) @ [Reply 0 PNone] @ map At_Agent (lab_turns 1) @
     At_Controller (Arrive headers_1 (POST_heartbeat ''pi-01'' no_note)) #
     replicate 6 (At_Controller (Resume 1 8)) @ [Reply 1 PNone] @ map At_Agent (lab_turns 1)"

theorem agent_and_controller_agree_witness:
  "\<exists>n \<in> set (fst (s_db (sys_controller (system_run default_settings status_check agent_defaults all_tasks first_contact
      (system_start [] ([], []) {}))))). node_id n = ''pi-01'' \<and> last_heartbeat_at n \<noteq> None \<and> state n \<noteq> ONBOARDING"
proof -
  let ?q = "system_run default_settings status_check agent_defaults all_tasks first_contact (system_start [] ([], []) {})"
  have "successes (performed (sys_agent ?q)) = 1" by code_simp
  then have "Heartbeats_Inc ''success'' \<in> set (performed (sys_agent ?q))"
    using successes_pos [of "performed (sys_agent ?q)"] by simp
  moreover have "agent_node_id agent_defaults = ''pi-01''" by (simp add: agent_defaults_def)
  ultimately show ?thesis
    using agent_and_controller_agree [OF status_check.http_status_axioms lab_tables_ok(2) refl, where t = "[]" and
        s = agent_defaults and cfg = default_settings and order = all_tasks and es = first_contact and R = "{}"
        and l = "performed (sys_agent ?q)"]
    by (simp only: append_Nil simp_thms insert_iff empty_iff) (metis node_state.distinct(1,3,5,7))
qed

text \<open>
  Registration is idempotent: an agent whose \<open>node_id\<close> is in the table is answered 409, which its
  client takes for registered, and nothing is committed.
\<close>
theorem registration_is_idempotent:
  assumes "orm_live S A" and "store_ok (durable (A (sess w)))" and "identity_of h = Some i"
    and "live (revoked_serials w) i" and "is_node i" and "id_common_name i = node_common_name s"
    and "agent_node_id s \<in> node_id ` set (fst (durable (A (sess w))))"
  shows "\<exists>out w1. run_request S cfg h (POST_nodes (payload_of s ip)) w = (out, w1) \<and>
    register_value rfs (answer_to (POST_nodes (payload_of s ip)) out body) = Ok False \<and>
    durable (A (sess w1)) = durable (A (sess w))"
  by (rule orm_live.register_again [OF assms])

theorem registration_is_idempotent_witness:
  "\<exists>out w1. run_request mem_orm default_settings headers_1 (POST_nodes (payload_of agent_defaults [])) (lab {}) = (out, w1) \<and>
    register_value status_check (answer_to (POST_nodes (payload_of agent_defaults [])) out PNone) = Ok False \<and>
    durable (sess w1) = ([lab_node ONBOARDING None], [lab_event])"
  using registration_is_idempotent [OF mem_live _ lab_identities(1), of "lab {}" agent_defaults default_settings "[]" status_check PNone]
  by (auto simp: agent_defaults_def)

text \<open>
  C37: A \<open>node_id\<close> is not bound to the certificate: a node may register another's free \<open>node_id\<close> under
  its own common name. The owner's agent then takes the 409 it gets for registered, and each of its
  heartbeats is answered by 403.
\<close>
theorem node_id_can_be_taken:
  assumes "orm_live S A" and "store_ok (durable (A (sess w)))"
    and "identity_of h = Some i" and "live (revoked_serials w) i" and "is_node i"
    and "common_name p = id_common_name i" and "node_id p = agent_node_id s"
    and "agent_node_id s \<notin> node_id ` set (fst (durable (A (sess w))))"
    and "identity_of h2 = Some j" and "live (revoked_serials w) j" and "is_node j"
    and "id_common_name j = node_common_name s" and "id_common_name i \<noteq> id_common_name j"
  shows "\<exists>out0 w0 out1 w1 out2 w2.
    run_request S cfg h (POST_nodes p) w = (out0, w0) \<and> status_of (POST_nodes p) out0 = 201 \<and>
    run_request S cfg h2 (POST_nodes (payload_of s ip)) w0 = (out1, w1) \<and>
    register_value rfs (answer_to (POST_nodes (payload_of s ip)) out1 body) = Ok False \<and>
    run_request S cfg h2 (POST_heartbeat (agent_node_id s) no_note) w1 = (out2, w2) \<and>
    status_of (POST_heartbeat (agent_node_id s) no_note) out2 = 403"
  by (rule orm_live.hijacked_node_id [OF assms])

theorem node_id_can_be_taken_witness:
  "\<exists>out0 w0 out1 w1. run_request mem_orm default_settings headers_2 (POST_nodes (payload_2\<lparr>node_id := ''pi-01''\<rparr>)) (empty_lab {}) = (out0, w0) \<and>
    run_request mem_orm default_settings headers_1 (POST_nodes (payload_of agent_defaults [])) w0 = (out1, w1) \<and>
    register_value status_check (answer_to (POST_nodes (payload_of agent_defaults [])) out1 PNone) = Ok False"
proof -
  have "\<exists>out0 w0 out1 w1 out2 w2.
    run_request mem_orm default_settings headers_2 (POST_nodes (payload_2\<lparr>node_id := ''pi-01''\<rparr>)) (empty_lab {}) = (out0, w0) \<and>
    status_of (POST_nodes (payload_2\<lparr>node_id := ''pi-01''\<rparr>)) out0 = 201 \<and>
    run_request mem_orm default_settings headers_1 (POST_nodes (payload_of agent_defaults [])) w0 = (out1, w1) \<and>
    register_value status_check (answer_to (POST_nodes (payload_of agent_defaults [])) out1 PNone) = Ok False \<and>
    run_request mem_orm default_settings headers_1 (POST_heartbeat (agent_node_id agent_defaults) no_note) w1 = (out2, w2) \<and>
    status_of (POST_heartbeat (agent_node_id agent_defaults) no_note) out2 = 403"
    by (rule node_id_can_be_taken [OF mem_live _ lab_identities(2) _ _ _ _ _ lab_identities(1)])
       (simp_all add: agent_defaults_def)
  then show ?thesis by blast
qed

end
